(* ===== verification/Prelude.thy ===== *)
theory Prelude
  imports Main "HOL-Library.Word" "HOL-Library.Monad_Syntax"
begin

text \<open>
  What the components share: the integer types of \<^verbatim>\<open>constants.hpp\<close> at their width,
  the byte-level view of a machine integer in memory on either kind of host, the conversion
  between C++ strings and bytes, and the named collections that carry the component proofs.

  A C++ value of a w-bit integer type is a \<open>w word\<close>; a signed one is read with \<open>sint\<close>.
  A \<^verbatim>\<open>std::string\<close> is a \<open>string\<close>, one \<open>char\<close> per byte.
\<close>

unbundle bit_operations_syntax

named_theorems io_simps \<open>outcome of an input/output operation on a healthy socket\<close>
named_theorems frame \<open>what an operation leaves unchanged\<close>
named_theorems wire \<open>byte sequences on the wire and their lengths\<close>

section \<open>Integer types\<close>

type_synonym byte = "8 word"
type_synonym cmd_t = "16 word"
type_synonym agsize_t = "64 word"
type_synonym agerr_t = "64 word"
type_synonym agdev_t = "64 word"
type_synonym agmode_t = "32 word"
type_synonym agmask_t = "32 word"
type_synonym agtime_t = "64 word"

text \<open>
  \<^verbatim>\<open>agerr_t\<close> is a signed 64-bit integer: it is negative when its sign bit is set.
\<close>

abbreviation neg_err :: "agerr_t \<Rightarrow> bool" where
  "neg_err err \<equiv> sint err < 0"

section \<open>Bytes of a word\<close>

text \<open>\<open>le_bytes w\<close> lists the bytes of \<open>w\<close>, the least significant one first.\<close>

definition le_bytes :: "'a::len word \<Rightarrow> byte list" where
  "le_bytes w = map (\<lambda>i. ucast (drop_bit (8 * i) w)) [0..<LENGTH('a) div 8]"

fun of_le :: "byte list \<Rightarrow> 'a::len word" where
  "of_le [] = 0"
| "of_le (b # bs) = ucast b OR push_bit 8 (of_le bs)"

lemma length_le_bytes [simp, wire]: "length (le_bytes (w :: 'a::len word)) = LENGTH('a) div 8"
  by (simp add: le_bytes_def)

lemma bit_le_bytes:
  assumes "i < LENGTH('a) div 8" and "k < 8"
  shows "bit (le_bytes (w :: 'a::len word) ! i) k \<longleftrightarrow> bit w (8 * i + k)"
  using assms by (simp add: le_bytes_def bit_ucast_iff bit_drop_bit_eq)

lemma bit_of_le:
  "bit (of_le bs :: 'a::len word) k \<longleftrightarrow>
     k < LENGTH('a) \<and> k div 8 < length bs \<and> bit (bs ! (k div 8)) (k mod 8)"
proof (induction bs arbitrary: k)
  case Nil
  then show ?case by simp
next
  case (Cons b bs)
  show ?case
  proof (cases "k < 8")
    case True
    then show ?thesis
      by (auto simp: bit_or_iff bit_ucast_iff bit_push_bit_iff dest: bit_imp_le_length)
  next
    case False
    then obtain j where k: "k = 8 + j"
      by (metis le_add_diff_inverse not_less)
    have "\<not> bit b (8 + j)"
      using bit_imp_le_length [of b "8 + j"] by auto
    moreover have "(8 + j) div 8 = Suc (j div 8)"
      by simp
    ultimately show ?thesis
      using bit_imp_le_length [of "of_le bs :: 'a word" j]
      by (auto simp: k bit_or_iff bit_ucast_iff bit_push_bit_iff Cons.IH)
  qed
qed

lemma of_le_le_bytes [simp]:
  assumes "8 dvd LENGTH('a::len)"
  shows "of_le (le_bytes w) = (w :: 'a word)"
proof (rule bit_word_eqI)
  fix n
  assume n: "n < LENGTH('a)"
  with assms have "n div 8 < LENGTH('a) div 8"
    by (metis dvd_div_mult_self less_mult_imp_div_less)
  then show "bit (of_le (le_bytes w) :: 'a word) n \<longleftrightarrow> bit w n"
    using n by (simp add: bit_of_le bit_le_bytes)
qed

lemma le_bytes_of_le [simp]:
  assumes "length bs = LENGTH('a::len) div 8"
  shows "le_bytes (of_le bs :: 'a word) = bs"
proof (rule nth_equalityI)
  show "length (le_bytes (of_le bs :: 'a word)) = length bs"
    using assms by simp
next
  fix i
  assume "i < length (le_bytes (of_le bs :: 'a word))"
  then have i: "i < LENGTH('a) div 8" by simp
  show "le_bytes (of_le bs :: 'a word) ! i = bs ! i"
  proof (rule bit_word_eqI)
    fix k
    assume "k < LENGTH(8)"
    then have k: "k < 8" by simp
    with i have "8 * i + k < LENGTH('a)" by linarith
    then show "bit (le_bytes (of_le bs :: 'a word) ! i) k \<longleftrightarrow> bit (bs ! i) k"
      using i k assms by (simp add: bit_le_bytes bit_of_le)
  qed
qed

section \<open>Host byte order\<close>

text \<open>
  A host stores an integer in memory with its least or its most significant byte first.
  \<^verbatim>\<open>htobe16/32/64\<close> and \<^verbatim>\<open>be16toh/...\<close> of \<^verbatim>\<open><endian.h>\<close> swap the bytes on the
  first kind of host and do nothing on the second.
\<close>

datatype endian = LittleEndian | BigEndian

definition bswap :: "'a::len word \<Rightarrow> 'a word" where
  "bswap w = of_le (rev (le_bytes w))"

fun htobe :: "endian \<Rightarrow> 'a::len word \<Rightarrow> 'a word" where
  "htobe LittleEndian w = bswap w"
| "htobe BigEndian w = w"

fun betoh :: "endian \<Rightarrow> 'a::len word \<Rightarrow> 'a word" where
  "betoh LittleEndian w = bswap w"
| "betoh BigEndian w = w"

text \<open>The bytes of an integer object in memory, and the integer an object's bytes hold.\<close>

fun mem_store :: "endian \<Rightarrow> 'a::len word \<Rightarrow> byte list" where
  "mem_store LittleEndian w = le_bytes w"
| "mem_store BigEndian w = rev (le_bytes w)"

fun mem_load :: "endian \<Rightarrow> byte list \<Rightarrow> 'a::len word" where
  "mem_load LittleEndian bs = of_le bs"
| "mem_load BigEndian bs = of_le (rev bs)"

text \<open>A \<^verbatim>\<open>read\<close> into an object replaces its first bytes and keeps the others.\<close>

definition overlay :: "byte list \<Rightarrow> byte list \<Rightarrow> byte list" where
  "overlay new old = new @ drop (length new) old"

text \<open>Network order: the most significant byte first.\<close>

definition be_bytes :: "'a::len word \<Rightarrow> byte list" where
  "be_bytes w = rev (le_bytes w)"

lemma length_mem_store [simp, wire]:
  "length (mem_store e (w :: 'a::len word)) = LENGTH('a) div 8"
  by (cases e) simp_all

lemma length_be_bytes [simp, wire]: "length (be_bytes (w :: 'a::len word)) = LENGTH('a) div 8"
  by (simp add: be_bytes_def)

lemma be_bytes_nonempty: "8 \<le> LENGTH('a::len) \<Longrightarrow> be_bytes (w :: 'a word) \<noteq> []"
  using length_be_bytes [of w] by (auto simp: div_eq_0_iff simp del: length_be_bytes)

lemma overlay_full [simp]: "length old \<le> length new \<Longrightarrow> overlay new old = new"
  by (simp add: overlay_def)

lemma overlay_Nil [simp]: "overlay [] old = old"
  by (simp add: overlay_def)

lemma length_overlay: "length new \<le> length old \<Longrightarrow> length (overlay new old) = length old"
  by (simp add: overlay_def)

lemma mem_load_store [simp]:
  "8 dvd LENGTH('a::len) \<Longrightarrow> mem_load e (mem_store e w) = (w :: 'a word)"
  by (cases e) simp_all

lemma mem_store_htobe [wire]:
  "mem_store e (htobe e (w :: 'a::len word)) = be_bytes w"
  by (cases e) (simp_all add: be_bytes_def bswap_def)

lemma betoh_mem_load_be [simp, wire]:
  "8 dvd LENGTH('a::len) \<Longrightarrow> betoh e (mem_load e (be_bytes w)) = (w :: 'a word)"
  by (cases e) (simp_all add: be_bytes_def bswap_def)

lemma bswap_bswap [simp]: "8 dvd LENGTH('a::len) \<Longrightarrow> bswap (bswap w) = (w :: 'a word)"
  by (simp add: bswap_def)

lemma bswap_0 [simp]: "bswap (0 :: 'a::len word) = 0"
proof -
  have "\<not> bit (bswap (0 :: 'a word)) n" for n
    unfolding bswap_def bit_of_le
    by (auto simp: rev_nth le_bytes_def)
  then show ?thesis
    by (simp add: bit_eq_iff)
qed

lemma betoh_0 [simp]: "betoh e 0 = 0"
  by (cases e) simp_all

lemma be_bytes_inj:
  "8 dvd LENGTH('a::len) \<Longrightarrow> be_bytes v = be_bytes w \<longleftrightarrow> v = (w :: 'a word)"
  by (metis be_bytes_def of_le_le_bytes rev_rev_ident)

section \<open>Strings as bytes\<close>

definition str_bytes :: "string \<Rightarrow> byte list" where
  "str_bytes s = map (\<lambda>c. word_of_nat (of_char c)) s"

definition bytes_str :: "byte list \<Rightarrow> string" where
  "bytes_str bs = map (\<lambda>b. char_of (unat b)) bs"

text \<open>The character that ends a C string.\<close>

definition NUL :: char where
  "NUL = CHR 0x00"

lemma length_str_bytes [simp, wire]: "length (str_bytes s) = length s"
  by (simp add: str_bytes_def)

lemma length_bytes_str [simp]: "length (bytes_str bs) = length bs"
  by (simp add: bytes_str_def)

lemma bytes_str_str_bytes [simp]: "bytes_str (str_bytes s) = s"
proof -
  have "char_of (unat (word_of_nat (of_char c) :: byte)) = c" for c :: char
  proof -
    have "unat (word_of_nat (of_char c) :: byte) = of_char c"
      by (simp add: unat_of_nat)
    then show ?thesis by simp
  qed
  then show ?thesis
    by (simp add: bytes_str_def str_bytes_def comp_def)
qed

lemma bytes_str_append: "bytes_str (xs @ ys) = bytes_str xs @ bytes_str ys"
  by (simp add: bytes_str_def)

lemma takeWhile_no_NUL [simp]: "NUL \<notin> set s \<Longrightarrow> takeWhile (\<lambda>c. c \<noteq> NUL) s = s"
  by (auto simp: takeWhile_eq_all_conv)

end
