(* ===== verification/StdMap.thy ===== *)
theory StdMap
  imports Prelude "HOL-Library.List_Lexorder" "HOL-Library.Char_ord"
begin

text \<open>
  \<^verbatim>\<open>std::map\<close> as the program uses it: \<^verbatim>\<open>find\<close>, \<^verbatim>\<open>operator[]\<close> (which creates a
  missing entry), \<^verbatim>\<open>insert\<close> (which keeps an entry that exists), and iteration in ascending
  key order. A map is the association list that the iteration walks, strictly sorted by key.
  Strings are compared byte by byte, bytes as unsigned numbers, as
  \<^verbatim>\<open>std::less<std::string>\<close> does: the orders of \<open>Char_ord\<close> and \<open>List_Lexorder\<close>.

  The locale \<open>std_map\<close> states the contract that the clients (the disambiguater and the
  table of connections) rely on; the interpretation \<open>smap\<close> discharges it for the list.
\<close>

type_synonym ('k, 'v) std_map = "('k \<times> 'v) list"

fun map_find :: "('k::linorder, 'v) std_map \<Rightarrow> 'k \<Rightarrow> 'v option" where
  "map_find [] k = None"
| "map_find ((k', v) # m) k = (if k = k' then Some v else map_find m k)"

text \<open>\<^verbatim>\<open>m[k] = v\<close>\<close>

fun map_put :: "'k::linorder \<Rightarrow> 'v \<Rightarrow> ('k, 'v) std_map \<Rightarrow> ('k, 'v) std_map" where
  "map_put k v [] = [(k, v)]"
| "map_put k v ((k', v') # m) =
     (if k < k' then (k, v) # (k', v') # m
      else if k = k' then (k, v) # m
      else (k', v') # map_put k v m)"

text \<open>\<^verbatim>\<open>m.insert(std::make_pair(k, v))\<close>\<close>

definition map_insert :: "'k::linorder \<Rightarrow> 'v \<Rightarrow> ('k, 'v) std_map \<Rightarrow> ('k, 'v) std_map" where
  "map_insert k v m = (case map_find m k of None \<Rightarrow> map_put k v m | Some _ \<Rightarrow> m)"

text \<open>The value \<^verbatim>\<open>m[k]\<close>, with the default \<open>d\<close> that a missing entry is created with.\<close>

definition map_at :: "'v \<Rightarrow> ('k::linorder, 'v) std_map \<Rightarrow> 'k \<Rightarrow> 'v" where
  "map_at d m k = (case map_find m k of None \<Rightarrow> d | Some v \<Rightarrow> v)"

definition map_ok :: "('k::linorder, 'v) std_map \<Rightarrow> bool" where
  "map_ok m = sorted_wrt (<) (map fst m)"

section \<open>The contract\<close>

locale std_map =
  fixes empty :: "'m"
    and lookup :: "'m \<Rightarrow> 'k::linorder \<Rightarrow> 'v option"
    and put :: "'k \<Rightarrow> 'v \<Rightarrow> 'm \<Rightarrow> 'm"
    and insert_new :: "'k \<Rightarrow> 'v \<Rightarrow> 'm \<Rightarrow> 'm"
    and entries :: "'m \<Rightarrow> ('k \<times> 'v) list"
    and invar :: "'m \<Rightarrow> bool"
  assumes lookup_empty: "lookup empty k = None"
    and lookup_put: "invar m \<Longrightarrow> lookup (put k v m) k' = (if k' = k then Some v else lookup m k')"
    and lookup_insert_new: "invar m \<Longrightarrow>
          lookup (insert_new k v m) k' = (if k' = k \<and> lookup m k = None then Some v else lookup m k')"
    and invar_empty: "invar empty"
    and invar_put: "invar m \<Longrightarrow> invar (put k v m)"
    and invar_insert_new: "invar m \<Longrightarrow> invar (insert_new k v m)"
    and entries_sorted: "invar m \<Longrightarrow> sorted_wrt (<) (map fst (entries m))"
    and entries_iff: "invar m \<Longrightarrow> (k, v) \<in> set (entries m) \<longleftrightarrow> lookup m k = Some v"
begin

lemma entries_distinct: "invar m \<Longrightarrow> distinct (map fst (entries m))"
  by (rule strict_sorted_iff [THEN iffD1, THEN conjunct2]) (rule entries_sorted)

lemma keys_iff: "invar m \<Longrightarrow> k \<in> fst ` set (entries m) \<longleftrightarrow> lookup m k \<noteq> None"
  by (force simp: entries_iff [symmetric] image_iff)

text \<open>The iteration is determined by what the lookups return.\<close>

lemma entries_ext:
  assumes "invar m" and "invar m'" and "\<And>k. lookup m k = lookup m' k"
  shows "entries m = entries m'"
proof -
  have same: "set (entries m) = set (entries m')"
    using assms by (auto simp: entries_iff)
  have "map fst (entries m) = map fst (entries m')"
    using same entries_sorted [OF assms(1)] entries_sorted [OF assms(2)]
    by (intro strict_sorted_equal) auto
  then have len: "length (entries m) = length (entries m')"
    by (metis length_map)
  show ?thesis
  proof (rule nth_equalityI [OF len])
    fix i
    assume i: "i < length (entries m)"
    obtain k v where e: "entries m ! i = (k, v)" by fastforce
    obtain k' v' where e': "entries m' ! i = (k', v')" by fastforce
    have "k = k'"
      using \<open>map fst (entries m) = map fst (entries m')\<close> i len e e'
      by (metis fst_conv nth_map)
    moreover have "lookup m k = Some v"
      using i e assms(1) by (metis entries_iff nth_mem)
    moreover have "lookup m' k' = Some v'"
      using i len e' assms(2) by (metis entries_iff nth_mem)
    ultimately show "entries m ! i = entries m' ! i"
      using e e' assms(3) by simp
  qed
qed

lemma put_same: "invar m \<Longrightarrow> lookup m k = Some v \<Longrightarrow> entries (put k v m) = entries m"
  by (rule entries_ext) (auto simp: invar_put lookup_put)

lemma insert_new_keeps: "invar m \<Longrightarrow> lookup m k = Some v \<Longrightarrow> lookup (insert_new k w m) k = Some v"
  by (simp add: lookup_insert_new)

lemma keys_put:
  assumes "invar m"
  shows "fst ` set (entries (put k v m)) = insert k (fst ` set (entries m))"
  using assms by (intro set_eqI) (simp add: keys_iff invar_put lookup_put del: image_iff)

end

section \<open>The list implements the contract\<close>

lemma map_find_in: "map_find m k = Some v \<Longrightarrow> (k, v) \<in> set m"
  by (induction m k rule: map_find.induct) (auto split: if_splits)

lemma map_find_sorted:
  "map_ok m \<Longrightarrow> (k, v) \<in> set m \<longleftrightarrow> map_find m k = Some v"
  by (induction m k rule: map_find.induct) (force simp: map_ok_def)+

lemma map_find_put: "map_find (map_put k v m) k' = (if k' = k then Some v else map_find m k')"
  by (induction k v m rule: map_put.induct) auto

lemma map_keys_put: "fst ` set (map_put k v m) = insert k (fst ` set m)"
  by (induction k v m rule: map_put.induct) auto

lemma map_ok_Nil [simp]: "map_ok []"
  by (simp add: map_ok_def)

lemma map_ok_Cons: "map_ok ((k, v) # m) \<longleftrightarrow> (\<forall>k' \<in> fst ` set m. k < k') \<and> map_ok m"
  by (auto simp: map_ok_def)

lemma map_ok_put: "map_ok m \<Longrightarrow> map_ok (map_put k v m)"
  by (induction k v m rule: map_put.induct) (auto simp: map_ok_Cons map_keys_put)

lemma map_ok_insert: "map_ok m \<Longrightarrow> map_ok (map_insert k v m)"
  by (simp add: map_insert_def map_ok_put split: option.split)

lemma map_find_insert:
  "map_find (map_insert k v m) k' =
     (if k' = k \<and> map_find m k = None then Some v else map_find m k')"
  by (simp add: map_insert_def map_find_put split: option.split)

interpretation smap: std_map "[]" map_find map_put map_insert "\<lambda>m. m" map_ok
proof unfold_locales
  show "map_ok m \<Longrightarrow> sorted_wrt (<) (map fst m)" for m :: "('k::linorder, 'v) std_map"
    by (simp add: map_ok_def)
qed (auto simp: map_find_put map_find_insert map_ok_put map_ok_insert map_find_sorted)

text \<open>
  Values of the map may be replaced under their keys, as the iteration does when it calls a
  method of \<^verbatim>\<open>it->second\<close>.
\<close>

lemma map_ok_keys: "map fst m = map fst m' \<Longrightarrow> map_ok m \<longleftrightarrow> map_ok m'"
  by (simp add: map_ok_def)

lemma map_find_None: "map_find m k = None \<longleftrightarrow> k \<notin> fst ` set m"
  by (induction m k rule: map_find.induct) auto

lemma map_put_keys: "map_ok m \<Longrightarrow> k \<in> fst ` set m \<Longrightarrow> map fst (map_put k v m) = map fst m"
  by (induction k v m rule: map_put.induct) (auto simp: map_ok_Cons)

lemma map_put_twice [simp]: "map_put k v (map_put k w m) = map_put k v m"
  by (induction k v m rule: map_put.induct) auto

end
