(* ===== verification/Platform.thy ===== *)
theory Platform
  imports StdMap "HOL-Library.Sublist"
begin

text \<open>
  What the program asks of the platform below it: the C library's calls on a connected stream
  socket, the memory it allocates, and \<^verbatim>\<open>struct stat\<close>.

  A socket is seen from the process that holds it. \<open>rx\<close> is what the network will do to its
  reads: \<open>Seg bs\<close>, bytes that have arrived together (a boundary between two segments is a
  moment at which the second one had not arrived), and \<open>RxErr e\<close>, a read that fails with
  errno \<open>e\<close>, as \<^verbatim>\<open>EAGAIN\<close> after the \<^verbatim>\<open>SO_RCVTIMEO\<close> that both sides set. After the
  last event the peer has closed its end and reads return 0. \<open>wx\<close> is what happens to writes
  that do not go through whole: \<open>Accept n\<close> takes at most \<open>n\<close> bytes, \<open>WxErr e\<close> fails;
  with no event left writes go through. \<open>tx\<close> is every byte written so far. A theorem for all
  \<open>rx\<close> and \<open>wx\<close> is a theorem for every behaviour of the network.
\<close>

section \<open>errno\<close>

text \<open>The values of \<^verbatim>\<open><errno.h>\<close> on Linux that the program names or relies on.\<close>

definition EPERM :: int where "EPERM = 1"
definition ENOENT :: int where "ENOENT = 2"
definition EBADF :: int where "EBADF = 9"
definition EAGAIN :: int where "EAGAIN = 11"
definition EEXIST :: int where "EEXIST = 17"
definition ENOTDIR :: int where "ENOTDIR = 20"

lemmas errno_defs = EPERM_def ENOENT_def EBADF_def EAGAIN_def EEXIST_def ENOTDIR_def

section \<open>The host\<close>

text \<open>
  \<open>host_endian\<close> is the byte order of the machine, \<open>alloc_ok n\<close> says whether a request for
  \<open>n\<close> bytes of heap succeeds, and \<open>junk i\<close> is the byte found at offset \<open>i\<close> of memory that
  nothing has initialised.
\<close>

record plat =
  host_endian :: endian
  alloc_ok :: "nat \<Rightarrow> bool"
  junk :: "nat \<Rightarrow> byte"

text \<open>An integer local that is declared without an initialiser.\<close>

definition uninit :: "plat \<Rightarrow> 'a::len word" where
  "uninit p = mem_load (host_endian p) (map (junk p) [0..<LENGTH('a) div 8])"

section \<open>Sockets\<close>

datatype rx_event = Seg "byte list" | RxErr int

datatype wx_event = Accept nat | WxErr int

record sock =
  rx :: "rx_event list"
  wx :: "wx_event list"
  tx :: "byte list"
  sock_open :: bool
  errno :: int

text \<open>Linux transfers at most this many bytes in one \<^verbatim>\<open>read\<close> or \<^verbatim>\<open>write\<close>.\<close>

definition MAX_RW :: nat where
  "MAX_RW = 0x7ffff000"

definition live :: "int \<Rightarrow> 'a sock_scheme \<Rightarrow> bool" where
  "live fd s = (0 \<le> fd \<and> sock_open s)"

fun rx_take :: "nat \<Rightarrow> rx_event list \<Rightarrow> (int + byte list) \<times> rx_event list" where
  "rx_take n [] = (Inr [], [])"
| "rx_take n (RxErr e # evs) = (Inl e, evs)"
| "rx_take n (Seg bs # evs) =
     (if bs = [] then rx_take n evs
      else (Inr (take n bs), if length bs \<le> n then evs else Seg (drop n bs) # evs))"

text \<open>\<^verbatim>\<open>read(fd, buf, n)\<close>: the returned value and the bytes that were put in the buffer.\<close>

definition sys_read :: "int \<Rightarrow> nat \<Rightarrow> 'a sock_scheme \<Rightarrow> (int \<times> byte list) \<times> 'a sock_scheme" where
  "sys_read fd n s =
     (if \<not> live fd s then ((-1, []), s\<lparr>errno := EBADF\<rparr>)
      else if n = 0 then ((0, []), s)
      else (case rx_take (min n MAX_RW) (rx s) of
              (Inl e, evs) \<Rightarrow> ((-1, []), s\<lparr>rx := evs, errno := e\<rparr>)
            | (Inr bs, evs) \<Rightarrow> ((int (length bs), bs), s\<lparr>rx := evs\<rparr>)))"

text \<open>\<^verbatim>\<open>write(fd, buf, length bs)\<close>\<close>

definition sys_write :: "int \<Rightarrow> byte list \<Rightarrow> 'a sock_scheme \<Rightarrow> int \<times> 'a sock_scheme" where
  "sys_write fd bs s =
     (if \<not> live fd s then (-1, s\<lparr>errno := EBADF\<rparr>)
      else (case wx s of
              WxErr e # evs \<Rightarrow> (-1, s\<lparr>wx := evs, errno := e\<rparr>)
            | Accept k # evs \<Rightarrow>
                (let n = min k (min (length bs) MAX_RW)
                 in (int n, s\<lparr>wx := evs, tx := tx s @ take n bs\<rparr>))
            | [] \<Rightarrow>
                (let n = min (length bs) MAX_RW
                 in (int n, s\<lparr>tx := tx s @ take n bs\<rparr>))))"

definition sys_close :: "int \<Rightarrow> 'a sock_scheme \<Rightarrow> int \<times> 'a sock_scheme" where
  "sys_close fd s =
     (if \<not> live fd s then (-1, s\<lparr>errno := EBADF\<rparr>)
      else (0, s\<lparr>sock_open := False\<rparr>))"

text \<open>Bytes that are there to read before the later events.\<close>

definition rx_push :: "byte list \<Rightarrow> rx_event list \<Rightarrow> rx_event list" where
  "rx_push bs evs = (if bs = [] then evs else Seg bs # evs)"

text \<open>How much is left to happen on the receiving side.\<close>

fun rx_size :: "rx_event list \<Rightarrow> nat" where
  "rx_size [] = 0"
| "rx_size (Seg bs # evs) = Suc (length bs + rx_size evs)"
| "rx_size (RxErr e # evs) = Suc (rx_size evs)"

lemma rx_push_Nil [simp]: "rx_push [] evs = evs"
  by (simp add: rx_push_def)

lemma rx_take_push:
  "bs \<noteq> [] \<Longrightarrow> length bs = n \<Longrightarrow> rx_take n (rx_push (bs @ rest) evs) = (Inr bs, rx_push rest evs)"
  by (auto simp: rx_push_def)

lemma sys_read_push [io_simps]:
  assumes "live fd s" and "rx s = rx_push (bs @ rest) evs" and "length bs = n" and "n \<le> MAX_RW"
  shows "sys_read fd n s = ((int n, bs), s\<lparr>rx := rx_push rest evs\<rparr>)"
proof (cases "n = 0")
  case True
  with assms show ?thesis by (simp add: sys_read_def)
next
  case False
  with assms have "rx_take n (rx s) = (Inr bs, rx_push rest evs)"
    by (auto simp: rx_take_push)
  with assms False show ?thesis
    by (simp add: sys_read_def min_absorb1)
qed

lemma sys_write_all [io_simps]:
  "live fd s \<Longrightarrow> wx s = [] \<Longrightarrow> length bs \<le> MAX_RW \<Longrightarrow>
     sys_write fd bs s = (int (length bs), s\<lparr>tx := tx s @ bs\<rparr>)"
  by (simp add: sys_write_def Let_def min_absorb1)

lemma sys_read_dead [io_simps]:
  "\<not> live fd s \<Longrightarrow> sys_read fd n s = ((-1, []), s\<lparr>errno := EBADF\<rparr>)"
  by (simp add: sys_read_def)

lemma sys_write_dead [io_simps]:
  "\<not> live fd s \<Longrightarrow> sys_write fd bs s = (-1, s\<lparr>errno := EBADF\<rparr>)"
  by (simp add: sys_write_def)

lemma sys_read_timeout [io_simps]:
  "live fd s \<Longrightarrow> 0 < n \<Longrightarrow> rx s = RxErr e # evs \<Longrightarrow>
     sys_read fd n s = ((-1, []), s\<lparr>rx := evs, errno := e\<rparr>)"
  by (simp add: sys_read_def)

lemma sys_read_eof [io_simps]:
  "live fd s \<Longrightarrow> rx s = [] \<Longrightarrow> sys_read fd n s = ((0, []), s\<lparr>rx := []\<rparr>)"
  by (simp add: sys_read_def)

section \<open>What every call keeps\<close>

lemma live_upd [simp]:
  "live fd (s\<lparr>rx := a\<rparr>) = live fd s"
  "live fd (s\<lparr>wx := b\<rparr>) = live fd s"
  "live fd (s\<lparr>tx := c\<rparr>) = live fd s"
  "live fd (s\<lparr>errno := d\<rparr>) = live fd s"
  by (simp_all add: live_def)

lemma upd_same [simp]: "s\<lparr>tx := tx s\<rparr> = s" "s\<lparr>rx := rx s\<rparr> = s"
  by (cases s; simp)+

lemma rx_take_size: "rx_take n evs = (r, evs') \<Longrightarrow> rx_size evs' \<le> rx_size evs"
  by (induction n evs rule: rx_take.induct) (auto split: if_splits)

lemma rx_take_less:
  "rx_take n evs = (Inr bs, evs') \<Longrightarrow> bs \<noteq> [] \<Longrightarrow> rx_size evs' < rx_size evs"
  by (induction n evs rule: rx_take.induct) (auto split: if_splits)

lemma rx_take_length: "rx_take n evs = (Inr bs, evs') \<Longrightarrow> length bs \<le> n"
  by (induction n evs rule: rx_take.induct) (auto split: if_splits)

lemma sys_read_cases:
  obtains (fail) e evs where "sys_read fd n s = ((-1, []), s\<lparr>rx := evs, errno := e\<rparr>)"
      "rx_size evs \<le> rx_size (rx s)"
  | (got) bs evs where "sys_read fd n s = ((int (length bs), bs), s\<lparr>rx := evs\<rparr>)"
      "length bs \<le> n" "rx_size evs \<le> rx_size (rx s)" "bs \<noteq> [] \<longrightarrow> rx_size evs < rx_size (rx s)"
proof (cases "live fd s")
  case False
  then have "sys_read fd n s = ((-1, []), s\<lparr>rx := rx s, errno := EBADF\<rparr>)"
    by (simp add: sys_read_def)
  then show thesis by (rule fail) simp
next
  case True
  show thesis
  proof (cases "n = 0")
    case True
    then have "sys_read fd n s = ((int (length []), []), s\<lparr>rx := rx s\<rparr>)"
      using \<open>live fd s\<close> by (simp add: sys_read_def)
    then show thesis by (rule got) simp_all
  next
    case False
    obtain r evs where t: "rx_take (min n MAX_RW) (rx s) = (r, evs)" by fastforce
    note size = rx_take_size [OF t]
    show thesis
    proof (cases r)
      case (Inl e)
      then have "sys_read fd n s = ((-1, []), s\<lparr>rx := evs, errno := e\<rparr>)"
        using t \<open>live fd s\<close> False by (simp add: sys_read_def)
      then show thesis using size by (rule fail)
    next
      case (Inr bs)
      have "sys_read fd n s = ((int (length bs), bs), s\<lparr>rx := evs\<rparr>)"
        using Inr t \<open>live fd s\<close> False by (simp add: sys_read_def)
      moreover have "length bs \<le> n"
        using rx_take_length [of _ _ bs] t Inr by fastforce
      moreover have "bs \<noteq> [] \<longrightarrow> rx_size evs < rx_size (rx s)"
        using rx_take_less t Inr by blast
      ultimately show thesis using size got by blast
    qed
  qed
qed

lemma sys_write_bounds: "fst (sys_write fd bs s) \<le> int (length bs)" "- 1 \<le> fst (sys_write fd bs s)"
  by (auto simp: sys_write_def Let_def split: list.split wx_event.split)

lemma sys_read_bounds: "fst (fst (sys_read fd n s)) \<le> int n" "- 1 \<le> fst (fst (sys_read fd n s))"
  by (rule sys_read_cases [of fd n s]; simp)+

text \<open>
  \<open>io_frame s s'\<close>: what holds between the states before and after any sequence of reads and
  writes on the socket. The fields that extend the socket are untouched, it is not closed,
  nothing that was written is taken back and nothing that was read comes back.
\<close>

definition io_frame :: "'a sock_scheme \<Rightarrow> 'a sock_scheme \<Rightarrow> bool" where
  "io_frame s s' \<longleftrightarrow> sock.more s' = sock.more s \<and> sock_open s' = sock_open s \<and>
     rx_size (rx s') \<le> rx_size (rx s) \<and> prefix (tx s) (tx s')"

lemma io_frame_refl [simp, frame]: "io_frame s s"
  by (simp add: io_frame_def)

lemma io_frame_trans [trans]: "io_frame s t \<Longrightarrow> io_frame t u \<Longrightarrow> io_frame s u"
  by (auto simp: io_frame_def)

lemma io_frame_read [frame]: "io_frame s (snd (sys_read fd n s))"
  by (rule sys_read_cases [of fd n s]) (simp_all add: io_frame_def)

lemma io_frame_write [frame]: "io_frame s (snd (sys_write fd bs s))"
  by (auto simp: io_frame_def sys_write_def Let_def split: list.split wx_event.split)

lemma io_frame_live: "io_frame s s' \<Longrightarrow> live fd s' = live fd s"
  by (simp add: io_frame_def live_def)

section \<open>File metadata\<close>

text \<open>\<^verbatim>\<open>struct stat\<close> of \<^verbatim>\<open><sys/stat.h>\<close> (Linux, 64 bit).\<close>

record stat =
  st_dev :: "64 word"
  st_ino :: "64 word"
  st_nlink :: "64 word"
  st_mode :: "32 word"
  st_uid :: "32 word"
  st_gid :: "32 word"
  st_rdev :: "64 word"
  st_size :: "64 word"
  st_blksize :: "64 word"
  st_blocks :: "64 word"
  st_atime :: "64 word"
  st_atime_nsec :: "64 word"
  st_mtime :: "64 word"
  st_mtime_nsec :: "64 word"
  st_ctime :: "64 word"
  st_ctime_nsec :: "64 word"

text \<open>\<^verbatim>\<open>memset(&buf, 0, sizeof(struct stat))\<close>\<close>

definition zero_stat :: stat where
  "zero_stat = \<lparr>st_dev = 0, st_ino = 0, st_nlink = 0, st_mode = 0, st_uid = 0, st_gid = 0,
     st_rdev = 0, st_size = 0, st_blksize = 0, st_blocks = 0, st_atime = 0, st_atime_nsec = 0,
     st_mtime = 0, st_mtime_nsec = 0, st_ctime = 0, st_ctime_nsec = 0\<rparr>"

lemma zero_stat_fields [simp]:
  "st_mode zero_stat = 0" "st_size zero_stat = 0" "st_dev zero_stat = 0" "st_atime zero_stat = 0"
  "st_mtime zero_stat = 0" "st_ctime zero_stat = 0"
  by (simp_all add: zero_stat_def)

lemma zero_stat_upd [simp]:
  "zero_stat\<lparr>st_mode := 0\<rparr> = zero_stat" "zero_stat\<lparr>st_dev := 0\<rparr> = zero_stat"
  "zero_stat\<lparr>st_size := s, st_mode := 0, st_dev := 0, st_atime := 0, st_mtime := 0, st_ctime := 0\<rparr> =
     zero_stat\<lparr>st_size := s\<rparr>"
  by (simp_all add: zero_stat_def)

text \<open>\<^verbatim>\<open>S_ISDIR(mode)\<close>\<close>

definition S_ISDIR :: "agmode_t \<Rightarrow> bool" where
  "S_ISDIR mode = (mode AND 0xF000 = 0x4000)"

section \<open>Data that arrives in pieces\<close>

lemma sys_read_segs:
  assumes "live fd s" and "rx s = map Seg segs @ evs" and "[] \<notin> set segs" and "segs \<noteq> []"
    and "0 < n"
  obtains bs segs' where "sys_read fd n s = ((int (length bs), bs), s\<lparr>rx := map Seg segs' @ evs\<rparr>)"
    and "bs \<noteq> []" and "length bs \<le> n" and "concat segs = bs @ concat segs'" and "[] \<notin> set segs'"
proof -
  obtain d ds where segs: "segs = d # ds" using assms(4) by (cases segs) auto
  define m where "m = min n MAX_RW"
  have m: "0 < m" "m \<le> n" using assms(5) by (simp_all add: m_def MAX_RW_def)
  define segs' where "segs' = (if length d \<le> m then ds else drop m d # ds)"
  have d: "d \<noteq> []" using assms(3) segs by auto
  have "rx_take m (rx s) = (Inr (take m d), map Seg segs' @ evs)"
    using d by (simp add: assms(2) segs segs'_def)
  then have "sys_read fd n s = ((int (length (take m d)), take m d), s\<lparr>rx := map Seg segs' @ evs\<rparr>)"
    using assms(1,5) by (simp add: sys_read_def m_def)
  moreover have "take m d \<noteq> []" "length (take m d) \<le> n"
    using d m by auto
  moreover have "concat segs = take m d @ concat segs'" and "[] \<notin> set segs'"
    using assms(3) by (auto simp: segs segs'_def)
  ultimately show thesis by (rule that)
qed

section \<open>Example hosts\<close>

text \<open>Two hosts of opposite byte order, and a socket that is open and idle.\<close>

definition x86 :: plat where
  "x86 = \<lparr>host_endian = LittleEndian, alloc_ok = (\<lambda>n. True), junk = (\<lambda>i. 0xAA)\<rparr>"

definition ppc :: plat where
  "ppc = \<lparr>host_endian = BigEndian, alloc_ok = (\<lambda>n. True), junk = (\<lambda>i. 0x55)\<rparr>"

definition idle :: sock where
  "idle = \<lparr>rx = [], wx = [], tx = [], sock_open = True, errno = 0\<rparr>"

lemma example_simps [simp]:
  "host_endian x86 = LittleEndian" "host_endian ppc = BigEndian" "alloc_ok x86 n" "alloc_ok ppc n"
  "rx idle = []" "wx idle = []" "tx idle = []" "live 3 idle"
  by (simp_all add: x86_def ppc_def idle_def live_def)

end
