(* ===== verification/Constants.thy ===== *)
theory Constants
  imports Platform
begin

text \<open>
  \<^verbatim>\<open>constants.hpp\<close>: the numbers of the commands, the length of a key and the paths of the
  server's key store. The integer types of that file are in \<open>Prelude\<close>.
\<close>

definition KEY_LEN :: nat where
  "KEY_LEN = 256"

definition ASCII_KEY_LEN :: nat where
  "ASCII_KEY_LEN = 512"

definition KEY_LIST_PATH :: string where
  "KEY_LIST_PATH = ''/var/lib/agfs/authkeys''"

definition KEY_NAME_PATH :: string where
  "KEY_NAME_PATH = ''/var/lib/agfs/''"

definition KEY_EXTENSION :: string where
  "KEY_EXTENSION = ''.agkey''"

definition cmd_STOP :: cmd_t where "cmd_STOP = 0"
definition cmd_HEARTBEAT :: cmd_t where "cmd_HEARTBEAT = 1"
definition cmd_GETATTR :: cmd_t where "cmd_GETATTR = 2"
definition cmd_ACCEPT :: cmd_t where "cmd_ACCEPT = 3"
definition cmd_INVALID_KEY :: cmd_t where "cmd_INVALID_KEY = 4"
definition cmd_MOUNT_NOT_FOUND :: cmd_t where "cmd_MOUNT_NOT_FOUND = 5"
definition cmd_USER_NOT_FOUND :: cmd_t where "cmd_USER_NOT_FOUND = 6"
definition cmd_ACCESS :: cmd_t where "cmd_ACCESS = 7"
definition cmd_READDIR :: cmd_t where "cmd_READDIR = 8"
definition cmd_READ :: cmd_t where "cmd_READ = 9"
definition cmd_WRITE :: cmd_t where "cmd_WRITE = 10"
definition cmd_NONE :: cmd_t where "cmd_NONE = 11"
definition cmd_OPEN :: cmd_t where "cmd_OPEN = 12"

lemmas cmd_defs = cmd_STOP_def cmd_HEARTBEAT_def cmd_GETATTR_def cmd_ACCEPT_def
  cmd_INVALID_KEY_def cmd_MOUNT_NOT_FOUND_def cmd_USER_NOT_FOUND_def cmd_ACCESS_def
  cmd_READDIR_def cmd_READ_def cmd_WRITE_def cmd_NONE_def cmd_OPEN_def

end
