(* ===== verification/AgfsIO.thy ===== *)
theory AgfsIO
  imports Platform
begin

text \<open>
  \<^verbatim>\<open>agfsio.cpp\<close>: every value that crosses the network. Each function takes the platform
  it runs on (whose byte order decides what \<^verbatim>\<open>htobe\<close> does), the descriptor, and the
  state of the socket, which it returns updated. The readers take the value that the reference
  parameter holds before the call: a read that brings fewer bytes than the object has leaves
  the others as they were, and the byte swap is done in every case.

  The locale \<open>wire_item\<close> is the contract of a writer and its reader; it is interpreted for
  every pair of the file, and its lemmas are the transfer of one value between two hosts and
  of a sequence of values.
\<close>

section \<open>Integers\<close>

text \<open>\<^verbatim>\<open>write(fd, &x, sizeof(x))\<close> and \<^verbatim>\<open>read(fd, &x, sizeof(x))\<close> for an integer object.\<close>

definition write_obj :: "plat \<Rightarrow> int \<Rightarrow> 'w::len word \<Rightarrow> 'a sock_scheme \<Rightarrow> int \<times> 'a sock_scheme" where
  "write_obj p fd x s = sys_write fd (mem_store (host_endian p) x) s"

definition read_obj ::
  "plat \<Rightarrow> int \<Rightarrow> 'w::len word \<Rightarrow> 'a sock_scheme \<Rightarrow> (int \<times> 'w word) \<times> 'a sock_scheme" where
  "read_obj p fd x s =
     (let ((r, bs), s) = sys_read fd (LENGTH('w) div 8) s
      in ((r, mem_load (host_endian p) (overlay bs (mem_store (host_endian p) x))), s))"

definition agfs_write_cmd :: "plat \<Rightarrow> int \<Rightarrow> cmd_t \<Rightarrow> 'a sock_scheme \<Rightarrow> int \<times> 'a sock_scheme" where
  "agfs_write_cmd p fd cmd s =
     (let cmd = htobe (host_endian p) cmd in write_obj p fd cmd s)"

definition agfs_read_cmd ::
  "plat \<Rightarrow> int \<Rightarrow> cmd_t \<Rightarrow> 'a sock_scheme \<Rightarrow> (int \<times> cmd_t) \<times> 'a sock_scheme" where
  "agfs_read_cmd p fd cmd s =
     (let ((err, cmd), s) = read_obj p fd cmd s;
          cmd = betoh (host_endian p) cmd
      in ((err, cmd), s))"

definition agfs_write_mask :: "plat \<Rightarrow> int \<Rightarrow> agmask_t \<Rightarrow> 'a sock_scheme \<Rightarrow> int \<times> 'a sock_scheme" where
  "agfs_write_mask p fd msk s =
     (let msk = htobe (host_endian p) msk in write_obj p fd msk s)"

definition agfs_read_mask ::
  "plat \<Rightarrow> int \<Rightarrow> agmask_t \<Rightarrow> 'a sock_scheme \<Rightarrow> (int \<times> agmask_t) \<times> 'a sock_scheme" where
  "agfs_read_mask p fd msk s =
     (let ((err, msk), s) = read_obj p fd msk s;
          msk = betoh (host_endian p) msk
      in ((err, msk), s))"

definition agfs_write_size :: "plat \<Rightarrow> int \<Rightarrow> agsize_t \<Rightarrow> 'a sock_scheme \<Rightarrow> int \<times> 'a sock_scheme" where
  "agfs_write_size p fd sz s =
     (let sz = htobe (host_endian p) sz in write_obj p fd sz s)"

definition agfs_read_size ::
  "plat \<Rightarrow> int \<Rightarrow> agsize_t \<Rightarrow> 'a sock_scheme \<Rightarrow> (int \<times> agsize_t) \<times> 'a sock_scheme" where
  "agfs_read_size p fd sz s =
     (let ((error, sz), s) = read_obj p fd sz s;
          sz = betoh (host_endian p) sz
      in ((error, sz), s))"

definition agfs_write_error :: "plat \<Rightarrow> int \<Rightarrow> agerr_t \<Rightarrow> 'a sock_scheme \<Rightarrow> int \<times> 'a sock_scheme" where
  "agfs_write_error p fd err s =
     (let err = htobe (host_endian p) err in write_obj p fd err s)"

definition agfs_read_error ::
  "plat \<Rightarrow> int \<Rightarrow> agerr_t \<Rightarrow> 'a sock_scheme \<Rightarrow> (int \<times> agerr_t) \<times> 'a sock_scheme" where
  "agfs_read_error p fd err s =
     (let ((error, err), s) = read_obj p fd err s;
          err = betoh (host_endian p) err
      in ((error, err), s))"

section \<open>Strings\<close>

definition agfs_write_string :: "plat \<Rightarrow> int \<Rightarrow> string \<Rightarrow> 'a sock_scheme \<Rightarrow> int \<times> 'a sock_scheme" where
  "agfs_write_string p fd str s =
     (let (err, s) = agfs_write_size p fd (word_of_nat (length str)) s
      in if err < 0 then (err, s)
         else (let total_written = err;
                   (err, s) = sys_write fd (str_bytes str) s
               in if err < 0 then (err, s) else (total_written + err, s)))"

text \<open>
  The reader allocates \<open>pathLen + 1\<close> bytes, whose first bytes it fills with one
  \<^verbatim>\<open>read\<close>, and assigns the C string found there. \<open>None\<close> is the end of the process: the
  allocation failed and its null pointer is written to, or \<open>pathLen + 1\<close> wrapped around to
  0 and the write is out of bounds.
\<close>

definition agfs_read_string ::
  "plat \<Rightarrow> int \<Rightarrow> string \<Rightarrow> 'a sock_scheme \<Rightarrow> ((int \<times> string) \<times> 'a sock_scheme) option" where
  "agfs_read_string p fd str s =
     (let ((err, pathLen), s) = agfs_read_size p fd 0 s
      in if err < 0 then Some ((err, str), s)
         else if pathLen + 1 = 0 \<or> \<not> alloc_ok p (unat (pathLen + 1)) then None
         else (let total_read = err;
                   ((err, bs), s) = sys_read fd (unat pathLen) s;
                   buf = overlay bs (map (junk p) [0..<unat pathLen]);
                   str = takeWhile (\<lambda>c. c \<noteq> NUL) (bytes_str buf)
               in if err < 0 then Some ((err, str), s)
                  else Some ((total_read + err, str), s)))"

section \<open>Metadata\<close>

definition agfs_write_stat :: "plat \<Rightarrow> int \<Rightarrow> stat \<Rightarrow> 'a sock_scheme \<Rightarrow> int \<times> 'a sock_scheme" where
  "agfs_write_stat p fd buf s =
     (let dev = htobe (host_endian p) (st_dev buf);
          (temp, s) = write_obj p fd dev s
      in if temp < 0 then (temp, s) else
      let total_written = temp;
          mode = htobe (host_endian p) (st_mode buf);
          (temp, s) = write_obj p fd mode s
      in if temp < 0 then (temp, s) else
      let total_written = total_written + temp;
          (temp, s) = agfs_write_size p fd (st_size buf) s
      in if temp < 0 then (temp, s) else
      let total_written = total_written + temp;
          atime = htobe (host_endian p) (st_atime buf);
          (temp, s) = write_obj p fd atime s
      in if temp < 0 then (temp, s) else
      let total_written = total_written + temp;
          mtime = htobe (host_endian p) (st_mtime buf);
          (temp, s) = write_obj p fd mtime s
      in if temp < 0 then (temp, s) else
      let total_written = total_written + temp;
          ctimestamp = htobe (host_endian p) (st_ctime buf);
          (temp, s) = write_obj p fd ctimestamp s
      in if temp < 0 then (temp, s) else
      (total_written + temp, s))"

definition agfs_read_stat ::
  "plat \<Rightarrow> int \<Rightarrow> 'a sock_scheme \<Rightarrow> (int \<times> stat) \<times> 'a sock_scheme" where
  "agfs_read_stat p fd s =
     (let buf = zero_stat;
          ((temp, dev), s) = read_obj p fd (uninit p :: agdev_t) s
      in if temp < 0 then ((temp, buf), s) else
      let dev = betoh (host_endian p) dev;
          total_read = temp;
          ((temp, mode), s) = read_obj p fd (uninit p :: agmode_t) s
      in if temp < 0 then ((temp, buf), s) else
      let mode = betoh (host_endian p) mode;
          total_read = total_read + temp;
          ((temp, sz), s) = agfs_read_size p fd 0 s
      in if temp < 0 then ((temp, buf), s) else
      let total_read = total_read + temp;
          ((temp, atime), s) = read_obj p fd (0 :: agtime_t) s
      in if temp < 0 then ((temp, buf), s) else
      let atime = betoh (host_endian p) atime;
          total_read = total_read + temp;
          ((temp, mtime), s) = read_obj p fd (0 :: agtime_t) s
      in if temp < 0 then ((temp, buf), s) else
      let mtime = betoh (host_endian p) mtime;
          total_read = total_read + temp;
          ((temp, ctimestamp), s) = read_obj p fd (0 :: agtime_t) s
      in if temp < 0 then ((temp, buf), s) else
      let ctimestamp = betoh (host_endian p) ctimestamp;
          total_read = total_read + temp
      in ((total_read, buf\<lparr>st_size := sz, st_mode := mode, st_dev := dev, st_atime := atime,
            st_mtime := mtime, st_ctime := ctimestamp\<rparr>), s))"

section \<open>The encodings\<close>

definition string_enc :: "string \<Rightarrow> byte list" where
  "string_enc str = be_bytes (word_of_nat (length str) :: agsize_t) @ str_bytes str"

definition stat_enc :: "stat \<Rightarrow> byte list" where
  "stat_enc st = be_bytes (st_dev st) @ be_bytes (st_mode st) @ be_bytes (st_size st) @
     be_bytes (st_atime st) @ be_bytes (st_mtime st) @ be_bytes (st_ctime st)"

text \<open>What the other side sees of a \<^verbatim>\<open>struct stat\<close>: six fields, the others 0.\<close>

definition stat_view :: "stat \<Rightarrow> stat" where
  "stat_view st = zero_stat\<lparr>st_size := st_size st, st_mode := st_mode st, st_dev := st_dev st,
     st_atime := st_atime st, st_mtime := st_mtime st, st_ctime := st_ctime st\<rparr>"

text \<open>A string that one \<^verbatim>\<open>read\<close> can bring over and a C string can hold.\<close>

definition string_ok :: "plat \<Rightarrow> string \<Rightarrow> bool" where
  "string_ok p str \<longleftrightarrow> NUL \<notin> set str \<and> length str \<le> MAX_RW \<and> alloc_ok p (Suc (length str))"

lemma length_string_enc [simp, wire]: "length (string_enc str) = 8 + length str"
  by (simp add: string_enc_def)

lemma length_stat_enc [simp, wire]: "length (stat_enc st) = 44"
  by (simp add: stat_enc_def)

lemma stat_view_idem [simp]: "stat_view (stat_view st) = stat_view st"
  by (simp add: stat_view_def)

lemma stat_enc_view [simp]: "stat_enc (stat_view st) = stat_enc st"
  by (simp add: stat_enc_def stat_view_def)


section \<open>Frames\<close>

lemma io_frame_write_obj [frame]: "io_frame s (snd (write_obj p fd x s))"
  unfolding write_obj_def by (rule io_frame_write)

lemma io_frame_read_obj [frame]: "io_frame s (snd (read_obj p fd x s))"
  unfolding read_obj_def
  using io_frame_read [of s fd]
  by (simp add: Let_def split_beta)

lemma io_frame_write_int [frame]:
  "io_frame s (snd (agfs_write_cmd p fd c s))"
  "io_frame s (snd (agfs_write_mask p fd m s))"
  "io_frame s (snd (agfs_write_size p fd z s))"
  "io_frame s (snd (agfs_write_error p fd err s))"
  by (simp_all add: agfs_write_cmd_def agfs_write_mask_def agfs_write_size_def
        agfs_write_error_def Let_def io_frame_write_obj)

lemma io_frame_read_int [frame]:
  "io_frame s (snd (agfs_read_cmd p fd c s))"
  "io_frame s (snd (agfs_read_mask p fd m s))"
  "io_frame s (snd (agfs_read_size p fd z s))"
  "io_frame s (snd (agfs_read_error p fd err s))"
  by (simp_all add: agfs_read_cmd_def agfs_read_mask_def agfs_read_size_def
        agfs_read_error_def Let_def split_beta io_frame_read_obj)

text \<open>The same facts as rules that follow a chain of operations from its last one.\<close>

lemmas frame_chain =
  io_frame_trans [OF _ io_frame_read] io_frame_trans [OF _ io_frame_write]
  io_frame_trans [OF _ io_frame_write_obj] io_frame_trans [OF _ io_frame_read_obj]
  io_frame_trans [OF _ io_frame_write_int(1)] io_frame_trans [OF _ io_frame_write_int(2)]
  io_frame_trans [OF _ io_frame_write_int(3)] io_frame_trans [OF _ io_frame_write_int(4)]
  io_frame_trans [OF _ io_frame_read_int(1)] io_frame_trans [OF _ io_frame_read_int(2)]
  io_frame_trans [OF _ io_frame_read_int(3)] io_frame_trans [OF _ io_frame_read_int(4)]

lemma io_frame_write_string [frame]: "io_frame s (snd (agfs_write_string p fd str s))"
  by (auto simp: agfs_write_string_def Let_def split_beta intro!: frame_chain)

lemma io_frame_read_string [frame]:
  "agfs_read_string p fd str s = Some (r, s') \<Longrightarrow> io_frame s s'"
  by (auto simp: agfs_read_string_def Let_def split_beta split: if_splits intro!: frame_chain)

lemma io_frame_write_stat [frame]: "io_frame s (snd (agfs_write_stat p fd st s))"
  unfolding agfs_write_stat_def Let_def split_beta by (auto intro!: frame_chain)

lemma io_frame_read_stat [frame]: "io_frame s (snd (agfs_read_stat p fd s))"
  unfolding agfs_read_stat_def Let_def split_beta by (auto intro!: frame_chain)

lemmas frame_chain_items =
  io_frame_trans [OF _ io_frame_write_string] io_frame_trans [OF _ io_frame_write_stat]
  io_frame_trans [OF _ io_frame_read_stat]

text \<open>A write leaves what has arrived alone.\<close>

lemma sys_write_rx [simp]: "rx (snd (sys_write fd bs s)) = rx s"
  by (auto simp: sys_write_def Let_def split: list.split wx_event.split)

lemma write_int_rx [simp]:
  "rx (snd (agfs_write_cmd p fd c s)) = rx s" "rx (snd (agfs_write_size p fd z s)) = rx s"
  by (simp_all add: agfs_write_cmd_def agfs_write_size_def write_obj_def)

lemma write_string_rx [simp]: "rx (snd (agfs_write_string p fd str s)) = rx s"
  using write_int_rx(2) [of p fd "word_of_nat (length str)" s]
  by (auto simp: agfs_write_string_def Let_def split_beta)

section \<open>On a healthy socket\<close>

lemma write_obj_all [io_simps]:
  assumes "live fd s" and "wx s = []" and "LENGTH('w) div 8 \<le> MAX_RW"
  shows "write_obj p fd (htobe (host_endian p) (x :: 'w::len word)) s =
           (int (LENGTH('w) div 8), s\<lparr>tx := tx s @ be_bytes x\<rparr>)"
  using assms by (simp add: write_obj_def io_simps wire)

lemma read_obj_push [io_simps]:
  assumes "live fd s" and "rx s = rx_push (be_bytes (w :: 'w::len word) @ rest) evs"
    and "LENGTH('w) div 8 \<le> MAX_RW"
  shows "read_obj p fd (x :: 'w word) s =
           ((int (LENGTH('w) div 8), mem_load (host_endian p) (be_bytes w)),
            s\<lparr>rx := rx_push rest evs\<rparr>)"
  using assms by (simp add: read_obj_def io_simps)

lemma small_rw [simp]: "n \<le> 64 \<Longrightarrow> n \<le> MAX_RW"
  by (simp add: MAX_RW_def)

lemma write_int_all [io_simps]:
  assumes "live fd s" and "wx s = []"
  shows "agfs_write_cmd p fd c s = (2, s\<lparr>tx := tx s @ be_bytes c\<rparr>)"
    and "agfs_write_mask p fd m s = (4, s\<lparr>tx := tx s @ be_bytes m\<rparr>)"
    and "agfs_write_size p fd z s = (8, s\<lparr>tx := tx s @ be_bytes z\<rparr>)"
    and "agfs_write_error p fd err s = (8, s\<lparr>tx := tx s @ be_bytes err\<rparr>)"
  using assms
  by (simp_all add: agfs_write_cmd_def agfs_write_mask_def agfs_write_size_def
        agfs_write_error_def io_simps)

lemma read_cmd_push [io_simps]:
  "live fd s \<Longrightarrow> rx s = rx_push (be_bytes c @ rest) evs \<Longrightarrow>
     agfs_read_cmd p fd x s = ((2, c), s\<lparr>rx := rx_push rest evs\<rparr>)"
  by (simp add: agfs_read_cmd_def io_simps)

lemma read_mask_push [io_simps]:
  "live fd s \<Longrightarrow> rx s = rx_push (be_bytes m @ rest) evs \<Longrightarrow>
     agfs_read_mask p fd x s = ((4, m), s\<lparr>rx := rx_push rest evs\<rparr>)"
  by (simp add: agfs_read_mask_def io_simps)

lemma read_size_push [io_simps]:
  "live fd s \<Longrightarrow> rx s = rx_push (be_bytes z @ rest) evs \<Longrightarrow>
     agfs_read_size p fd x s = ((8, z), s\<lparr>rx := rx_push rest evs\<rparr>)"
  by (simp add: agfs_read_size_def io_simps)

lemma read_error_push [io_simps]:
  "live fd s \<Longrightarrow> rx s = rx_push (be_bytes err @ rest) evs \<Longrightarrow>
     agfs_read_error p fd x s = ((8, err), s\<lparr>rx := rx_push rest evs\<rparr>)"
  by (simp add: agfs_read_error_def io_simps)

lemma read_int_last [io_simps]:
  "live fd s \<Longrightarrow> rx s = rx_push (be_bytes c) evs \<Longrightarrow> agfs_read_cmd p fd x s = ((2, c), s\<lparr>rx := evs\<rparr>)"
  "live fd s \<Longrightarrow> rx s = rx_push (be_bytes m) evs \<Longrightarrow> agfs_read_mask p fd y s = ((4, m), s\<lparr>rx := evs\<rparr>)"
  "live fd s \<Longrightarrow> rx s = rx_push (be_bytes z) evs \<Longrightarrow> agfs_read_size p fd v s = ((8, z), s\<lparr>rx := evs\<rparr>)"
  "live fd s \<Longrightarrow> rx s = rx_push (be_bytes err) evs \<Longrightarrow> agfs_read_error p fd w s = ((8, err), s\<lparr>rx := evs\<rparr>)"
  using read_cmd_push [of fd s c "[]" evs] read_mask_push [of fd s m "[]" evs]
    read_size_push [of fd s z "[]" evs] read_error_push [of fd s err "[]" evs]
  by simp_all

lemma unat_length_u64:
  "length str \<le> MAX_RW \<Longrightarrow> unat (word_of_nat (length str) :: 64 word) = length str"
  by (simp add: unat_of_nat MAX_RW_def)

lemma sint_length_u64:
  assumes "n < 2 ^ 63"
  shows "sint (word_of_nat n :: 64 word) = int n"
proof -
  have "sint (word_of_nat n :: 64 word) = signed_take_bit 63 (int n)"
    using sint_sbintrunc' [where 'a = 64, of "int n"] by simp
  also have "\<dots> = int n"
    using assms by (intro signed_take_bit_int_eq_self) simp_all
  finally show ?thesis .
qed

text \<open>A negated error number is a negative error.\<close>

lemma sint_neg_errno:
  assumes "0 < e" and "e < 2 ^ 31"
  shows "sint (word_of_int (- e) :: 64 word) = - e"
proof -
  have "sint (word_of_int (- e) :: 64 word) = signed_take_bit 63 (- e)"
    using sint_sbintrunc' [where 'a = 64, of "- e"] by simp
  also have "\<dots> = - e"
    using assms by (intro signed_take_bit_int_eq_self) simp_all
  finally show ?thesis .
qed

lemma unat_length_u64_Suc:
  assumes "length str \<le> MAX_RW"
  shows "unat (word_of_nat (length str) + 1 :: 64 word) = Suc (length str)"
    and "word_of_nat (length str) + 1 \<noteq> (0 :: 64 word)"
proof -
  have "unat (word_of_nat (Suc (length str)) :: 64 word) = Suc (length str)"
    using assms by (simp only: unat_of_nat) (simp add: MAX_RW_def)
  then show "unat (word_of_nat (length str) + 1 :: 64 word) = Suc (length str)"
    by (simp add: add.commute)
  then show "word_of_nat (length str) + 1 \<noteq> (0 :: 64 word)"
    by (metis nat.simps(3) unat_0)
qed

lemma write_string_all [io_simps]:
  "live fd s \<Longrightarrow> wx s = [] \<Longrightarrow> length str \<le> MAX_RW \<Longrightarrow>
     agfs_write_string p fd str s =
       (8 + int (length str), s\<lparr>tx := tx s @ string_enc str\<rparr>)"
  by (simp add: agfs_write_string_def io_simps string_enc_def)

lemma read_string_push [io_simps]:
  assumes "live fd s" and "rx s = rx_push (string_enc str @ rest) evs" and "string_ok p str"
  shows "agfs_read_string p fd str0 s =
           Some ((8 + int (length str), str), s\<lparr>rx := rx_push rest evs\<rparr>)"
proof -
  note len = unat_length_u64 unat_length_u64_Suc
  have ok: "length str \<le> MAX_RW" "NUL \<notin> set str" "alloc_ok p (Suc (length str))"
    using assms(3) by (simp_all add: string_ok_def)
  have "agfs_read_size p fd 0 s =
          ((8, word_of_nat (length str)), s\<lparr>rx := rx_push (str_bytes str @ rest) evs\<rparr>)"
    using assms by (simp add: io_simps string_enc_def)
  moreover have "sys_read fd (length str) (s\<lparr>rx := rx_push (str_bytes str @ rest) evs\<rparr>) =
          ((int (length str), str_bytes str), s\<lparr>rx := rx_push rest evs\<rparr>)"
    using assms(1) ok by (simp add: io_simps)
  ultimately show ?thesis
    using ok by (simp add: agfs_read_string_def len)
qed

lemma write_stat_all [io_simps]:
  "live fd s \<Longrightarrow> wx s = [] \<Longrightarrow>
     agfs_write_stat p fd st s = (44, s\<lparr>tx := tx s @ stat_enc st\<rparr>)"
  by (simp add: agfs_write_stat_def Let_def io_simps stat_enc_def)

lemma read_stat_push [io_simps]:
  "live fd s \<Longrightarrow> rx s = rx_push (stat_enc st @ rest) evs \<Longrightarrow>
     agfs_read_stat p fd s = ((44, stat_view st), s\<lparr>rx := rx_push rest evs\<rparr>)"
  by (simp add: agfs_read_stat_def Let_def io_simps stat_enc_def stat_view_def)

section \<open>On a socket that brings nothing\<close>

text \<open>A read that fails or finds the end of the stream leaves the object as it was.\<close>

lemma read_obj_none:
  "8 dvd LENGTH('w) \<Longrightarrow> sys_read fd (LENGTH('w) div 8) s = ((r, []), s') \<Longrightarrow>
     read_obj p fd (x :: 'w::len word) s = ((r, x), s')"
  by (simp add: read_obj_def)

lemma read_int_none:
  "sys_read fd 2 s = ((r, []), s') \<Longrightarrow>
     agfs_read_cmd p fd c s = ((r, betoh (host_endian p) c), s')"
  "sys_read fd 4 s = ((r, []), s') \<Longrightarrow>
     agfs_read_mask p fd m s = ((r, betoh (host_endian p) m), s')"
  "sys_read fd 8 s = ((r, []), s') \<Longrightarrow>
     agfs_read_size p fd z s = ((r, betoh (host_endian p) z), s')"
  "sys_read fd 8 s = ((r, []), s') \<Longrightarrow>
     agfs_read_error p fd err s = ((r, betoh (host_endian p) err), s')"
  by (simp_all add: agfs_read_cmd_def agfs_read_mask_def agfs_read_size_def
        agfs_read_error_def read_obj_none)

section \<open>The contract of a writer and its reader\<close>

text \<open>
  \<open>wr\<close> puts the encoding of a value on a healthy socket; \<open>rd\<close> takes an encoding off the
  front of what has arrived and returns the \<open>view\<close> of the value, whatever platform either
  side runs on.
\<close>

locale wire_item =
  fixes enc :: "'v \<Rightarrow> byte list"
    and view :: "'v \<Rightarrow> 'v"
    and ok :: "plat \<Rightarrow> 'v \<Rightarrow> bool"
    and wr :: "plat \<Rightarrow> int \<Rightarrow> 'v \<Rightarrow> 's sock_scheme \<Rightarrow> int \<times> 's sock_scheme"
    and rd :: "plat \<Rightarrow> int \<Rightarrow> 't sock_scheme \<Rightarrow> ((int \<times> 'v) \<times> 't sock_scheme) option"
  assumes wr_enc: "live fd s \<Longrightarrow> wx s = [] \<Longrightarrow> ok q v \<Longrightarrow>
          wr p fd v s = (int (length (enc v)), s\<lparr>tx := tx s @ enc v\<rparr>)"
    and rd_enc: "live fd t \<Longrightarrow> rx t = rx_push (enc v @ rest) evs \<Longrightarrow> ok q v \<Longrightarrow>
          rd q fd t = Some ((int (length (enc v)), view v), t\<lparr>rx := rx_push rest evs\<rparr>)"
    and view_idem: "view (view v) = view v"
    and enc_view: "enc (view v) = enc v"

text \<open>The loop that reads a number of values, one after the other.\<close>

fun read_seq ::
  "('t sock_scheme \<Rightarrow> ((int \<times> 'v) \<times> 't sock_scheme) option) \<Rightarrow> nat \<Rightarrow> 't sock_scheme \<Rightarrow>
     ('v list \<times> 't sock_scheme) option" where
  "read_seq rd 0 t = Some ([], t)"
| "read_seq rd (Suc n) t = do {
     ((r, v), t) \<leftarrow> rd t;
     (vs, t) \<leftarrow> read_seq rd n t;
     Some (v # vs, t) }"

context wire_item
begin

text \<open>What one side writes, the other side reads, and the two counts agree.\<close>

lemma transfer:
  assumes "live fd s" and "wx s = []" and "ok q v"
    and "live fd' t" and "wr p fd v s = (n, s')" and "tx s' = tx s @ sent"
    and "rx t = rx_push (sent @ rest) evs"
  shows "rd q fd' t = Some ((n, view v), t\<lparr>rx := rx_push rest evs\<rparr>)"
proof -
  have "n = int (length (enc v))" and "sent = enc v"
    using wr_enc [OF assms(1,2,3), of p] assms(5,6) by auto
  with assms(3,4,7) show ?thesis
    by (simp add: rd_enc)
qed

lemma rd_seq:
  assumes "live fd t" and "\<forall>v \<in> set vs. ok q v"
    and "rx t = rx_push (concat (map enc vs) @ rest) evs"
  shows "read_seq (rd q fd) (length vs) t = Some (map view vs, t\<lparr>rx := rx_push rest evs\<rparr>)"
  using assms
proof (induction vs arbitrary: t)
  case Nil
  then show ?case by simp
next
  case (Cons v vs)
  let ?t = "t\<lparr>rx := rx_push (concat (map enc vs) @ rest) evs\<rparr>"
  have "rd q fd t = Some ((int (length (enc v)), view v), ?t)"
    using Cons.prems by (simp add: rd_enc)
  moreover have "read_seq (rd q fd) (length vs) ?t =
      Some (map view vs, t\<lparr>rx := rx_push rest evs\<rparr>)"
    using Cons.IH [of ?t] Cons.prems by simp
  ultimately show ?case by simp
qed

text \<open>Two values with the same encoding look the same to the reader.\<close>

lemma enc_determines_view:
  assumes "enc v = enc w" and "ok q v" and "ok q w" and "live fd (t :: 't sock_scheme)"
  shows "view v = view w"
proof -
  let ?t = "t\<lparr>rx := rx_push (enc v @ []) []\<rparr>"
  have "rd q fd ?t = Some ((int (length (enc v)), view v), ?t\<lparr>rx := rx_push [] []\<rparr>)"
    using assms by (intro rd_enc) simp_all
  moreover have "rd q fd ?t = Some ((int (length (enc w)), view w), ?t\<lparr>rx := rx_push [] []\<rparr>)"
    using assms by (intro rd_enc) simp_all
  ultimately show ?thesis by simp
qed

end

interpretation cmd_item: wire_item be_bytes "\<lambda>v. v" "\<lambda>q v. True" agfs_write_cmd
    "\<lambda>p fd s. Some (agfs_read_cmd p fd 0 s)"
  by unfold_locales (simp_all add: io_simps)

interpretation mask_item: wire_item be_bytes "\<lambda>v. v" "\<lambda>q v. True" agfs_write_mask
    "\<lambda>p fd s. Some (agfs_read_mask p fd 0 s)"
  by unfold_locales (simp_all add: io_simps)

interpretation size_item: wire_item be_bytes "\<lambda>v. v" "\<lambda>q v. True" agfs_write_size
    "\<lambda>p fd s. Some (agfs_read_size p fd 0 s)"
  by unfold_locales (simp_all add: io_simps)

interpretation error_item: wire_item be_bytes "\<lambda>v. v" "\<lambda>q v. True" agfs_write_error
    "\<lambda>p fd s. Some (agfs_read_error p fd 0 s)"
  by unfold_locales (simp_all add: io_simps)

interpretation string_item: wire_item string_enc "\<lambda>v. v" string_ok agfs_write_string
    "\<lambda>p fd s. agfs_read_string p fd [] s"
  by unfold_locales (simp_all add: io_simps string_ok_def)

interpretation stat_item: wire_item stat_enc stat_view "\<lambda>q v. True" agfs_write_stat
    "\<lambda>p fd s. Some (agfs_read_stat p fd s)"
  by unfold_locales (simp_all add: io_simps)

section \<open>Pairs of values\<close>

text \<open>Two items sent one after the other are an item again.\<close>

locale wire_pair =
  one: wire_item enc1 view1 ok1 wr1 rd1 + two: wire_item enc2 view2 ok2 wr2 rd2
  for enc1 :: "'v \<Rightarrow> byte list" and view1 and ok1
    and wr1 :: "plat \<Rightarrow> int \<Rightarrow> 'v \<Rightarrow> 's sock_scheme \<Rightarrow> int \<times> 's sock_scheme"
    and rd1 :: "plat \<Rightarrow> int \<Rightarrow> 't sock_scheme \<Rightarrow> ((int \<times> 'v) \<times> 't sock_scheme) option"
    and enc2 :: "'w \<Rightarrow> byte list" and view2 and ok2
    and wr2 :: "plat \<Rightarrow> int \<Rightarrow> 'w \<Rightarrow> 's sock_scheme \<Rightarrow> int \<times> 's sock_scheme"
    and rd2 :: "plat \<Rightarrow> int \<Rightarrow> 't sock_scheme \<Rightarrow> ((int \<times> 'w) \<times> 't sock_scheme) option"

sublocale wire_pair \<subseteq> both: wire_item
    "\<lambda>v. enc1 (fst v) @ enc2 (snd v)"
    "\<lambda>v. (view1 (fst v), view2 (snd v))"
    "\<lambda>q v. ok1 q (fst v) \<and> ok2 q (snd v)"
    "\<lambda>p fd v s. let (m, s) = wr1 p fd (fst v) s; (n, s) = wr2 p fd (snd v) s in (m + n, s)"
    "\<lambda>q fd t. do { ((m, v), t) \<leftarrow> rd1 q fd t; ((n, w), t) \<leftarrow> rd2 q fd t; Some ((m + n, (v, w)), t) }"
proof unfold_locales
  fix fd :: int and s :: "'s sock_scheme" and p q :: plat and v :: "'v \<times> 'w"
  assume s: "live fd s" "wx s = []" and ok: "ok1 q (fst v) \<and> ok2 q (snd v)"
  show "(let (m, s) = wr1 p fd (fst v) s; (n, s) = wr2 p fd (snd v) s in (m + n, s)) =
      (int (length (enc1 (fst v) @ enc2 (snd v))),
       s\<lparr>tx := tx s @ enc1 (fst v) @ enc2 (snd v)\<rparr>)"
    using s ok by (simp add: one.wr_enc [where q = q] two.wr_enc [where q = q])
next
  fix fd :: int and t :: "'t sock_scheme" and q :: plat and v :: "'v \<times> 'w" and rest evs
  assume t: "live fd t" "rx t = rx_push ((enc1 (fst v) @ enc2 (snd v)) @ rest) evs"
    and ok: "ok1 q (fst v) \<and> ok2 q (snd v)"
  show "(do { ((m, v), t) \<leftarrow> rd1 q fd t; ((n, w), t) \<leftarrow> rd2 q fd t; Some ((m + n, (v, w)), t) }) =
      Some ((int (length (enc1 (fst v) @ enc2 (snd v))), view1 (fst v), view2 (snd v)),
       t\<lparr>rx := rx_push rest evs\<rparr>)"
    using t ok by (simp add: one.rd_enc two.rd_enc)
qed (simp_all add: one.view_idem two.view_idem one.enc_view two.enc_view)

text \<open>A directory entry: its name and its metadata.\<close>

definition entry_enc :: "string \<times> stat \<Rightarrow> byte list" where
  "entry_enc v = string_enc (fst v) @ stat_enc (snd v)"

definition entry_view :: "string \<times> stat \<Rightarrow> string \<times> stat" where
  "entry_view v = (fst v, stat_view (snd v))"

interpretation entry_item: wire_pair string_enc "\<lambda>v. v" string_ok agfs_write_string
    "\<lambda>p fd s. agfs_read_string p fd [] s" stat_enc stat_view "\<lambda>q v. True" agfs_write_stat
    "\<lambda>p fd s. Some (agfs_read_stat p fd s)"
  by unfold_locales

lemma io_frame_read_seq:
  assumes "\<And>s r s'. rd s = Some (r, s') \<Longrightarrow> io_frame s s'" and "read_seq rd n s = Some (vs, s')"
  shows "io_frame s s'"
  using assms(2)
proof (induction n arbitrary: s vs)
  case (Suc n)
  then obtain r v s1 vs1 where "rd s = Some ((r, v), s1)" and "read_seq rd n s1 = Some (vs1, s')"
    by (auto simp: bind_eq_Some_conv)
  then show ?case
    using assms(1) Suc.IH by (blast intro: io_frame_trans)
qed simp

section \<open>Properties\<close>

text \<open>C20: A string that one host writes to a healthy socket is the string the other host reads,
  whatever the byte orders of the two, with nothing left over and the same count on both
  sides; a string is transferable if it has no zero byte, fits one transfer and can be
  allocated by the reader.\<close>

theorem string_roundtrip:
  assumes "live fd s" and "wx s = []" and "string_ok q str" and "live fd' t"
    and "agfs_write_string p fd str s = (n, s')"
    and "rx t = rx_push (drop (length (tx s)) (tx s') @ rest) evs"
  shows "agfs_read_string q fd' old t = Some ((n, str), t\<lparr>rx := rx_push rest evs\<rparr>)"
proof -
  have "n = 8 + int (length str)" and "tx s' = tx s @ string_enc str"
    using assms(1,2,3,5) by (auto simp: io_simps string_ok_def)
  with assms show ?thesis by (simp add: io_simps)
qed

theorem string_roundtrip_witness:
  "agfs_read_string ppc 3 [] (idle\<lparr>rx := rx_push (drop (length (tx idle))
       (tx (snd (agfs_write_string x86 3 ''/a'' idle))) @ [7]) []\<rparr>) =
     Some ((fst (agfs_write_string x86 3 ''/a'' idle), ''/a''),
       idle\<lparr>rx := rx_push (drop (length (tx idle))
       (tx (snd (agfs_write_string x86 3 ''/a'' idle))) @ [7]) [], rx := rx_push [7] []\<rparr>)"
  by (rule string_roundtrip [where s = idle and p = x86 and fd = 3])
     (simp_all add: string_ok_def NUL_def MAX_RW_def)

text \<open>C19: File metadata that one host writes arrives on the other host, whatever the byte orders
  of the two, as the six fields the protocol carries (device, mode, size and the three times);
  every other field of the structure is 0 there.\<close>

theorem stat_roundtrip:
  assumes "live fd s" and "wx s = []" and "live fd' t"
    and "agfs_write_stat p fd st s = (n, s')"
    and "rx t = rx_push (drop (length (tx s)) (tx s') @ rest) evs"
  shows "agfs_read_stat q fd' t = ((n, zero_stat\<lparr>st_size := st_size st, st_mode := st_mode st,
           st_dev := st_dev st, st_atime := st_atime st, st_mtime := st_mtime st,
           st_ctime := st_ctime st\<rparr>), t\<lparr>rx := rx_push rest evs\<rparr>)"
proof -
  have "n = 44" and "tx s' = tx s @ stat_enc st"
    using assms(1,2,4) by (auto simp: io_simps)
  with assms have "agfs_read_stat q fd' t = ((n, stat_view st), t\<lparr>rx := rx_push rest evs\<rparr>)"
    by (simp add: io_simps)
  then show ?thesis by (simp add: stat_view_def)
qed

theorem stat_roundtrip_witness:
  "snd (fst (agfs_read_stat ppc 3 (idle\<lparr>rx := rx_push (drop (length (tx idle))
       (tx (snd (agfs_write_stat x86 3 (zero_stat\<lparr>st_size := 5, st_uid := 7\<rparr>) idle))) @ []) []\<rparr>))) =
     zero_stat\<lparr>st_size := 5\<rparr>"
proof -
  let ?st = "zero_stat\<lparr>st_size := 5, st_uid := 7\<rparr>"
  let ?w = "agfs_write_stat x86 3 ?st idle"
  show ?thesis
    by (subst stat_roundtrip [where s = idle and p = x86 and fd = 3 and st = ?st and n = "fst ?w"
          and s' = "snd ?w" and rest = "[]" and evs = "[]"])
       (simp_all add: zero_stat_fields)
qed

text \<open>Every integer that one host writes (a command, a mask, a size, an error) is the integer
  the other host reads, whatever the byte orders of the two and whatever the variable held
  that it is read into.\<close>

theorem int_roundtrip:
  assumes "live fd s" and "wx s = []" and "live fd' t"
  shows "agfs_read_cmd q fd' c0 (t\<lparr>rx := rx_push (drop (length (tx s))
           (tx (snd (agfs_write_cmd p fd c s))) @ rest) evs\<rparr>) = ((2, c), t\<lparr>rx := rx_push rest evs\<rparr>) \<and>
         agfs_read_mask q fd' m0 (t\<lparr>rx := rx_push (drop (length (tx s))
           (tx (snd (agfs_write_mask p fd m s))) @ rest) evs\<rparr>) = ((4, m), t\<lparr>rx := rx_push rest evs\<rparr>) \<and>
         agfs_read_size q fd' z0 (t\<lparr>rx := rx_push (drop (length (tx s))
           (tx (snd (agfs_write_size p fd z s))) @ rest) evs\<rparr>) = ((8, z), t\<lparr>rx := rx_push rest evs\<rparr>) \<and>
         agfs_read_error q fd' e0 (t\<lparr>rx := rx_push (drop (length (tx s))
           (tx (snd (agfs_write_error p fd e s))) @ rest) evs\<rparr>) = ((8, e), t\<lparr>rx := rx_push rest evs\<rparr>)"
  using assms by (simp add: io_simps)

theorem int_roundtrip_witness:
  "agfs_read_error ppc 3 9 (idle\<lparr>rx := rx_push (drop (length (tx idle))
       (tx (snd (agfs_write_error x86 3 (- 2) idle))) @ [1]) []\<rparr>) =
     ((8, - 2), idle\<lparr>rx := rx_push [1] []\<rparr>)"
  using int_roundtrip [of 3 idle 3 idle] by simp

text \<open>C32: What a host puts on the wire does not depend on its byte order, not even when the
  socket refuses or shortens a write: all the writers behave the same on every host.\<close>

theorem wire_host_independent:
  "agfs_write_cmd p fd c s = agfs_write_cmd q fd c s \<and>
   agfs_write_mask p fd m s = agfs_write_mask q fd m s \<and>
   agfs_write_size p fd z s = agfs_write_size q fd z s \<and>
   agfs_write_error p fd e s = agfs_write_error q fd e s \<and>
   agfs_write_string p fd str s = agfs_write_string q fd str s \<and>
   agfs_write_stat p fd st s = agfs_write_stat q fd st s"
  unfolding agfs_write_string_def agfs_write_stat_def agfs_write_cmd_def agfs_write_mask_def
    agfs_write_size_def agfs_write_error_def write_obj_def Let_def mem_store_htobe
  by (intro conjI refl)

end
