(* ===== verification/Connection.thy ===== *)
theory Connection
  imports Constants AgfsIO
begin

text \<open>
  What the two classes that hold a connection share: the descriptor \<^verbatim>\<open>socket_\<close>, -1 (or
  another negative number) when there is no connection, and the property that the descriptor
  is valid exactly while the socket behind it is open, so that no socket is leaked and none is
  used after it was closed.
\<close>

record connection = sock +
  socket :: int

definition connected :: "'a connection_scheme \<Rightarrow> bool" where
  "connected c = (\<not> socket c < 0)"

text \<open>\<^verbatim>\<open>close(socket_); socket_ = -1;\<close>\<close>

definition close_socket :: "'a connection_scheme \<Rightarrow> int \<times> 'a connection_scheme" where
  "close_socket c = (let (r, c) = sys_close (socket c) c in (r, c\<lparr>socket := -1\<rparr>))"

definition conn_ok :: "'a connection_scheme \<Rightarrow> bool" where
  "conn_ok c \<longleftrightarrow> (connected c \<longleftrightarrow> sock_open c)"

lemma io_frame_socket [simp]: "io_frame c c' \<Longrightarrow> socket c' = socket c"
  by (cases c; cases c') (simp add: io_frame_def)

lemma io_frame_connection_more: "io_frame c c' \<Longrightarrow> connection.more c' = connection.more c"
  by (cases c; cases c') (simp add: io_frame_def)

lemma io_frame_conn_ok: "io_frame c c' \<Longrightarrow> conn_ok c' = conn_ok c"
proof -
  assume f: "io_frame c c'"
  then have "sock_open c' = sock_open c" by (simp add: io_frame_def)
  with io_frame_socket [OF f] show ?thesis by (simp add: conn_ok_def connected_def)
qed

lemma io_frame_connected: "io_frame c c' \<Longrightarrow> connected c' = connected c"
  by (simp add: connected_def)

lemma live_connected: "conn_ok c \<Longrightarrow> live (socket c) c = connected c"
  by (auto simp: conn_ok_def connected_def live_def)

lemma close_socket_ok:
  "conn_ok c \<Longrightarrow> conn_ok (snd (close_socket c))"
  "\<not> connected (snd (close_socket c))"
  by (auto simp: close_socket_def conn_ok_def connected_def sys_close_def live_def)

lemma close_socket_rx: "rx (snd (close_socket c)) = rx c"
  by (simp add: close_socket_def sys_close_def)

text \<open>The descriptor does not change with the buffers.\<close>

lemma socket_upd [simp]:
  "socket (c\<lparr>rx := a\<rparr>) = socket c"
  "socket (c\<lparr>wx := b\<rparr>) = socket c"
  "socket (c\<lparr>tx := d\<rparr>) = socket c"
  "socket (c\<lparr>errno := e\<rparr>) = socket c"
  by (cases c; simp)+

lemmas socket_io [simp] =
  io_frame_socket [OF io_frame_read] io_frame_socket [OF io_frame_write]
  io_frame_socket [OF io_frame_write_int(1)] io_frame_socket [OF io_frame_write_int(2)]
  io_frame_socket [OF io_frame_write_int(3)] io_frame_socket [OF io_frame_write_int(4)]
  io_frame_socket [OF io_frame_read_int(1)] io_frame_socket [OF io_frame_read_int(2)]
  io_frame_socket [OF io_frame_read_int(3)] io_frame_socket [OF io_frame_read_int(4)]
  io_frame_socket [OF io_frame_write_string] io_frame_socket [OF io_frame_write_stat]
  io_frame_socket [OF io_frame_read_stat]

end
