(* ===== verification/Protocol.thy ===== *)
theory Protocol
  imports Connection
begin

text \<open>
  The protocol that the two ends implement, as byte sequences: the request and the answer of
  every command, following the comments in \<^verbatim>\<open>serverconnection.cpp\<close> and
  \<^verbatim>\<open>agfs-server.cpp\<close> that give the layout of both.
\<close>

text \<open>The bytes of each request and of each answer.\<close>

definition path_ok :: "string \<Rightarrow> bool" where
  "path_ok path \<longleftrightarrow> NUL \<notin> set path \<and> length path \<le> MAX_RW"

definition getattr_request :: "string \<Rightarrow> byte list" where
  "getattr_request path = be_bytes cmd_GETATTR @ string_enc path"

definition access_request :: "string \<Rightarrow> agmask_t \<Rightarrow> byte list" where
  "access_request path m = be_bytes cmd_ACCESS @ string_enc path @ be_bytes m"

definition open_request :: "string \<Rightarrow> agmask_t \<Rightarrow> byte list" where
  "open_request path m = be_bytes cmd_OPEN @ string_enc path @ be_bytes m"

definition readdir_request :: "string \<Rightarrow> byte list" where
  "readdir_request path = be_bytes cmd_READDIR @ string_enc path"

definition read_request :: "string \<Rightarrow> agsize_t \<Rightarrow> agsize_t \<Rightarrow> byte list" where
  "read_request path sz off =
     be_bytes cmd_READ @ string_enc path @ be_bytes sz @ be_bytes off"

definition write_request :: "string \<Rightarrow> byte list" where
  "write_request path = be_bytes cmd_WRITE @ string_enc path"

definition write_data :: "byte list \<Rightarrow> agsize_t \<Rightarrow> byte list" where
  "write_data buf off =
     be_bytes (word_of_nat (length buf) :: agsize_t) @ be_bytes off @ buf"

definition getattr_reply :: "stat \<Rightarrow> agerr_t \<Rightarrow> byte list" where
  "getattr_reply st err = be_bytes err @ (if neg_err err then [] else stat_enc st)"

definition readdir_reply :: "(string \<times> stat) list \<Rightarrow> agerr_t \<Rightarrow> byte list" where
  "readdir_reply files err = be_bytes err @
     (if neg_err err then []
      else be_bytes (word_of_nat (length files) :: agsize_t) @ concat (map entry_enc files))"

definition read_reply :: "byte list \<Rightarrow> agerr_t \<Rightarrow> byte list" where
  "read_reply data err = be_bytes err @
     (if neg_err err then [] else be_bytes (word_of_nat (length data) :: agsize_t) @ data)"

definition write_reply :: "agsize_t \<Rightarrow> agerr_t \<Rightarrow> byte list" where
  "write_reply n err = be_bytes err @ (if neg_err err then [] else be_bytes n)"

lemmas request_defs = getattr_request_def access_request_def open_request_def
  readdir_request_def read_request_def write_request_def write_data_def

lemmas reply_defs = getattr_reply_def readdir_reply_def read_reply_def write_reply_def

text \<open>A connection whose socket takes everything that is written to it.\<close>

definition healthy :: "'a connection_scheme \<Rightarrow> bool" where
  "healthy c \<longleftrightarrow> live (socket c) c \<and> wx c = []"

lemma healthy_upd [simp]:
  "healthy (c\<lparr>rx := a\<rparr>) = healthy c" "healthy (c\<lparr>tx := b\<rparr>) = healthy c"
  "healthy (c\<lparr>errno := e\<rparr>) = healthy c"
  by (simp_all add: healthy_def)

end
