(* ===== verification/ServerConnection.thy ===== *)
theory ServerConnection
  imports Protocol
begin

text \<open>
  \<^verbatim>\<open>serverconnection.cpp\<close>: the client's end of a connection. Each method runs under the
  object's mutex, so it is one step of the object's state; a method that may end the process
  (a failed allocation whose size came from the network) returns an option, \<open>None\<close> when it
  does.
\<close>

record server_connection = connection +
  sc_failedCommand :: bool
  sc_connectionStopped :: bool
  sc_hostname :: string
  sc_port :: string
  sc_key :: string
  sc_closed :: bool

text \<open>
  What the network answers to one attempt to connect: the results of \<^verbatim>\<open>getaddrinfo\<close>,
  \<^verbatim>\<open>socket\<close> and \<^verbatim>\<open>connect\<close>, and what the new socket will bring.
\<close>

record dial =
  dial_getaddrinfo :: int
  dial_socket :: int
  dial_connect :: int
  dial_rx :: "rx_event list"
  dial_wx :: "wx_event list"

type_synonym network = "string \<Rightarrow> string \<Rightarrow> dial"

definition DNS_ERROR :: int where "DNS_ERROR = -1"
definition SOCKET_FAILURE :: int where "SOCKET_FAILURE = -2"
definition CONNECTION_FAILURE :: int where "CONNECTION_FAILURE = -3"

text \<open>A path given as \<^verbatim>\<open>const char*\<close> ends at the first zero byte.\<close>

definition c_string :: "string \<Rightarrow> string" where
  "c_string path = takeWhile (\<lambda>c. c \<noteq> NUL) path"

section \<open>Connecting\<close>

definition dnsLookup :: "network \<Rightarrow> server_connection \<Rightarrow> int \<times> server_connection" where
  "dnsLookup net c =
     (let d = net (sc_hostname c) (sc_port c) in
      if dial_getaddrinfo d \<noteq> 0 then (DNS_ERROR, c)
      else (let fd = dial_socket d in
            if fd = -1 then (SOCKET_FAILURE, c)
            else if dial_connect d = -1 then (CONNECTION_FAILURE, c)
            else (fd, c\<lparr>rx := dial_rx d, wx := dial_wx d, tx := [], sock_open := True\<rparr>)))"

definition connect :: "plat \<Rightarrow> network \<Rightarrow> server_connection \<Rightarrow> server_connection" where
  "connect p net c =
     (let (fd, c) = dnsLookup net c;
          c = c\<lparr>socket := fd\<rparr>
      in if socket c = DNS_ERROR then c
         else if socket c = SOCKET_FAILURE then c
         else if socket c = CONNECTION_FAILURE then c
         else
           (let (r, c) = agfs_write_string p (socket c) (sc_key c) c;
                servResp = cmd_NONE;
                ((r, servResp), c) = agfs_read_cmd p (socket c) servResp c
            in if servResp = cmd_INVALID_KEY then snd (close_socket c)
               else if servResp = cmd_MOUNT_NOT_FOUND then snd (close_socket c)
               else if servResp = cmd_USER_NOT_FOUND then snd (close_socket c)
               else if servResp = cmd_ACCEPT then c
               else snd (close_socket c)))"

definition new_server_connection ::
  "plat \<Rightarrow> network \<Rightarrow> string \<Rightarrow> string \<Rightarrow> string \<Rightarrow> server_connection" where
  "new_server_connection p net hostname port key =
     connect p net \<lparr>rx = [], wx = [], tx = [], sock_open = False, errno = 0, socket = -1,
       sc_failedCommand = False, sc_connectionStopped = False, sc_hostname = hostname,
       sc_port = port, sc_key = key, sc_closed = False\<rparr>"

text \<open>
  The copy constructor, for the copy that goes into the table of connections. Both objects have
  the descriptor of the same socket; the first one is not used any more. The mutex of the copy
  is a new one.
\<close>

definition copy_connection :: "server_connection \<Rightarrow> server_connection" where
  "copy_connection connection =
     \<lparr>rx = rx connection, wx = wx connection, tx = tx connection, sock_open = sock_open connection,
      errno = errno connection, socket = socket connection,
      sc_failedCommand = sc_failedCommand connection,
      sc_connectionStopped = sc_connectionStopped connection, sc_hostname = sc_hostname connection,
      sc_port = sc_port connection, sc_key = sc_key connection, sc_closed = sc_closed connection\<rparr>"

lemma copy_connection_same [simp]: "copy_connection c = c"
  by (simp add: copy_connection_def)

definition stop :: "plat \<Rightarrow> server_connection \<Rightarrow> agerr_t \<times> server_connection" where
  "stop p c =
     (let error = 0;
          (error, c) =
            (if connected c then
               (let (r, c) = agfs_write_cmd p (socket c) cmd_STOP c;
                    (error, c) = close_socket c
                in (error, c))
             else (error, c))
      in (word_of_int error, c\<lparr>sc_closed := True\<rparr>))"

definition closed :: "server_connection \<Rightarrow> bool" where
  "closed c = sc_closed c"

definition stopped :: "server_connection \<Rightarrow> bool" where
  "stopped c = sc_connectionStopped c"

section \<open>The file operations\<close>

definition getattr ::
  "plat \<Rightarrow> string \<Rightarrow> server_connection \<Rightarrow> (stat \<times> agerr_t) \<times> server_connection" where
  "getattr p path c =
     (let (r, c) = agfs_write_cmd p (socket c) cmd_GETATTR c;
          (r, c) = agfs_write_string p (socket c) (c_string path) c;
          ((r, error), c) = agfs_read_error p (socket c) 0 c;
          readValues = zero_stat
      in if \<not> neg_err error
         then (let ((r, readValues), c) = agfs_read_stat p (socket c) c
               in ((readValues, error), c))
         else ((readValues, error), c))"

definition access ::
  "plat \<Rightarrow> string \<Rightarrow> agmask_t \<Rightarrow> server_connection \<Rightarrow> agerr_t \<times> server_connection" where
  "access p path msk c =
     (let (r, c) = agfs_write_cmd p (socket c) cmd_ACCESS c;
          (r, c) = agfs_write_string p (socket c) (c_string path) c;
          (r, c) = agfs_write_mask p (socket c) msk c;
          ((r, retValue), c) = agfs_read_error p (socket c) (uninit p) c
      in (retValue, c))"

text \<open>The body of the loop over the entries of a directory.\<close>

definition readdir_entry ::
  "plat \<Rightarrow> int \<Rightarrow> 'a sock_scheme \<Rightarrow> ((int \<times> (string \<times> stat)) \<times> 'a sock_scheme) option" where
  "readdir_entry p fd c = do {
     ((r, file), c) \<leftarrow> agfs_read_string p fd '''' c;
     let ((r', stbuf), c) = agfs_read_stat p fd c;
     Some ((r + r', (file, stbuf)), c) }"

definition readdir ::
  "plat \<Rightarrow> string \<Rightarrow> server_connection \<Rightarrow>
     (((string \<times> stat) list \<times> agerr_t) \<times> server_connection) option" where
  "readdir p path c =
     (let (r, c) = agfs_write_cmd p (socket c) cmd_READDIR c;
          (r, c) = agfs_write_string p (socket c) (c_string path) c;
          ((r, error), c) = agfs_read_error p (socket c) 0 c
      in if \<not> neg_err error
         then (let ((r, count), c) = agfs_read_size p (socket c) 0 c
               in do {
                 (files, c) \<leftarrow> read_seq (readdir_entry p (socket c)) (unat count) c;
                 Some ((files, error), c) })
         else Some (([], error), c))"

definition readFile ::
  "plat \<Rightarrow> string \<Rightarrow> agsize_t \<Rightarrow> agsize_t \<Rightarrow> server_connection \<Rightarrow>
     ((byte list \<times> agerr_t) \<times> server_connection) option" where
  "readFile p path sz offset c =
     (let (r, c) = agfs_write_cmd p (socket c) cmd_READ c;
          (r, c) = agfs_write_string p (socket c) (c_string path) c;
          (r, c) = agfs_write_size p (socket c) sz c;
          (r, c) = agfs_write_size p (socket c) offset c;
          ((r, error), c) = agfs_read_error p (socket c) 0 c
      in if \<not> neg_err error
         then (let ((r, amount_read), c) = agfs_read_size p (socket c) 0 c
               in if \<not> alloc_ok p (unat amount_read) then None
                  else (let data = replicate (unat amount_read) 0;
                            ((r, bs), c) = sys_read (socket c) (unat amount_read) c;
                            data = overlay bs data;
                            error = word_of_int (min r (sint error))
                        in Some ((data, error), c)))
         else Some (([], error), c))"

lemma write_loop_progress:
  assumes "sys_write fd (drop written buf) s = (r, s')" and "0 < r"
  shows "length buf - (written + nat r) < length buf - written"
proof -
  have "r \<le> int (length buf - written)"
    using sys_write_bounds(1) [of fd "drop written buf" s] assms(1) by simp
  with assms(2) show ?thesis by linarith
qed

text \<open>
  The loop that writes the buffer to the socket: \<open>written\<close> bytes are gone, \<open>error\<close> is what the
  last \<^verbatim>\<open>write\<close> returned.
\<close>

function write_loop ::
  "int \<Rightarrow> byte list \<Rightarrow> nat \<Rightarrow> int \<Rightarrow> 'a sock_scheme \<Rightarrow> (nat \<times> int) \<times> 'a sock_scheme" where
  "write_loop fd buf written error s =
     (if written = length buf then ((written, error), s)
      else (let (error, s) = sys_write fd (drop written buf) s
            in if 0 < error then write_loop fd buf (written + nat error) error s
               else ((written, error), s)))"
  by pat_completeness auto

termination
  by (relation "measure (\<lambda>(fd, buf, written, error, s). length buf - written)")
     (auto intro: write_loop_progress [OF sym])

declare write_loop.simps [simp del]

text \<open>The buffer \<open>buf\<close> holds the \<open>size\<close> bytes to write.\<close>

definition writeFile ::
  "plat \<Rightarrow> string \<Rightarrow> agsize_t \<Rightarrow> byte list \<Rightarrow> server_connection \<Rightarrow>
     (agsize_t \<times> agerr_t) \<times> server_connection" where
  "writeFile p path offset buf c =
     (let (r, c) = agfs_write_cmd p (socket c) cmd_WRITE c;
          (r, c) = agfs_write_string p (socket c) (c_string path) c;
          ((r, error), c) = agfs_read_error p (socket c) 0 c
      in if neg_err error then ((0, error), c)
         else
           (let (r, c) = agfs_write_size p (socket c) (word_of_nat (length buf)) c;
                (r, c) = agfs_write_size p (socket c) offset c;
                ((total_written, err), c) = write_loop (socket c) buf 0 (sint error) c
            in if err < 0 then ((0, word_of_int (- errno c)), c)
               else
                 (let ((r, error), c) = agfs_read_error p (socket c) (word_of_int err) c
                  in if \<not> neg_err error
                     then (let ((r, total_written), c) =
                                 agfs_read_size p (socket c) (word_of_nat total_written) c
                           in ((total_written, error), c))
                     else ((word_of_nat total_written, error), c))))"

definition open_file ::
  "plat \<Rightarrow> string \<Rightarrow> agmask_t \<Rightarrow> server_connection \<Rightarrow> agerr_t \<times> server_connection" where
  "open_file p path flags c =
     (let (r, c) = agfs_write_cmd p (socket c) cmd_OPEN c;
          (r, c) = agfs_write_string p (socket c) (c_string path) c;
          (r, c) = agfs_write_mask p (socket c) flags c;
          ((r, error), c) = agfs_read_error p (socket c) 0 c
      in (error, c))"

definition heartbeat :: "plat \<Rightarrow> server_connection \<Rightarrow> agerr_t \<times> server_connection" where
  "heartbeat p c =
     (let (r, c) = agfs_write_cmd p (socket c) cmd_HEARTBEAT c;
          resp = cmd_NONE;
          ((r, resp), c) = agfs_read_cmd p (socket c) resp c
      in if resp = cmd_NONE then (0, snd (close_socket c)) else (0, c))"

section \<open>Frames\<close>

text \<open>
  The file operations only read from and write to the socket; \<^verbatim>\<open>connect\<close>,
  \<^verbatim>\<open>heartbeat\<close> and \<^verbatim>\<open>stop\<close> alone change the descriptor.
\<close>

lemma io_frame_getattr [frame]: "io_frame c (snd (getattr p path c))"
  by (auto simp: getattr_def Let_def split_beta intro!: frame_chain frame_chain_items)

lemma io_frame_access [frame]: "io_frame c (snd (access p path m c))"
  by (auto simp: access_def Let_def split_beta intro!: frame_chain frame_chain_items)

lemma io_frame_open_file [frame]: "io_frame c (snd (open_file p path m c))"
  by (auto simp: open_file_def Let_def split_beta intro!: frame_chain frame_chain_items)

lemma io_frame_readdir_entry:
  "readdir_entry p fd c = Some (r, c') \<Longrightarrow> io_frame c c'"
  by (auto simp: readdir_entry_def bind_eq_Some_conv Let_def split_beta
        intro!: frame_chain_items(3) dest!: io_frame_read_string)

lemma io_frame_entries:
  "read_seq (readdir_entry p fd) n c = Some (vs, c') \<Longrightarrow> io_frame c c'"
  using io_frame_read_seq [of "readdir_entry p fd"] io_frame_readdir_entry by metis

lemma io_frame_readdir [frame]:
  assumes "readdir p path c = Some (r, c')"
  shows "io_frame c c'"
proof -
  let ?c1 = "snd (agfs_write_string p (socket c) (c_string path)
                    (snd (agfs_write_cmd p (socket c) cmd_READDIR c)))"
  have c1: "io_frame c ?c1"
    by (intro frame_chain frame_chain_items io_frame_refl)
  define c2 where "c2 = snd (agfs_read_error p (socket ?c1) 0 ?c1)"
  define c3 where "c3 = snd (agfs_read_size p (socket c2) 0 c2)"
  have c2: "io_frame c c2" and c3: "io_frame c c3"
    unfolding c3_def c2_def by (intro frame_chain c1)+
  have "c' = c2 \<or> (\<exists>n vs. read_seq (readdir_entry p (socket c3)) n c3 = Some (vs, c'))"
    using assms
    by (auto simp: readdir_def Let_def split_beta bind_eq_Some_conv frame c2_def c3_def
          split: if_splits)
  then show ?thesis
    using c2 c3 io_frame_entries by (blast intro: io_frame_trans)
qed

lemma io_frame_readFile [frame]:
  "readFile p path sz off c = Some (r, c') \<Longrightarrow> io_frame c c'"
  by (auto simp: readFile_def Let_def split_beta split: if_splits
        intro!: frame_chain frame_chain_items(1))

lemma io_frame_write_loop: "io_frame s (snd (write_loop fd buf written error s))"
proof (induction fd buf written error s rule: write_loop.induct)
  case (1 fd buf written error s)
  obtain r s' where w: "sys_write fd (drop written buf) s = (r, s')" by fastforce
  have "io_frame s s'"
    using io_frame_write [of s fd "drop written buf"] w by simp
  then show ?case
    using 1 [OF _ w [symmetric]] w
    by (auto simp: write_loop.simps [of fd buf written error s] intro: io_frame_trans)
qed

lemma io_frame_writeFile [frame]: "io_frame c (snd (writeFile p path off buf c))"
  unfolding writeFile_def Let_def split_beta
  by (auto intro!: frame_chain frame_chain_items(1) io_frame_trans [OF _ io_frame_write_loop])

section \<open>A server that answers\<close>

lemma c_string_ok [simp]: "path_ok path \<Longrightarrow> c_string path = path"
  by (simp add: path_ok_def c_string_def)

lemma getattr_answered:
  assumes "healthy c" and "path_ok path" and "rx c = rx_push (getattr_reply st err @ rest) evs"
  shows "getattr p path c =
     ((if neg_err err then zero_stat else stat_view st, err),
      c\<lparr>tx := tx c @ getattr_request path, rx := rx_push rest evs\<rparr>)"
  using assms
  by (simp add: getattr_def healthy_def getattr_reply_def getattr_request_def path_ok_def c_string_def io_simps)

lemma access_answered:
  assumes "healthy c" and "path_ok path" and "rx c = rx_push (be_bytes err @ rest) evs"
  shows "access p path m c =
     (err, c\<lparr>tx := tx c @ access_request path m, rx := rx_push rest evs\<rparr>)"
  using assms
  by (simp add: access_def healthy_def access_request_def path_ok_def c_string_def io_simps)

lemma open_answered:
  assumes "healthy c" and "path_ok path" and "rx c = rx_push (be_bytes err @ rest) evs"
  shows "open_file p path m c =
     (err, c\<lparr>tx := tx c @ open_request path m, rx := rx_push rest evs\<rparr>)"
  using assms
  by (simp add: open_file_def healthy_def open_request_def path_ok_def c_string_def io_simps)

lemma readdir_entry_item:
  "readdir_entry p fd =
     (\<lambda>c. do { ((m, v), t) \<leftarrow> agfs_read_string p fd [] c;
               ((n, w), t) \<leftarrow> Some (agfs_read_stat p fd t); Some ((m + n, (v, w)), t) })"
  by (rule ext) (simp add: readdir_entry_def Let_def)

lemma readdir_entries_answered:
  assumes "live fd c" and "\<forall>v \<in> set files. string_ok p (fst v)"
    and "rx c = rx_push (concat (map entry_enc files) @ rest) evs"
  shows "read_seq (readdir_entry p fd) (length files) c =
           Some (map entry_view files, c\<lparr>rx := rx_push rest evs\<rparr>)"
  using assms unfolding readdir_entry_item entry_enc_def entry_view_def
  by (intro entry_item.both.rd_seq) simp_all

lemma readdir_answered:
  assumes "healthy c" and "path_ok path" and "length files < 2 ^ 64"
    and "\<forall>v \<in> set files. string_ok p (fst v)"
    and "rx c = rx_push (readdir_reply files err @ rest) evs"
  shows "readdir p path c = Some
     ((if neg_err err then [] else map entry_view files, err),
      c\<lparr>tx := tx c @ readdir_request path, rx := rx_push rest evs\<rparr>)"
proof -
  have len: "unat (word_of_nat (length files) :: agsize_t) = length files"
    using assms(3) by (simp add: unat_of_nat)
  have seq: "neg_err err \<or> read_seq (readdir_entry p (socket c)) (length files)
      (c\<lparr>tx := tx c @ readdir_request path,
         rx := rx_push (concat (map entry_enc files) @ rest) evs\<rparr>) =
      Some (map entry_view files, c\<lparr>tx := tx c @ readdir_request path, rx := rx_push rest evs\<rparr>)"
    using assms by (simp add: readdir_entries_answered healthy_def)
  show ?thesis
    using assms seq len
    by (auto simp: readdir_def healthy_def readdir_reply_def readdir_request_def path_ok_def
          c_string_def io_simps)
qed

lemma readFile_answered:
  assumes "healthy c" and "path_ok path" and "length data \<le> MAX_RW"
    and "neg_err err \<or> alloc_ok p (length data)"
    and "rx c = rx_push (read_reply data err @ rest) evs"
  shows "readFile p path sz off c = Some
     (if neg_err err then ([], err)
      else (data, word_of_int (min (int (length data)) (sint err))),
      c\<lparr>tx := tx c @ read_request path sz off, rx := rx_push rest evs\<rparr>)"
  using assms unat_length_u64 [of data]
  by (auto simp: readFile_def healthy_def read_reply_def read_request_def path_ok_def
        c_string_def io_simps)

lemma write_loop_all:
  "live fd s \<Longrightarrow> wx s = [] \<Longrightarrow> written \<le> length buf \<Longrightarrow>
     \<exists>err. write_loop fd buf written error s =
             ((length buf, err), s\<lparr>tx := tx s @ drop written buf\<rparr>) \<and>
           (if written = length buf then err = error else 0 < err)"
proof (induction fd buf written error s rule: write_loop.induct)
  case (1 fd buf written error s)
  show ?case
  proof (cases "written = length buf")
    case True
    then show ?thesis by (simp add: write_loop.simps)
  next
    case False
    define n where "n = min (length buf - written) MAX_RW"
    let ?s = "s\<lparr>tx := tx s @ take n (drop written buf)\<rparr>"
    have n: "0 < n" "written + n \<le> length buf"
      using False "1.prems"(3) by (auto simp: n_def MAX_RW_def)
    have w: "sys_write fd (drop written buf) s = (int n, ?s)"
      using "1.prems" by (simp add: sys_write_def n_def Let_def)
    obtain err where "write_loop fd buf (written + n) (int n) ?s =
        ((length buf, err), ?s\<lparr>tx := tx ?s @ drop (written + n) buf\<rparr>)"
        and "if written + n = length buf then err = int n else 0 < err"
      using "1.IH" [OF False w [symmetric]] n "1.prems" by auto
    moreover have "take n (drop written buf) @ drop (written + n) buf = drop written buf"
      by (metis add.commute append_take_drop_id drop_drop)
    ultimately show ?thesis
      using w n False by (auto simp: write_loop.simps [of fd buf written error s] split: if_splits)
  qed
qed

lemma writeFile_answered:
  assumes "healthy c" and "path_ok path" and "length buf < 2 ^ 63"
    and "\<not> neg_err err0"
    and "rx c = rx_push (be_bytes err0 @ write_reply n err @ rest) evs"
  shows "writeFile p path off buf c =
     ((if neg_err err then word_of_nat (length buf) else n, err),
      c\<lparr>tx := tx c @ write_request path @ write_data buf off, rx := rx_push rest evs\<rparr>)"
proof -
  let ?c = "c\<lparr>rx := rx_push (write_reply n err @ rest) evs,
      tx := tx c @ write_request path @
        be_bytes (word_of_nat (length buf) :: agsize_t) @ be_bytes off\<rparr>"
  have live: "live (socket c) ?c" "wx ?c = []"
    using assms(1) by (simp_all add: healthy_def)
  obtain e where loop: "write_loop (socket c) buf 0 (sint err0) ?c =
      ((length buf, e), ?c\<lparr>tx := tx ?c @ drop 0 buf\<rparr>)"
      and e: "if 0 = length buf then e = sint err0 else 0 < e"
    using write_loop_all [OF live, of 0 buf "sint err0"] by auto
  have "\<not> e < 0"
    using e assms(4) by (auto split: if_splits)
  then show ?thesis
    using assms loop
    by (auto simp: writeFile_def healthy_def write_reply_def write_request_def write_data_def
          path_ok_def c_string_def io_simps)
qed

lemma writeFile_refused:
  assumes "healthy c" and "path_ok path" and "neg_err err0"
    and "rx c = rx_push (be_bytes err0 @ rest) evs"
  shows "writeFile p path off buf c =
     ((0, err0), c\<lparr>tx := tx c @ write_request path, rx := rx_push rest evs\<rparr>)"
  using assms
  by (simp add: writeFile_def healthy_def write_request_def path_ok_def c_string_def io_simps)

section \<open>Names that arrive\<close>

text \<open>Whatever the server sends, a name that was read from the socket has no zero byte.\<close>

lemma read_string_plain:
  assumes "agfs_read_string p fd str s = Some ((r, str'), s')" and "NUL \<notin> set str"
  shows "NUL \<notin> set str'"
proof -
  have "NUL \<notin> set (takeWhile (\<lambda>c. c \<noteq> NUL) xs)" for xs
    by (auto dest: set_takeWhileD)
  with assms show ?thesis
    by (auto simp: agfs_read_string_def Let_def split_beta split: if_splits)
qed

lemma read_entries_plain:
  "read_seq (readdir_entry p fd) n c = Some (vs, c') \<Longrightarrow> v \<in> set vs \<Longrightarrow> NUL \<notin> set (fst v)"
proof (induction n arbitrary: c vs)
  case (Suc n)
  obtain r w c1 ws where e: "readdir_entry p fd c = Some ((r, w), c1)"
    and s: "read_seq (readdir_entry p fd) n c1 = Some (ws, c')" and vs: "vs = w # ws"
    using Suc.prems(1) by (auto simp: bind_eq_Some_conv)
  have "NUL \<notin> set (fst w)"
    using e by (auto simp: readdir_entry_def bind_eq_Some_conv Let_def split_beta dest: read_string_plain)
  then show ?case
    using Suc.IH [OF s] Suc.prems(2) vs by auto
qed simp

lemma readdir_plain:
  assumes "readdir p path c = Some ((files, err), c')" and "v \<in> set files"
  shows "NUL \<notin> set (fst v)"
proof -
  have "files = [] \<or> (\<exists>n fd c1. read_seq (readdir_entry p fd) n c1 = Some (files, c'))"
    using assms(1)
    by (auto simp: readdir_def Let_def split_beta bind_eq_Some_conv split: if_splits)
  then show ?thesis
    using assms(2) read_entries_plain by (metis empty_iff empty_set)
qed

end
