(* ===== verification/ClientLife.thy ===== *)
theory ClientLife
  imports ServerConnection
begin

text \<open>
  The life of the client's end of a connection: what \<^verbatim>\<open>connect\<close>, \<^verbatim>\<open>heartbeat\<close> and
  \<^verbatim>\<open>stop\<close> do to the descriptor, what the file operations do when there is no connection,
  and the contract that the callers of the file operations rely on.
\<close>

section \<open>The contract of the file operations\<close>

text \<open>
  An operation that only reads from and writes to the socket: the descriptor, whether it is
  open, and the members of the object stay as they are.
\<close>

locale rpc =
  fixes rpc_op :: "server_connection \<Rightarrow> ('r \<times> server_connection) option"
  assumes op_frame: "rpc_op c = Some (r, c') \<Longrightarrow> io_frame c c'"
begin

lemma op_connected: "rpc_op c = Some (r, c') \<Longrightarrow> connected c' = connected c"
  by (rule io_frame_connected [OF op_frame])

lemma op_conn_ok: "rpc_op c = Some (r, c') \<Longrightarrow> conn_ok c' = conn_ok c"
  by (rule io_frame_conn_ok [OF op_frame])

lemma op_members:
  assumes "rpc_op c = Some (r, c')"
  shows "sc_closed c' = sc_closed c" "sc_hostname c' = sc_hostname c" "sc_port c' = sc_port c"
    "sc_key c' = sc_key c" "sc_connectionStopped c' = sc_connectionStopped c"
  using io_frame_connection_more [OF op_frame [OF assms]] by (cases c; cases c'; simp)+

lemma op_sent: "rpc_op c = Some (r, c') \<Longrightarrow> prefix (tx c) (tx c')"
  using op_frame by (simp add: io_frame_def)

text \<open>The contract as a caller sees it.\<close>

lemma op_keeps:
  assumes "rpc_op c = Some (r, c')"
  shows "connected c' = connected c \<and> conn_ok c' = conn_ok c \<and> sc_closed c' = sc_closed c \<and>
         sc_hostname c' = sc_hostname c \<and> prefix (tx c) (tx c')"
  by (simp add: op_connected [OF assms] op_conn_ok [OF assms] op_members [OF assms] op_sent [OF assms])

end

interpretation getattr: rpc "\<lambda>c. Some (getattr p path c)" for p path
  by unfold_locales (metis io_frame_getattr option.inject snd_conv)

interpretation access: rpc "\<lambda>c. Some (access p path m c)" for p path m
  by unfold_locales (metis io_frame_access option.inject snd_conv)

interpretation open_file: rpc "\<lambda>c. Some (open_file p path m c)" for p path m
  by unfold_locales (metis io_frame_open_file option.inject snd_conv)

interpretation writeFile: rpc "\<lambda>c. Some (writeFile p path off buf c)" for p path off buf
  by unfold_locales (metis io_frame_writeFile option.inject snd_conv)

interpretation readdir: rpc "readdir p path" for p path
  by unfold_locales (rule io_frame_readdir)

interpretation readFile: rpc "readFile p path sz off" for p path sz off
  by unfold_locales (rule io_frame_readFile)

section \<open>Connecting\<close>

text \<open>A new descriptor is not negative, unless it is the error -1.\<close>

definition network_ok :: "network \<Rightarrow> bool" where
  "network_ok net \<longleftrightarrow> (\<forall>host port. - 1 \<le> dial_socket (net host port))"

lemma dnsLookup_cases:
  assumes "network_ok net"
  obtains (failed) e where "dnsLookup net c = (e, c)"
      and "e = DNS_ERROR \<or> e = SOCKET_FAILURE \<or> e = CONNECTION_FAILURE"
  | (dialled) fd where "dnsLookup net c = (fd, c\<lparr>rx := dial_rx (net (sc_hostname c) (sc_port c)),
        wx := dial_wx (net (sc_hostname c) (sc_port c)), tx := [], sock_open := True\<rparr>)"
      and "0 \<le> fd" and "fd = dial_socket (net (sc_hostname c) (sc_port c))"
proof -
  let ?d = "net (sc_hostname c) (sc_port c)"
  have s: "- 1 \<le> dial_socket ?d" using assms by (simp add: network_ok_def)
  show thesis
  proof (cases "dial_getaddrinfo ?d \<noteq> 0 \<or> dial_socket ?d = - 1 \<or> dial_connect ?d = - 1")
    case True
    then show thesis
      by (intro failed [of "if dial_getaddrinfo ?d \<noteq> 0 then DNS_ERROR
            else if dial_socket ?d = - 1 then SOCKET_FAILURE else CONNECTION_FAILURE"])
         (auto simp: dnsLookup_def)
  next
    case False
    with s show thesis
      by (intro dialled [of "dial_socket ?d"]) (auto simp: dnsLookup_def Let_def)
  qed
qed

text \<open>
  After \<^verbatim>\<open>connect\<close> the descriptor is valid exactly if the socket is open, and then the
  server's answer to the key was \<^verbatim>\<open>ACCEPT\<close>.
\<close>

lemma failure_codes [simp]: "DNS_ERROR < 0" "SOCKET_FAILURE < 0" "CONNECTION_FAILURE < 0"
  by (simp_all add: DNS_ERROR_def SOCKET_FAILURE_def CONNECTION_FAILURE_def)

lemma connect_failed:
  assumes "dnsLookup net c = (e, c)"
    and "e = DNS_ERROR \<or> e = SOCKET_FAILURE \<or> e = CONNECTION_FAILURE"
  shows "connect p net c = c\<lparr>socket := e\<rparr>"
  using assms
  by (auto simp: connect_def Let_def DNS_ERROR_def SOCKET_FAILURE_def CONNECTION_FAILURE_def)

lemma connect_dialled:
  assumes "dnsLookup net c = (fd, c1)" and "0 \<le> fd"
    and "c2 = snd (agfs_write_string p fd (sc_key c1) (c1\<lparr>socket := fd\<rparr>))"
    and "agfs_read_cmd p fd cmd_NONE c2 = ((r, resp), c3)"
  shows "connect p net c = (if resp = cmd_ACCEPT then c3 else snd (close_socket c3))"
proof -
  have fd: "fd \<noteq> DNS_ERROR" "fd \<noteq> SOCKET_FAILURE" "fd \<noteq> CONNECTION_FAILURE"
    using assms(2) by (auto simp: DNS_ERROR_def SOCKET_FAILURE_def CONNECTION_FAILURE_def)
  obtain n c2' where w: "agfs_write_string p fd (sc_key c1) (c1\<lparr>socket := fd\<rparr>) = (n, c2')" by fastforce
  have "socket c2' = fd"
    using io_frame_socket [OF io_frame_write_string, of p fd "sc_key c1" "c1\<lparr>socket := fd\<rparr>"] w by simp
  then show ?thesis
    using assms fd w by (auto simp: connect_def cmd_defs)
qed

lemma connect_conn_ok:
  assumes "network_ok net" and "conn_ok c" and "\<not> connected c"
  shows "conn_ok (connect p net c)"
  using assms(1)
proof (cases rule: dnsLookup_cases [of net c])
  case (failed e)
  then show ?thesis
    using assms(2,3) by (auto simp: connect_failed conn_ok_def connected_def)
next
  case (dialled fd)
  let ?c1 = "c\<lparr>rx := dial_rx (net (sc_hostname c) (sc_port c)),
        wx := dial_wx (net (sc_hostname c) (sc_port c)), tx := [], sock_open := True\<rparr>"
  define c2 where "c2 = snd (agfs_write_string p fd (sc_key ?c1) (?c1\<lparr>socket := fd\<rparr>))"
  obtain r resp c3 where r: "agfs_read_cmd p fd cmd_NONE c2 = ((r, resp), c3)"
    by (metis prod.exhaust)
  have c2: "io_frame (?c1\<lparr>socket := fd\<rparr>) c2" and c3: "io_frame c2 c3"
    using r io_frame_read_int(1) [of c2 p fd cmd_NONE] by (simp_all add: c2_def io_frame_write_string)
  have "conn_ok (?c1\<lparr>socket := fd\<rparr>)"
    using dialled(2) by (simp add: conn_ok_def connected_def)
  then have "conn_ok c3"
    using io_frame_conn_ok [OF c2] io_frame_conn_ok [OF c3] by blast
  then show ?thesis
    using connect_dialled [OF dialled(1,2) c2_def r] close_socket_ok(1) [of c3] by simp
qed

lemma connect_answered:
  assumes "network_ok net" and "d = net (sc_hostname c) (sc_port c)"
    and "dial_getaddrinfo d = 0" and "dial_socket d \<noteq> - 1" and "dial_connect d \<noteq> - 1"
    and "dial_wx d = []" and "dial_rx d = rx_push (be_bytes resp) evs"
    and "length (sc_key c) \<le> MAX_RW"
  shows "connected (connect p net c) \<longleftrightarrow> resp = cmd_ACCEPT"
    and "tx (connect p net c) = string_enc (sc_key c)"
    and "rx (connect p net c) = evs"
    and "wx (connect p net c) = []"
proof -
  let ?fd = "dial_socket d"
  let ?c1 = "c\<lparr>rx := dial_rx d, wx := dial_wx d, tx := [], sock_open := True\<rparr>"
  have fd: "0 \<le> ?fd"
    using assms(1,2,4) unfolding network_ok_def by (metis add.left_inverse linorder_not_less order_le_less zle_add1_eq_le add.commute)
  have lookup: "dnsLookup net c = (?fd, ?c1)"
    using assms(2-5) by (simp add: dnsLookup_def Let_def)
  define c2 where "c2 = snd (agfs_write_string p ?fd (sc_key ?c1) (?c1\<lparr>socket := ?fd\<rparr>))"
  have live: "live ?fd (?c1\<lparr>socket := ?fd\<rparr>)" using fd by (simp add: live_def)
  have c2: "c2 = ?c1\<lparr>socket := ?fd, tx := string_enc (sc_key c)\<rparr>"
    using live assms(6,8) by (simp add: c2_def io_simps)
  have r: "agfs_read_cmd p ?fd cmd_NONE c2 = ((2, resp), c2\<lparr>rx := evs\<rparr>)"
    using fd assms(7) c2 by (intro read_int_last) (simp_all add: live_def)
  note con = connect_dialled [OF lookup fd c2_def r]
  show "connected (connect p net c) \<longleftrightarrow> resp = cmd_ACCEPT"
    using fd c2 by (simp add: con connected_def close_socket_def sys_close_def)
  show "tx (connect p net c) = string_enc (sc_key c)"
    using c2 by (simp add: con close_socket_def sys_close_def)
  show "rx (connect p net c) = evs"
    using c2 by (simp add: con close_socket_rx)
  show "wx (connect p net c) = []"
    using c2 assms(6) by (simp add: con close_socket_def sys_close_def)
qed

text \<open>A server that does not answer in time, or goes away, leaves no connection.\<close>

lemma betoh_none: "betoh e cmd_NONE \<noteq> cmd_ACCEPT"
  by (cases e) (simp_all add: cmd_defs bswap_def le_bytes_def upt_rec)

lemma connect_silent:
  assumes "network_ok net" and "case dial_rx (net (sc_hostname c) (sc_port c)) of
      [] \<Rightarrow> True | RxErr e # evs \<Rightarrow> True | _ \<Rightarrow> False"
  shows "\<not> connected (connect p net c)"
  using assms(1)
proof (cases rule: dnsLookup_cases [of net c])
  case (failed e)
  then show ?thesis by (auto simp: connect_failed connected_def)
next
  case (dialled fd)
  let ?c1 = "c\<lparr>rx := dial_rx (net (sc_hostname c) (sc_port c)),
        wx := dial_wx (net (sc_hostname c) (sc_port c)), tx := [], sock_open := True\<rparr>"
  define c2 where "c2 = snd (agfs_write_string p fd (sc_key ?c1) (?c1\<lparr>socket := fd\<rparr>))"
  have c2: "live fd c2" "rx c2 = dial_rx (net (sc_hostname c) (sc_port c))"
    using dialled(2) io_frame_live [OF io_frame_write_string, of fd p fd "sc_key ?c1" "?c1\<lparr>socket := fd\<rparr>"]
    by (auto simp: c2_def live_def write_string_rx)
  obtain r c3 where "sys_read fd 2 c2 = ((r, []), c3)"
    using c2 assms(2) by (auto simp: io_simps split: list.splits rx_event.splits)
  then have r: "agfs_read_cmd p fd cmd_NONE c2 = ((r, betoh (host_endian p) cmd_NONE), c3)"
    by (rule read_int_none)
  show ?thesis
    by (simp add: connect_dialled [OF dialled(1,2) c2_def r] betoh_none close_socket_ok(2))
qed

section \<open>Stopping\<close>

lemma stop_closed:
  assumes "conn_ok c"
  shows "closed (snd (stop p c))" "\<not> connected (snd (stop p c))" "conn_ok (snd (stop p c))"
proof -
  define c1 where "c1 = snd (agfs_write_cmd p (socket c) cmd_STOP c)"
  have c1: "conn_ok c1"
    unfolding c1_def using assms io_frame_conn_ok [OF io_frame_write_int(1)] by blast
  have "conn_ok (snd (close_socket c1))" "\<not> connected (snd (close_socket c1))"
    using close_socket_ok(1) [OF c1] close_socket_ok(2) by auto
  then show "closed (snd (stop p c))" "\<not> connected (snd (stop p c))" "conn_ok (snd (stop p c))"
    using assms
    by (auto simp: stop_def closed_def c1_def split_beta conn_ok_def connected_def)
qed

lemma stop_sent:
  assumes "healthy c"
  shows "tx (snd (stop p c)) = tx c @ be_bytes cmd_STOP" and "fst (stop p c) = 0"
proof -
  have "connected c" using assms by (simp add: healthy_def live_def connected_def)
  then show "tx (snd (stop p c)) = tx c @ be_bytes cmd_STOP" and "fst (stop p c) = 0"
    using assms by (simp_all add: stop_def healthy_def io_simps close_socket_def sys_close_def)
qed

section \<open>Heartbeats\<close>

lemma heartbeat_read:
  assumes "agfs_read_cmd p (socket c) cmd_NONE (snd (agfs_write_cmd p (socket c) cmd_HEARTBEAT c)) =
     ((r, resp), c')"
  shows "heartbeat p c = (0, if resp = cmd_NONE then snd (close_socket c') else c')"
  using assms by (auto simp: heartbeat_def split_beta Let_def)

lemma heartbeat_conn_ok:
  assumes "conn_ok c"
  shows "conn_ok (snd (heartbeat p c))"
proof -
  define c1 where "c1 = snd (agfs_write_cmd p (socket c) cmd_HEARTBEAT c)"
  obtain r resp c2 where r: "agfs_read_cmd p (socket c) cmd_NONE c1 = ((r, resp), c2)"
    by (metis prod.exhaust)
  have "io_frame c c1" and "io_frame c1 c2"
    using r io_frame_read_int(1) [of c1 p "socket c" cmd_NONE]
    by (simp_all add: c1_def io_frame_write_int)
  then have "conn_ok c2" using assms io_frame_conn_ok by blast
  then show ?thesis
    using heartbeat_read [of p c r resp c2] r close_socket_ok(1) [of c2] by (simp add: c1_def)
qed

lemma heartbeat_answered:
  assumes "healthy c" and "rx c = rx_push (be_bytes cmd_HEARTBEAT) evs"
  shows "heartbeat p c = (0, c\<lparr>rx := evs, tx := tx c @ be_bytes cmd_HEARTBEAT\<rparr>)"
  using assms by (simp add: heartbeat_def healthy_def io_simps cmd_defs)

text \<open>
  What the thread finds when no answer comes: the variable that held \<^verbatim>\<open>NONE\<close>, with its bytes
  in host order taken for network order.
\<close>

definition silent :: "'a connection_scheme \<Rightarrow> bool" where
  "silent c \<longleftrightarrow> (case rx c of [] \<Rightarrow> True | RxErr e # evs \<Rightarrow> True | _ \<Rightarrow> False)"

lemma bswap_none: "bswap cmd_NONE = 0x0B00"
  by (simp add: cmd_NONE_def bswap_def le_bytes_def upt_rec)

lemma heartbeat_silent:
  assumes "connected c" and "conn_ok c" and "silent c"
  shows "connected (snd (heartbeat p c)) \<longleftrightarrow> host_endian p = LittleEndian"
    and "fst (heartbeat p c) = 0"
proof -
  define c1 where "c1 = snd (agfs_write_cmd p (socket c) cmd_HEARTBEAT c)"
  have f: "io_frame c c1" by (simp add: c1_def io_frame_write_int)
  have c1: "live (socket c) c1" "silent c1"
    using io_frame_live [OF f, of "socket c"] live_connected [OF assms(2)] assms(1,3)
    by (simp_all add: c1_def silent_def)
  obtain n c2 where c2: "sys_read (socket c) 2 c1 = ((n, []), c2)"
    using c1 by (auto simp: io_simps silent_def split: list.splits rx_event.splits)
  then have r: "agfs_read_cmd p (socket c) cmd_NONE c1 = ((n, betoh (host_endian p) cmd_NONE), c2)"
    by (rule read_int_none)
  have "connected c2"
    using io_frame_connected [OF f] io_frame_connected [OF io_frame_read, of "socket c" 2 c1] c2 assms(1)
    by simp
  moreover have "betoh (host_endian p) cmd_NONE = cmd_NONE \<longleftrightarrow> host_endian p = BigEndian"
    using bswap_none by (cases "host_endian p") (simp_all add: cmd_NONE_def)
  ultimately show "connected (snd (heartbeat p c)) \<longleftrightarrow> host_endian p = LittleEndian"
    using heartbeat_read [of p c] r close_socket_ok(2)
    by (cases "host_endian p") (simp_all add: c1_def)
  show "fst (heartbeat p c) = 0"
    using heartbeat_read [of p c] r by (simp add: c1_def)
qed

section \<open>Without a connection\<close>

text \<open>
  On a descriptor that is not valid every read fails, and the error variables keep the 0 they
  were initialised with: the operations report success.
\<close>

lemma dead_reads:
  assumes "\<not> live fd s"
  shows "agfs_read_error p fd 0 s = ((-1, 0), s\<lparr>errno := EBADF\<rparr>)"
    and "agfs_read_size p fd 0 s = ((-1, 0), s\<lparr>errno := EBADF\<rparr>)"
    and "snd (fst (agfs_read_stat p fd s)) = zero_stat"
  using read_int_none(3,4) [of fd s "-1" "s\<lparr>errno := EBADF\<rparr>" p 0]
    read_obj_none [of fd s "-1" "s\<lparr>errno := EBADF\<rparr>" p "uninit p :: agdev_t"] assms
  by (simp_all add: sys_read_dead agfs_read_stat_def)

lemma io_frame_dead: "io_frame c c' \<Longrightarrow> conn_ok c \<Longrightarrow> \<not> connected c \<Longrightarrow> \<not> live (socket c) c'"
  using io_frame_live live_connected by blast

lemma getattr_disconnected:
  assumes "conn_ok c" and "\<not> connected c"
  shows "fst (getattr p path c) = (zero_stat, 0)"
proof -
  define c1 where "c1 = snd (agfs_write_string p (socket c) (c_string path)
      (snd (agfs_write_cmd p (socket c) cmd_GETATTR c)))"
  have f: "io_frame c c1"
    unfolding c1_def by (intro frame_chain frame_chain_items io_frame_refl)
  note dead = io_frame_dead [OF f assms]
  have "agfs_read_error p (socket c) 0 c1 = ((-1, 0), c1\<lparr>errno := EBADF\<rparr>)"
    using dead_reads(1) [OF dead] .
  moreover have "snd (fst (agfs_read_stat p (socket c) (c1\<lparr>errno := EBADF\<rparr>))) = zero_stat"
    using dead by (intro dead_reads) simp
  ultimately show ?thesis
    using f by (simp add: getattr_def c1_def split_beta)
qed

lemma open_disconnected:
  assumes "conn_ok c" and "\<not> connected c"
  shows "fst (open_file p path flags c) = 0"
proof -
  define c1 where "c1 = snd (agfs_write_mask p (socket c) flags
      (snd (agfs_write_string p (socket c) (c_string path)
        (snd (agfs_write_cmd p (socket c) cmd_OPEN c)))))"
  have f: "io_frame c c1"
    unfolding c1_def by (intro frame_chain frame_chain_items io_frame_refl)
  show ?thesis
    using dead_reads(1) [OF io_frame_dead [OF f assms], of p]
    by (simp add: open_file_def c1_def split_beta)
qed

lemma readdir_disconnected:
  assumes "conn_ok c" and "\<not> connected c"
  shows "map_option fst (readdir p path c) = Some ([], 0)"
proof -
  define c1 where "c1 = snd (agfs_write_string p (socket c) (c_string path)
      (snd (agfs_write_cmd p (socket c) cmd_READDIR c)))"
  have f: "io_frame c c1"
    unfolding c1_def by (intro frame_chain frame_chain_items io_frame_refl)
  note dead = io_frame_dead [OF f assms]
  have "agfs_read_size p (socket c) 0 (c1\<lparr>errno := EBADF\<rparr>) = ((-1, 0), c1\<lparr>errno := EBADF\<rparr>)"
    using dead_reads(2) [of "socket c" "c1\<lparr>errno := EBADF\<rparr>" p] dead by simp
  then show ?thesis
    using dead_reads(1) [OF dead, of p] f
    by (simp add: readdir_def c1_def split_beta)
qed

section \<open>Properties\<close>

text \<open>An object that has no connection, one that has, and a network that answers at once.\<close>

definition idle_client :: server_connection where
  "idle_client = \<lparr>rx = [], wx = [], tx = [], sock_open = False, errno = 0, socket = -1,
     sc_failedCommand = False, sc_connectionStopped = False, sc_hostname = ''h1'',
     sc_port = ''80'', sc_key = ''K'', sc_closed = False\<rparr>"

definition open_client :: server_connection where
  "open_client = idle_client\<lparr>sock_open := True, socket := 3\<rparr>"

definition answering :: "cmd_t \<Rightarrow> network" where
  "answering resp host port = \<lparr>dial_getaddrinfo = 0, dial_socket = 4, dial_connect = 0,
     dial_rx = [Seg (be_bytes resp)], dial_wx = []\<rparr>"

lemma client_simps [simp]:
  "conn_ok idle_client" "\<not> connected idle_client" "conn_ok open_client" "connected open_client"
  "healthy open_client" "rx open_client = []" "tx open_client = []" "wx open_client = []"
  "sc_key idle_client = ''K''" "sc_hostname open_client = ''h1''" "network_ok (answering resp)"
  by (simp_all add: conn_ok_def connected_def idle_client_def open_client_def healthy_def live_def
        network_ok_def answering_def)

text \<open>C33: The handshake: on a network that lets the client connect, the key is sent, and the
  object ends up connected exactly if the server's answer is \<^verbatim>\<open>ACCEPT\<close>; in every case the
  descriptor is valid exactly if the socket is open, and what follows the answer is still
  there to read.\<close>

theorem connect_handshake:
  assumes "network_ok net" and "conn_ok c" and "\<not> connected c"
    and "d = net (sc_hostname c) (sc_port c)"
    and "dial_getaddrinfo d = 0" and "dial_socket d \<noteq> - 1" and "dial_connect d \<noteq> - 1"
    and "dial_wx d = []" and "dial_rx d = rx_push (be_bytes resp) evs"
    and "length (sc_key c) \<le> MAX_RW" and "c' = connect p net c"
  shows "tx c' = string_enc (sc_key c) \<and> (connected c' \<longleftrightarrow> resp = cmd_ACCEPT) \<and> conn_ok c' \<and> rx c' = evs"
  using connect_answered [OF assms(1,4-10), of p] connect_conn_ok [OF assms(1-3), of p] assms(11) by simp

theorem connect_handshake_witness:
  "connected (connect x86 (answering cmd_ACCEPT) idle_client) \<and>
   \<not> connected (connect ppc (answering cmd_INVALID_KEY) idle_client) \<and>
   \<not> sock_open (connect ppc (answering cmd_INVALID_KEY) idle_client)"
proof -
  have push: "[Seg (be_bytes resp)] = rx_push (be_bytes resp) []" for resp :: cmd_t
    using be_bytes_nonempty [of resp] by (simp add: rx_push_def)
  have go: "connected (connect p (answering resp) idle_client) = (resp = cmd_ACCEPT) \<and>
      conn_ok (connect p (answering resp) idle_client)" for p resp
    using connect_handshake [of "answering resp" idle_client _ resp "[]" _ p]
    by (simp add: answering_def push MAX_RW_def)
  show ?thesis
    using go [of x86 cmd_ACCEPT] go [of ppc cmd_INVALID_KEY] by (auto simp: cmd_defs conn_ok_def)
qed

text \<open>Whatever the network does, \<^verbatim>\<open>connect\<close> leaves a valid descriptor exactly if the socket
  is open (none is leaked or used after it was closed); and when the server sends nothing, or
  the time-out strikes first, there is no connection.\<close>

theorem connect_safe:
  assumes "network_ok net" and "conn_ok c" and "\<not> connected c"
  shows "conn_ok (connect p net c) \<and>
    ((case dial_rx (net (sc_hostname c) (sc_port c)) of
        [] \<Rightarrow> True | RxErr e # evs \<Rightarrow> True | _ \<Rightarrow> False) \<longrightarrow> \<not> connected (connect p net c))"
  using connect_conn_ok [OF assms] connect_silent [OF assms(1)] by blast

theorem connect_safe_witness:
  "\<not> connected (connect x86 (\<lambda>host port. (answering cmd_ACCEPT host port)\<lparr>dial_rx := [RxErr EAGAIN]\<rparr>) idle_client)"
proof -
  have "network_ok (\<lambda>host port. (answering cmd_ACCEPT host port)\<lparr>dial_rx := [RxErr EAGAIN]\<rparr>)"
    by (simp add: network_ok_def answering_def)
  from connect_safe [OF this, of idle_client x86] show ?thesis by simp
qed

text \<open>C34: The file operations never touch the connection itself: whatever arrives, the descriptor,
  the validity of the descriptor, the flag of \<^verbatim>\<open>stop\<close> and the server's name are what they
  were, also after an answer that the client cannot make sense of.\<close>

theorem rpc_keeps_connection:
  assumes "c' \<in> {snd (getattr p path c), snd (access p path m c), snd (open_file p path m c),
              snd (writeFile p path off buf c)} \<union>
            snd ` set_option (readdir p path c) \<union> snd ` set_option (readFile p path sz off c)"
  shows "connected c' = connected c \<and> conn_ok c' = conn_ok c \<and> sc_closed c' = sc_closed c \<and>
         sc_hostname c' = sc_hostname c \<and> prefix (tx c) (tx c')"
proof -
  consider (getattr) r where "Some (getattr p path c) = Some (r, c')"
    | (access) r where "Some (access p path m c) = Some (r, c')"
    | (open_file) r where "Some (open_file p path m c) = Some (r, c')"
    | (writeFile) r where "Some (writeFile p path off buf c) = Some (r, c')"
    | (readdir) r where "readdir p path c = Some (r, c')"
    | (readFile) r where "readFile p path sz off c = Some (r, c')"
    using assms by (auto simp: image_iff) (metis prod.collapse)+
  then show ?thesis
    by cases (rule getattr.op_keeps access.op_keeps open_file.op_keeps writeFile.op_keeps
        readdir.op_keeps readFile.op_keeps, assumption)+
qed

theorem rpc_keeps_connection_witness:
  "connected (snd (getattr x86 ''/f'' (open_client\<lparr>rx := [Seg [1, 2], RxErr EAGAIN]\<rparr>)))"
  using rpc_keeps_connection [of "snd (getattr x86 ''/f'' (open_client\<lparr>rx := [Seg [1, 2], RxErr EAGAIN]\<rparr>))"
      x86 "''/f''" "open_client\<lparr>rx := [Seg [1, 2], RxErr EAGAIN]\<rparr>"]
  by (simp add: open_client_def connected_def)

text \<open>C36: A heartbeat that gets no answer closes the connection on a big-endian host only: on a
  little-endian one the failed read leaves the marker \<^verbatim>\<open>NONE\<close> in the variable with its bytes
  swapped, the test does not find it, and the dead connection is kept. The call reports
  success in both cases.\<close>

theorem heartbeat_timeout:
  assumes "connected c" and "conn_ok c"
    and "case rx c of [] \<Rightarrow> True | RxErr e # evs \<Rightarrow> True | _ \<Rightarrow> False"
  shows "(connected (snd (heartbeat p c)) \<longleftrightarrow> host_endian p = LittleEndian) \<and> fst (heartbeat p c) = 0"
  using heartbeat_silent [OF assms(1,2), of p] assms(3) by (simp add: silent_def)

theorem heartbeat_timeout_witness:
  "connected (snd (heartbeat x86 (open_client\<lparr>rx := [RxErr EAGAIN]\<rparr>))) \<and>
   \<not> connected (snd (heartbeat ppc (open_client\<lparr>rx := [RxErr EAGAIN]\<rparr>)))"
proof -
  have c: "connected (open_client\<lparr>rx := [RxErr EAGAIN]\<rparr>)" "conn_ok (open_client\<lparr>rx := [RxErr EAGAIN]\<rparr>)"
    by (simp_all add: open_client_def idle_client_def connected_def conn_ok_def)
  show ?thesis
    using heartbeat_timeout [OF c, of x86] heartbeat_timeout [OF c, of ppc] by simp
qed



text \<open>\<^verbatim>\<open>stop\<close> marks the object closed, closes the socket and forgets the descriptor, whatever
  the state of the socket; on a socket that works the server is told.\<close>

theorem stop_closes:
  assumes "conn_ok c"
  shows "closed (snd (stop p c)) \<and> \<not> connected (snd (stop p c)) \<and> \<not> sock_open (snd (stop p c)) \<and>
         (healthy c \<longrightarrow> tx (snd (stop p c)) = tx c @ be_bytes cmd_STOP \<and> fst (stop p c) = 0)"
  using stop_closed [OF assms, of p] stop_sent [of c p] by (auto simp: conn_ok_def)

theorem stop_closes_witness:
  "\<not> sock_open (snd (stop x86 open_client)) \<and> tx (snd (stop x86 open_client)) = be_bytes cmd_STOP"
  using stop_closes [of open_client x86] by simp

end
