(* ===== verification/StdStream.thy ===== *)
theory StdStream
  imports Platform
begin

text \<open>
  \<^verbatim>\<open>std::fstream\<close> opened for reading, and \<^verbatim>\<open>operator>>\<close> into a string, as the program
  uses them for the key files: leading white space is skipped, the word up to the next white
  space is extracted, and a stream that is not good leaves the string as it was.
\<close>

record istream =
  is_rest :: string
  is_eof :: bool
  is_fail :: bool

text \<open>The stream after \<^verbatim>\<open>open\<close>: \<open>None\<close> is a file that could not be opened.\<close>

definition open_istream :: "string option \<Rightarrow> istream" where
  "open_istream content =
     (case content of
        None \<Rightarrow> \<lparr>is_rest = [], is_eof = False, is_fail = True\<rparr>
      | Some s \<Rightarrow> \<lparr>is_rest = s, is_eof = False, is_fail = False\<rparr>)"

text \<open>White space of the C locale.\<close>

definition is_space :: "char \<Rightarrow> bool" where
  "is_space c \<longleftrightarrow> c \<in> {CHR 0x20, CHR 0x09, CHR 0x0A, CHR 0x0B, CHR 0x0C, CHR 0x0D}"

definition stream_get :: "istream \<Rightarrow> string \<Rightarrow> istream \<times> string" where
  "stream_get st old =
     (if is_eof st \<or> is_fail st then (st\<lparr>is_fail := True\<rparr>, old)
      else
        (let r = dropWhile is_space (is_rest st) in
         if r = [] then (st\<lparr>is_rest := [], is_eof := True, is_fail := True\<rparr>, old)
         else
           (let w = takeWhile (\<lambda>c. \<not> is_space c) r;
                r = dropWhile (\<lambda>c. \<not> is_space c) r
            in (st\<lparr>is_rest := r, is_eof := (r = [])\<rparr>, w))))"

text \<open>A word that one extraction returns whole.\<close>

definition word_ok :: "string \<Rightarrow> bool" where
  "word_ok w \<longleftrightarrow> w \<noteq> [] \<and> (\<forall>c \<in> set w. \<not> is_space c)"

lemma stream_get_word:
  assumes "word_ok w" and "is_space c" and "\<forall>x \<in> set ws. is_space x"
  shows "stream_get \<lparr>is_rest = ws @ w @ c # rest, is_eof = False, is_fail = False\<rparr> old =
           (\<lparr>is_rest = c # rest, is_eof = False, is_fail = False\<rparr>, w)"
proof -
  have "dropWhile is_space (w @ c # rest) = w @ c # rest"
    using assms(1) by (cases w) (auto simp: word_ok_def)
  then have "dropWhile is_space (ws @ w @ c # rest) = w @ c # rest"
    using assms(3) by (simp add: dropWhile_append2)
  moreover have "takeWhile (\<lambda>c. \<not> is_space c) (w @ c # rest) = w"
    and "dropWhile (\<lambda>c. \<not> is_space c) (w @ c # rest) = c # rest"
    using assms(1,2) by (simp_all add: word_ok_def takeWhile_append2 dropWhile_append2)
  ultimately show ?thesis
    using assms(1) by (simp add: stream_get_def word_ok_def)
qed

lemma stream_get_end:
  "\<forall>x \<in> set ws. is_space x \<Longrightarrow>
     stream_get \<lparr>is_rest = ws, is_eof = False, is_fail = False\<rparr> old =
       (\<lparr>is_rest = [], is_eof = True, is_fail = True\<rparr>, old)"
  by (simp add: stream_get_def)

lemma stream_get_failed: "is_fail st \<Longrightarrow> stream_get st old = (st, old)"
  by (cases st) (simp add: stream_get_def)

lemma stream_get_at_eof: "is_eof st \<Longrightarrow> stream_get st old = (st\<lparr>is_fail := True\<rparr>, old)"
  by (simp add: stream_get_def)

text \<open>An opened stream gets shorter or reaches its end, and fails only there.\<close>

definition stream_ok :: "istream \<Rightarrow> bool" where
  "stream_ok st \<longleftrightarrow> (is_fail st \<longrightarrow> is_eof st)"

lemma stream_get_ok: "stream_ok st \<Longrightarrow> stream_ok (fst (stream_get st old))"
  by (simp add: stream_get_def stream_ok_def Let_def)

lemma stream_get_le: "length (is_rest (fst (stream_get st old))) \<le> length (is_rest st)"
  using length_dropWhile_le [of is_space "is_rest st"]
    length_dropWhile_le [of "\<lambda>c. \<not> is_space c" "dropWhile is_space (is_rest st)"]
  by (simp add: stream_get_def Let_def)

lemma stream_get_less:
  assumes "stream_ok st" and "\<not> is_eof (fst (stream_get st old))"
  shows "length (is_rest (fst (stream_get st old))) < length (is_rest st)"
proof -
  have good: "\<not> is_eof st" "\<not> is_fail st"
    using assms by (auto simp: stream_get_def stream_ok_def)
  let ?r = "dropWhile is_space (is_rest st)"
  have r: "?r \<noteq> []"
  proof
    assume "?r = []"
    then have "is_eof (fst (stream_get st old))"
      using good by (simp add: stream_get_def)
    with assms(2) show False ..
  qed
  then have "\<not> is_space (hd ?r)"
    by (rule hd_dropWhile)
  then have "length (dropWhile (\<lambda>c. \<not> is_space c) ?r) < length ?r"
    using r length_dropWhile_le [of "\<lambda>c. \<not> is_space c" "tl ?r"] by (cases ?r) auto
  moreover have "length ?r \<le> length (is_rest st)"
    by (rule length_dropWhile_le)
  ultimately show ?thesis
    using good r by (auto simp: stream_get_def Let_def)
qed

end
