(* ===== verification/ClientConnection.thy ===== *)
theory ClientConnection
  imports Protocol StdStream
begin

text \<open>
  \<^verbatim>\<open>agfs-server.cpp\<close>: the server's end of a connection, in the process that was forked for
  it. The operating system below it (files, directories, the password file) is a parameter:
  a record of functions on a state that the connection carries along, each of which may
  change that state, so that other processes may act on the files between two calls.
  A failing call returns its errno; \<open>None\<close> from one of the Boost functions is the exception
  they throw, which nothing catches. \<open>None\<close> from an operation of the class is the end of the
  process: an uncaught exception or a failed allocation whose size came from the network.
\<close>

record 'h os =
  path_append :: "string \<Rightarrow> string \<Rightarrow> string"
  os_lstat :: "string \<Rightarrow> 'h \<Rightarrow> (int + stat) \<times> 'h"
  os_access :: "string \<Rightarrow> agmask_t \<Rightarrow> 'h \<Rightarrow> (int + unit) \<times> 'h"
  os_exists :: "string \<Rightarrow> 'h \<Rightarrow> bool option \<times> 'h"
  os_is_directory :: "string \<Rightarrow> 'h \<Rightarrow> bool option \<times> 'h"
  os_listdir :: "string \<Rightarrow> 'h \<Rightarrow> string list option \<times> 'h"
  os_open :: "string \<Rightarrow> agmask_t \<Rightarrow> 'h \<Rightarrow> (int + int) \<times> 'h"
  os_lseek :: "int \<Rightarrow> agsize_t \<Rightarrow> 'h \<Rightarrow> (int + agsize_t) \<times> 'h"
  os_read :: "int \<Rightarrow> nat \<Rightarrow> 'h \<Rightarrow> (int + byte list) \<times> 'h"
  os_write :: "int \<Rightarrow> byte list \<Rightarrow> 'h \<Rightarrow> (int + nat) \<times> 'h"
  os_close :: "int \<Rightarrow> 'h \<Rightarrow> (int + unit) \<times> 'h"
  os_read_file :: "string \<Rightarrow> 'h \<Rightarrow> string option \<times> 'h"
  os_getpwnam :: "string \<Rightarrow> 'h \<Rightarrow> (nat \<times> nat) option \<times> 'h"

record 'h client_connection = connection +
  cc_mountPoint :: string
  cc_beatsMissed :: int
  cc_host :: 'h
  cc_uid :: nat
  cc_gid :: nat

section \<open>Calls on the operating system\<close>

text \<open>A call that fails leaves its error in errno.\<close>

definition os_call ::
  "('h \<Rightarrow> (int + 'a) \<times> 'h) \<Rightarrow> 'h client_connection \<Rightarrow> 'a option \<times> 'h client_connection" where
  "os_call f c =
     (case f (cc_host c) of
        (Inl e, h) \<Rightarrow> (None, c\<lparr>cc_host := h, errno := e\<rparr>)
      | (Inr a, h) \<Rightarrow> (Some a, c\<lparr>cc_host := h\<rparr>))"

definition os_query ::
  "('h \<Rightarrow> 'a \<times> 'h) \<Rightarrow> 'h client_connection \<Rightarrow> 'a \<times> 'h client_connection" where
  "os_query f c = (case f (cc_host c) of (a, h) \<Rightarrow> (a, c\<lparr>cc_host := h\<rparr>))"

definition c_lstat ::
  "'h os \<Rightarrow> string \<Rightarrow> stat \<Rightarrow> 'h client_connection \<Rightarrow> (int \<times> stat) \<times> 'h client_connection" where
  "c_lstat os path buf c =
     (let (r, c) = os_call (os_lstat os path) c
      in (case r of None \<Rightarrow> ((-1, buf), c) | Some st \<Rightarrow> ((0, st), c)))"

definition c_access ::
  "'h os \<Rightarrow> string \<Rightarrow> agmask_t \<Rightarrow> 'h client_connection \<Rightarrow> int \<times> 'h client_connection" where
  "c_access os path m c =
     (let (r, c) = os_call (os_access os path m) c
      in (case r of None \<Rightarrow> (-1, c) | Some _ \<Rightarrow> (0, c)))"

definition c_open ::
  "'h os \<Rightarrow> string \<Rightarrow> agmask_t \<Rightarrow> 'h client_connection \<Rightarrow> int \<times> 'h client_connection" where
  "c_open os path flags c =
     (let (r, c) = os_call (os_open os path flags) c
      in (case r of None \<Rightarrow> (-1, c) | Some fd \<Rightarrow> (fd, c)))"

definition c_lseek ::
  "'h os \<Rightarrow> int \<Rightarrow> agsize_t \<Rightarrow> 'h client_connection \<Rightarrow> 'h client_connection" where
  "c_lseek os fd off c = snd (os_call (os_lseek os fd off) c)"

definition c_read ::
  "'h os \<Rightarrow> int \<Rightarrow> nat \<Rightarrow> 'h client_connection \<Rightarrow> (int \<times> byte list) \<times> 'h client_connection" where
  "c_read os fd n c =
     (let (r, c) = os_call (os_read os fd n) c
      in (case r of None \<Rightarrow> ((-1, []), c)
          | Some bs \<Rightarrow> ((int (length (take n bs)), take n bs), c)))"

definition c_write ::
  "'h os \<Rightarrow> int \<Rightarrow> byte list \<Rightarrow> 'h client_connection \<Rightarrow> int \<times> 'h client_connection" where
  "c_write os fd bs c =
     (let (r, c) = os_call (os_write os fd bs) c
      in (case r of None \<Rightarrow> (-1, c) | Some n \<Rightarrow> (int n, c)))"

definition c_close :: "'h os \<Rightarrow> int \<Rightarrow> 'h client_connection \<Rightarrow> 'h client_connection" where
  "c_close os fd c =
     (if fd < 0 then c\<lparr>errno := EBADF\<rparr> else snd (os_call (os_close os fd) c))"

definition O_RDONLY :: agmask_t where "O_RDONLY = 0"
definition O_WRONLY :: agmask_t where "O_WRONLY = 1"

section \<open>Accepting a client\<close>

text \<open>
  The loop over the key list. A list that could not be opened never reaches its end, so the
  loop does not end either unless a key matches at once: the function is partial.
\<close>

partial_function (option) key_loop ::
  "string \<Rightarrow> istream \<Rightarrow> string \<Rightarrow> string \<Rightarrow> string \<Rightarrow> (bool \<times> string \<times> string) option" where
  "key_loop clientKey authkeys mountPath user serverKey =
     (if is_eof authkeys then Some (False, mountPath, user)
      else
        (let (authkeys, mountPath) = stream_get authkeys mountPath;
             (authkeys, user) = stream_get authkeys user;
             (authkeys, serverKey) = stream_get authkeys serverKey
         in if serverKey = clientKey then Some (True, mountPath, user)
            else key_loop clientKey authkeys mountPath user serverKey))"

text \<open>
  \<^verbatim>\<open>setuid\<close> and \<^verbatim>\<open>setgid\<close> of a process whose real, effective and saved ids agree: the
  super-user may take any id, another process only the one it has.
\<close>

definition c_setuid :: "nat \<Rightarrow> 'h client_connection \<Rightarrow> int \<times> 'h client_connection" where
  "c_setuid uid c =
     (if cc_uid c = 0 \<or> uid = cc_uid c then (0, c\<lparr>cc_uid := uid\<rparr>)
      else (-1, c\<lparr>errno := EPERM\<rparr>))"

definition c_setgid :: "nat \<Rightarrow> 'h client_connection \<Rightarrow> int \<times> 'h client_connection" where
  "c_setgid gid c =
     (if cc_uid c = 0 \<or> gid = cc_gid c then (0, c\<lparr>cc_gid := gid\<rparr>)
      else (-1, c\<lparr>errno := EPERM\<rparr>))"

text \<open>
  \<open>c\<close> is the forked process when the constructor starts: it holds the accepted socket
  \<open>connfd\<close>; the members are not set yet.
\<close>

definition reject ::
  "plat \<Rightarrow> int \<Rightarrow> cmd_t \<Rightarrow> 'h client_connection \<Rightarrow> 'h client_connection" where
  "reject p connfd cmd c =
     (let (r, c) = agfs_write_cmd p connfd cmd c;
          (r, c) = sys_close connfd c
      in c\<lparr>socket := -1\<rparr>)"

definition new_client_connection ::
  "'h os \<Rightarrow> plat \<Rightarrow> int \<Rightarrow> 'h client_connection \<Rightarrow> 'h client_connection option" where
  "new_client_connection os p connfd c = do {
     ((r, clientKey), c) \<leftarrow> agfs_read_string p connfd '''' c;
     let (content, c) = os_query (os_read_file os KEY_LIST_PATH) c;
     (validKey, mountPath, user) \<leftarrow> key_loop clientKey (open_istream content) '''' '''' '''';
     if \<not> validKey then Some (reject p connfd cmd_INVALID_KEY c)
     else do {
       let (userPwd, c) = os_query (os_getpwnam os user) c;
       case userPwd of
         None \<Rightarrow> Some (reject p connfd cmd_USER_NOT_FOUND c)
       | Some (pw_uid, pw_gid) \<Rightarrow> do {
           let (r, c) = c_setuid pw_uid c;
           let (r, c) = c_setgid pw_gid c;
           let (found, c) = os_query (os_exists os mountPath) c;
           found \<leftarrow> found;
           if \<not> found then Some (reject p connfd cmd_MOUNT_NOT_FOUND c)
           else Some (c\<lparr>socket := connfd, cc_mountPoint := mountPath, cc_beatsMissed := 0\<rparr>) } } }"

section \<open>The handlers\<close>

definition processHeartbeat :: "plat \<Rightarrow> 'h client_connection \<Rightarrow> 'h client_connection" where
  "processHeartbeat p c = snd (agfs_write_cmd p (socket c) cmd_HEARTBEAT c)"

definition processGetAttr ::
  "'h os \<Rightarrow> plat \<Rightarrow> 'h client_connection \<Rightarrow> 'h client_connection option" where
  "processGetAttr os p c = do {
     ((r, path), c) \<leftarrow> agfs_read_string p (socket c) '''' c;
     let file = path_append os (cc_mountPoint c) path;
     let ((error, retValue), c) = c_lstat os file zero_stat c;
     let error = word_of_int (if error < 0 then - errno c else error);
     let (r, c) = agfs_write_error p (socket c) error c;
     Some (if \<not> neg_err error then snd (agfs_write_stat p (socket c) retValue c) else c) }"

definition processAccess ::
  "'h os \<Rightarrow> plat \<Rightarrow> 'h client_connection \<Rightarrow> 'h client_connection option" where
  "processAccess os p c = do {
     ((r, path), c) \<leftarrow> agfs_read_string p (socket c) '''' c;
     let file = path_append os (cc_mountPoint c) path;
     let ((r, msk), c) = agfs_read_mask p (socket c) (uninit p) c;
     let (result, c) = c_access os file msk c;
     Some (snd (agfs_write_error p (socket c) (word_of_int result) c)) }"

text \<open>The second pass over the directory: each name is sent, then its metadata.\<close>

fun readdir_loop ::
  "'h os \<Rightarrow> plat \<Rightarrow> string \<Rightarrow> string list \<Rightarrow> 'h client_connection \<Rightarrow> 'h client_connection" where
  "readdir_loop os p file [] c = c"
| "readdir_loop os p file (name # names) c =
     (let (r, c) = agfs_write_string p (socket c) name c;
          ((r, stbuf), c) = c_lstat os (path_append os file name) zero_stat c;
          (r, c) = agfs_write_stat p (socket c) stbuf c
      in readdir_loop os p file names c)"

definition processReaddir ::
  "'h os \<Rightarrow> plat \<Rightarrow> 'h client_connection \<Rightarrow> 'h client_connection option" where
  "processReaddir os p c = do {
     ((r, path), c) \<leftarrow> agfs_read_string p (socket c) '''' c;
     let file = path_append os (cc_mountPoint c) path;
     let (found, c) = os_query (os_exists os file) c;
     found \<leftarrow> found;
     let error = (if \<not> found then word_of_int (- ENOENT) else (0 :: agerr_t));
     let (isdir, c) = os_query (os_is_directory os file) c;
     isdir \<leftarrow> isdir;
     let error = (if \<not> isdir then word_of_int (- ENOTDIR) else error);
     let (r, c) = agfs_write_error p (socket c) error c;
     if \<not> neg_err error then do {
       let (names, c) = os_query (os_listdir os file) c;
       names \<leftarrow> names;
       let (r, c) = agfs_write_size p (socket c) (word_of_nat (length names)) c;
       let (names, c) = os_query (os_listdir os file) c;
       names \<leftarrow> names;
       Some (readdir_loop os p file names c) }
     else Some c }"

lemma c_read_bounds:
  "c_read os fd n c = ((r, bs), c') \<Longrightarrow> length bs \<le> n \<and> (0 < r \<longleftrightarrow> bs \<noteq> [])"
  by (auto simp: c_read_def Let_def split_beta split: option.splits)

lemma file_read_progress:
  "c_read os fd (sz - length data) c = ((r, bs), c') \<Longrightarrow> 0 < r \<Longrightarrow>
     sz - length (data @ bs) < sz - length data"
  by (drule c_read_bounds) (cases bs; auto)

text \<open>
  The loop that fills the buffer from the file: \<open>data\<close> is what has been read, \<open>error\<close> what
  the last \<^verbatim>\<open>read\<close> returned.
\<close>

function file_read_loop ::
  "'h os \<Rightarrow> int \<Rightarrow> nat \<Rightarrow> byte list \<Rightarrow> int \<Rightarrow> 'h client_connection \<Rightarrow>
     (byte list \<times> int) \<times> 'h client_connection" where
  "file_read_loop os fd sz data error c =
     (if length data = sz then ((data, error), c)
      else (let ((error, bs), c) = c_read os fd (sz - length data) c
            in if 0 < error then file_read_loop os fd sz (data @ bs) error c
               else ((data, error), c)))"
  by pat_completeness auto

termination
  by (relation "measure (\<lambda>(os, fd, sz, data, error, c). sz - length data)")
     (auto dest: file_read_progress [OF sym])

declare file_read_loop.simps [simp del]

definition processRead ::
  "'h os \<Rightarrow> plat \<Rightarrow> 'h client_connection \<Rightarrow> 'h client_connection option" where
  "processRead os p c = do {
     ((r, path), c) \<leftarrow> agfs_read_string p (socket c) '''' c;
     let file = path_append os (cc_mountPoint c) path;
     let ((r, sz), c) = agfs_read_size p (socket c) 0 c;
     let ((r, offset), c) = agfs_read_size p (socket c) 0 c;
     let (fd, c) = c_open os file O_RDONLY c;
     if fd < 0 then Some (snd (agfs_write_error p (socket c) (word_of_int (- errno c)) c))
     else do {
       let c = c_lseek os fd offset c;
       if \<not> alloc_ok p (unat sz) then None
       else do {
         let ((data, error), c) = file_read_loop os fd (unat sz) [] 0 c;
         let error = (if 0 \<le> error then int (length data) else error);
         let (r, c) = agfs_write_error p (socket c) (word_of_int error) c;
         Some (if 0 \<le> error
               then (let (r, c) = agfs_write_size p (socket c) (word_of_nat (length data)) c
                     in snd (sys_write (socket c) data c))
               else c) } } }"

lemma file_write_progress:
  assumes "sys_read fd (sz - n) c = ((r, bs), c')" and "0 < r"
  shows "sz - (n + length bs) < sz - n"
proof (cases rule: sys_read_cases [of fd "sz - n" c])
  case (fail e evs)
  with assms show ?thesis by simp
next
  case (got bs' evs)
  then have "length bs \<le> sz - n" and "0 < length bs"
    using assms by auto
  then show ?thesis by linarith
qed

text \<open>
  The loop that moves the data from the socket to the file. \<open>None\<close> is the return in the
  middle of it, after the error was sent.
\<close>

function file_write_loop ::
  "'h os \<Rightarrow> plat \<Rightarrow> int \<Rightarrow> nat \<Rightarrow> nat \<Rightarrow> nat \<Rightarrow> int \<Rightarrow> 'h client_connection \<Rightarrow>
     (nat \<times> int) option \<times> 'h client_connection" where
  "file_write_loop os p fd sz total_read total_written error c =
     (if total_read = sz then (Some (total_written, error), c)
      else
        (let ((error, bs), c) = sys_read (socket c) (sz - total_read) c
         in if 0 < error then
              (let total_read = total_read + length bs;
                   (error, c) = c_write os fd bs c
               in if 0 < error
                  then file_write_loop os p fd sz total_read (total_written + nat error) error c
                  else (None, snd (agfs_write_error p (socket c) (word_of_int (- errno c)) c)))
            else (Some (total_written, error), c)))"
  by pat_completeness auto

termination
  by (relation "measure (\<lambda>(os, p, fd, sz, n, w, error, c). sz - n)")
     (auto dest: file_write_progress [OF sym])

declare file_write_loop.simps [simp del]

definition processWrite ::
  "'h os \<Rightarrow> plat \<Rightarrow> 'h client_connection \<Rightarrow> 'h client_connection option" where
  "processWrite os p c = do {
     ((r, path), c) \<leftarrow> agfs_read_string p (socket c) '''' c;
     let file = path_append os (cc_mountPoint c) path;
     let (fd, c) = c_open os file O_WRONLY c;
     let error = (if fd < 0 then word_of_int (- errno c) else (0 :: agerr_t));
     let (r, c) = agfs_write_error p (socket c) error c;
     if neg_err error then Some c
     else do {
       let ((r, sz), c) = agfs_read_size p (socket c) 0 c;
       let ((r, offset), c) = agfs_read_size p (socket c) 0 c;
       let c = c_lseek os fd offset c;
       if \<not> alloc_ok p (unat sz) then None
       else
         (case file_write_loop os p fd (unat sz) 0 0 0 c of
            (None, c) \<Rightarrow> Some c
          | (Some (total_written, error), c) \<Rightarrow>
              (let c = c_close os fd c;
                   (r, c) = agfs_write_error p (socket c) (word_of_int error) c
               in Some (if 0 \<le> error
                        then snd (agfs_write_size p (socket c) (word_of_nat total_written) c)
                        else c))) } }"

definition processOpen ::
  "'h os \<Rightarrow> plat \<Rightarrow> 'h client_connection \<Rightarrow> 'h client_connection option" where
  "processOpen os p c = do {
     ((r, path), c) \<leftarrow> agfs_read_string p (socket c) '''' c;
     let file = path_append os (cc_mountPoint c) path;
     let ((r, msk), c) = agfs_read_mask p (socket c) 0 c;
     let (fd, c) = c_open os file msk c;
     let error = (if fd < 0 then word_of_int (- errno c) else (0 :: agerr_t));
     let c = c_close os fd c;
     Some (snd (agfs_write_error p (socket c) error c)) }"

section \<open>Frames\<close>

text \<open>
  What every handler keeps: the descriptor and whether it is open, the members of the class,
  the ids of the process; and what it cannot undo on the socket.
\<close>

definition cc_frame :: "'h client_connection \<Rightarrow> 'h client_connection \<Rightarrow> bool" where
  "cc_frame c c' \<longleftrightarrow> socket c' = socket c \<and> sock_open c' = sock_open c \<and>
     cc_mountPoint c' = cc_mountPoint c \<and> cc_beatsMissed c' = cc_beatsMissed c \<and>
     cc_uid c' = cc_uid c \<and> cc_gid c' = cc_gid c \<and>
     rx_size (rx c') \<le> rx_size (rx c) \<and> prefix (tx c) (tx c')"

lemma cc_frame_refl [simp]: "cc_frame c c"
  by (simp add: cc_frame_def)

lemma cc_frame_trans: "cc_frame c d \<Longrightarrow> cc_frame d e \<Longrightarrow> cc_frame c e"
  by (auto simp: cc_frame_def)

lemma io_frame_cc_frame: "io_frame c c' \<Longrightarrow> cc_frame c c'"
  by (cases c; cases c') (simp add: io_frame_def cc_frame_def)

lemma cc_frame_os_call: "cc_frame c (snd (os_call f c))"
  by (auto simp: os_call_def cc_frame_def split: prod.split sum.split)

lemma cc_frame_os_query: "cc_frame c (snd (os_query f c))"
  by (auto simp: os_query_def cc_frame_def split: prod.split)

lemma cc_frame_file_ops:
  "cc_frame c (snd (c_lstat os path st c))"
  "cc_frame c (snd (c_access os path m c))"
  "cc_frame c (snd (c_open os path m c))"
  "cc_frame c (c_lseek os fd off c)"
  "cc_frame c (snd (c_read os fd n c))"
  "cc_frame c (snd (c_write os fd bs c))"
  "cc_frame c (c_close os fd c)"
  using cc_frame_os_call [of c "os_lstat os path"] cc_frame_os_call [of c "os_access os path m"]
    cc_frame_os_call [of c "os_open os path m"] cc_frame_os_call [of c "os_lseek os fd off"]
    cc_frame_os_call [of c "os_read os fd n"] cc_frame_os_call [of c "os_write os fd bs"]
    cc_frame_os_call [of c "os_close os fd"]
  by (simp_all add: c_lstat_def c_access_def c_open_def c_lseek_def c_read_def c_write_def
        c_close_def Let_def split_beta split: option.split)
     (simp add: cc_frame_def)

text \<open>The rules that follow a chain of operations from its last one.\<close>

lemmas cc_chain =
  cc_frame_trans [OF _ cc_frame_os_query]
  cc_frame_trans [OF _ cc_frame_file_ops(1)] cc_frame_trans [OF _ cc_frame_file_ops(2)]
  cc_frame_trans [OF _ cc_frame_file_ops(3)] cc_frame_trans [OF _ cc_frame_file_ops(4)]
  cc_frame_trans [OF _ cc_frame_file_ops(5)] cc_frame_trans [OF _ cc_frame_file_ops(6)]
  cc_frame_trans [OF _ cc_frame_file_ops(7)]
  cc_frame_trans [OF _ io_frame_cc_frame [OF io_frame_read]]
  cc_frame_trans [OF _ io_frame_cc_frame [OF io_frame_write]]
  cc_frame_trans [OF _ io_frame_cc_frame [OF io_frame_write_int(1)]]
  cc_frame_trans [OF _ io_frame_cc_frame [OF io_frame_write_int(3)]]
  cc_frame_trans [OF _ io_frame_cc_frame [OF io_frame_write_int(4)]]
  cc_frame_trans [OF _ io_frame_cc_frame [OF io_frame_read_int(1)]]
  cc_frame_trans [OF _ io_frame_cc_frame [OF io_frame_read_int(2)]]
  cc_frame_trans [OF _ io_frame_cc_frame [OF io_frame_read_int(3)]]
  cc_frame_trans [OF _ io_frame_cc_frame [OF io_frame_write_string]]
  cc_frame_trans [OF _ io_frame_cc_frame [OF io_frame_write_stat]]

text \<open>
  The same for operations that may end the process, as rules that follow the code from its
  first operation: \<open>keeps c r\<close> says that \<open>r\<close>, if it is a state, has kept what \<open>c\<close> had.
\<close>

definition keeps :: "'h client_connection \<Rightarrow> 'h client_connection option \<Rightarrow> bool" where
  "keeps c r \<longleftrightarrow> (\<forall>c'. r = Some c' \<longrightarrow> cc_frame c c')"

lemma keepsD: "keeps c r \<Longrightarrow> r = Some c' \<Longrightarrow> cc_frame c c'"
  by (simp add: keeps_def)

lemma keeps_read_string:
  assumes "cc_frame c0 c" and "\<And>r str c'. cc_frame c0 c' \<Longrightarrow> keeps c0 (f ((r, str), c'))"
  shows "keeps c0 (agfs_read_string p fd str c \<bind> f)"
proof (cases "agfs_read_string p fd str c")
  case None
  then show ?thesis by (simp add: keeps_def)
next
  case (Some r)
  then obtain n s c' where r: "r = ((n, s), c')" by (metis prod.exhaust)
  have "cc_frame c c'"
    using Some r by (intro io_frame_cc_frame io_frame_read_string) simp
  then show ?thesis
    using assms(1) assms(2) [of c' n s] Some r by (simp add: cc_frame_trans)
qed

lemma keeps_bind: "(\<And>x. keeps c0 (f x)) \<Longrightarrow> keeps c0 (r \<bind> f)"
  by (cases r) (simp_all add: keeps_def)

lemma keeps_case:
  "cc_frame c (snd x) \<Longrightarrow> cc_frame c0 c \<Longrightarrow> (\<And>a c'. cc_frame c0 c' \<Longrightarrow> keeps c0 (f a c')) \<Longrightarrow>
     keeps c0 (case x of (a, c') \<Rightarrow> f a c')"
  by (cases x) (auto intro: cc_frame_trans)

lemma keeps_pair: "(\<And>a b. keeps c0 (f a b c)) \<Longrightarrow> keeps c0 ((case x of (a, b) \<Rightarrow> f a b) c)"
  by (cases x) simp

lemma keeps_if: "(b \<Longrightarrow> keeps c0 x) \<Longrightarrow> (\<not> b \<Longrightarrow> keeps c0 y) \<Longrightarrow> keeps c0 (if b then x else y)"
  by simp

lemma keeps_Some: "cc_frame c0 c \<Longrightarrow> keeps c0 (Some c)"
  by (simp add: keeps_def)

lemma keeps_None: "keeps c0 None"
  by (simp add: keeps_def)

lemma cc_frame_case:
  "cc_frame c (snd x) \<Longrightarrow> cc_frame c0 c \<Longrightarrow> (\<And>a c'. cc_frame c0 c' \<Longrightarrow> cc_frame c0 (f a c')) \<Longrightarrow>
     cc_frame c0 (case x of (a, c') \<Rightarrow> f a c')"
  by (cases x) (auto intro: cc_frame_trans)

lemma cc_frame_if:
  "(b \<Longrightarrow> cc_frame c x) \<Longrightarrow> (\<not> b \<Longrightarrow> cc_frame c y) \<Longrightarrow> cc_frame c (if b then x else y)"
  by simp

lemmas cc_step =
  cc_frame_os_query cc_frame_file_ops
  io_frame_cc_frame [OF io_frame_read] io_frame_cc_frame [OF io_frame_write]
  io_frame_cc_frame [OF io_frame_write_int(1)] io_frame_cc_frame [OF io_frame_write_int(3)]
  io_frame_cc_frame [OF io_frame_write_int(4)] io_frame_cc_frame [OF io_frame_read_int(1)]
  io_frame_cc_frame [OF io_frame_read_int(2)] io_frame_cc_frame [OF io_frame_read_int(3)]
  io_frame_cc_frame [OF io_frame_write_string] io_frame_cc_frame [OF io_frame_write_stat]

lemmas keeps_rules = keeps_if keeps_Some keeps_None keeps_pair keeps_case [OF cc_step(1)]
  keeps_case [OF cc_step(2)] keeps_case [OF cc_step(3)] keeps_case [OF cc_step(4)]
  keeps_case [OF cc_step(6)] keeps_case [OF cc_step(7)] keeps_case [OF cc_step(9)]
  keeps_case [OF cc_step(10)] keeps_case [OF cc_step(11)] keeps_case [OF cc_step(12)]
  keeps_case [OF cc_step(13)] keeps_case [OF cc_step(14)] keeps_case [OF cc_step(15)]
  keeps_case [OF cc_step(16)] keeps_case [OF cc_step(17)] keeps_case [OF cc_step(18)]
  cc_frame_if cc_chain

lemma cc_frame_processHeartbeat: "cc_frame c (processHeartbeat p c)"
  unfolding processHeartbeat_def by (intro cc_chain cc_frame_refl)

lemma keeps_processGetAttr: "keeps c (processGetAttr os p c)"
  unfolding processGetAttr_def Let_def
  by (rule keeps_read_string, simp, simp, (intro keeps_rules | assumption)+)

lemma keeps_processAccess: "keeps c (processAccess os p c)"
  unfolding processAccess_def Let_def
  by (rule keeps_read_string, simp, simp, (intro keeps_rules | assumption)+)

lemma keeps_processOpen: "keeps c (processOpen os p c)"
  unfolding processOpen_def Let_def
  by (rule keeps_read_string, simp, simp, (intro keeps_rules | assumption)+)

lemma cc_frame_readdir_loop: "cc_frame c (readdir_loop os p file names c)"
proof (induction names arbitrary: c)
  case (Cons name names)
  define c1 where "c1 = snd (agfs_write_string p (socket c) name c)"
  define c2 where "c2 = snd (c_lstat os (path_append os file name) zero_stat c1)"
  have "cc_frame c (snd (agfs_write_stat p (socket c2) st c2))" for st
    unfolding c2_def c1_def by (intro cc_chain cc_frame_refl)
  then show ?case
    using Cons by (auto simp: Let_def split_beta c1_def c2_def intro: cc_frame_trans)
qed simp

lemma keeps_processReaddir: "keeps c (processReaddir os p c)"
  unfolding processReaddir_def Let_def
  by (rule keeps_read_string, simp, simp,
      (intro keeps_rules keeps_bind cc_frame_trans [OF _ cc_frame_readdir_loop] | assumption)+)

lemma cc_frame_file_read_loop: "cc_frame c (snd (file_read_loop os fd sz data error c))"
proof (induction os fd sz data error c rule: file_read_loop.induct)
  case (1 os fd sz data error c)
  obtain r bs c' where r: "c_read os fd (sz - length data) c = ((r, bs), c')"
    by (metis prod.exhaust)
  then have "cc_frame c c'"
    using cc_frame_file_ops(5) [of c os fd "sz - length data"] by simp
  then show ?case
    using "1.IH" [OF _ r [symmetric] refl] r
    by (auto simp: file_read_loop.simps [of os fd sz data error c] intro: cc_frame_trans)
qed

lemma keeps_processRead: "keeps c (processRead os p c)"
  unfolding processRead_def Let_def
  by (rule keeps_read_string, simp, simp,
      (intro keeps_rules keeps_case [OF cc_frame_file_read_loop] cc_frame_case [OF cc_step(12)]
        | assumption)+)

lemma cc_frame_file_write_loop: "cc_frame c (snd (file_write_loop os p fd sz n w error c))"
proof (induction os p fd sz n w error c rule: file_write_loop.induct)
  case (1 os p fd sz n w error c)
  obtain r bs c1 where r: "sys_read (socket c) (sz - n) c = ((r, bs), c1)"
    by (metis prod.exhaust)
  obtain e c2 where e: "c_write os fd bs c1 = (e, c2)" by fastforce
  have c1: "cc_frame c c1"
    using cc_frame_trans [OF cc_frame_refl io_frame_cc_frame [OF io_frame_read]] r
    by (metis snd_conv)
  have c2: "cc_frame c c2"
    using cc_frame_trans [OF c1 cc_frame_file_ops(6), of os fd bs] e by simp
  have c3: "cc_frame c (snd (agfs_write_error p (socket c2) x c2))" for x
    using c2 by (intro cc_chain)
  have c4: "cc_frame c (snd (file_write_loop os p fd sz (n + length bs) (w + nat e) e c2))"
    if "n \<noteq> sz" "0 < r" "0 < e"
    using "1.IH" [where ya = bs and yb = c2 and xb = r and xf = e and xc = c1 and y = c1
          and xa = "(r, bs)" and x = "((r, bs), c1)" and xd = "n + length bs" and xe = "(e, c2)"] that r e c2
    by (auto intro: cc_frame_trans)
  show ?case
    using r e c1 c3 c4
    by (auto simp: file_write_loop.simps [of os p fd sz n w error c] Let_def)
qed

lemma keeps_processWrite: "keeps c (processWrite os p c)"
proof -
  have loop: "cc_frame c0 c' \<Longrightarrow> (\<And>d. cc_frame c0 d \<Longrightarrow> keeps c0 (f d)) \<Longrightarrow>
      (\<And>t e d. cc_frame c0 d \<Longrightarrow> keeps c0 (g t e d)) \<Longrightarrow>
      keeps c0 (case file_write_loop os p fd sz n w error c' of
        (None, c) \<Rightarrow> f c | (Some (t, e), c) \<Rightarrow> g t e c)"
    for c0 c' f g fd sz n w error
    using cc_frame_trans [OF _ cc_frame_file_write_loop, of c0 c' os p fd sz n w error]
    by (auto split: prod.split option.split)
  show ?thesis
    unfolding processWrite_def Let_def
    by (rule keeps_read_string, simp, simp, (intro keeps_rules loop | assumption)+)
qed

section \<open>The command loop\<close>

text \<open>The switch over the commands that keep the connection; \<^verbatim>\<open>STOP\<close> is in the loop.\<close>

definition dispatch ::
  "'h os \<Rightarrow> plat \<Rightarrow> cmd_t \<Rightarrow> 'h client_connection \<Rightarrow> 'h client_connection option" where
  "dispatch os p cmd c =
     (if cmd = cmd_HEARTBEAT then Some (processHeartbeat p c)
      else if cmd = cmd_GETATTR then processGetAttr os p c
      else if cmd = cmd_READDIR then processReaddir os p c
      else if cmd = cmd_ACCESS then processAccess os p c
      else if cmd = cmd_READ then processRead os p c
      else if cmd = cmd_WRITE then processWrite os p c
      else if cmd = cmd_OPEN then processOpen os p c
      else Some c)"

text \<open>
  One turn of the loop: the boolean says whether the loop goes on. The command is read into a
  variable that holds \<open>GETATTR\<close>.
\<close>

definition serve_step ::
  "'h os \<Rightarrow> plat \<Rightarrow> 'h client_connection \<Rightarrow> (bool \<times> 'h client_connection) option" where
  "serve_step os p c =
     (let ((respVal, cmd), c) = agfs_read_cmd p (socket c) cmd_GETATTR c
      in if respVal \<le> 0 then
           (let c = c\<lparr>cc_beatsMissed := cc_beatsMissed c + 1\<rparr>
            in if 5 < cc_beatsMissed c then Some (False, snd (close_socket c))
               else Some (True, c))
         else if cmd = cmd_STOP then Some (False, snd (close_socket c))
         else map_option (Pair True) (dispatch os p cmd c))"

lemma keeps_dispatch: "keeps c (dispatch os p cmd c)"
  by (simp add: dispatch_def keeps_processGetAttr keeps_processReaddir keeps_processAccess
        keeps_processRead keeps_processWrite keeps_processOpen keeps_Some cc_frame_processHeartbeat)

lemma read_cmd_less:
  assumes "agfs_read_cmd p fd x c = ((r, cmd), c')" and "0 < r"
  shows "rx_size (rx c') < rx_size (rx c)"
proof -
  obtain bs s' where "sys_read fd 2 c = ((r, bs), s')" and "c' = s'"
    using assms(1) by (auto simp: agfs_read_cmd_def read_obj_def Let_def split_beta)
       (metis prod.collapse)
  then show ?thesis
    using assms(2) by (cases rule: sys_read_cases [of fd 2 c]) auto
qed

text \<open>
  Every turn that goes on either takes something off the socket or counts a missed beat, and
  six of those end the loop.
\<close>

definition serve_measure :: "'h client_connection \<Rightarrow> nat" where
  "serve_measure c = rx_size (rx c) + nat (6 - cc_beatsMissed c)"

lemma serve_step_less:
  assumes "serve_step os p c = Some (True, c')"
  shows "serve_measure c' < serve_measure c"
proof -
  obtain r cmd c1 where r: "agfs_read_cmd p (socket c) cmd_GETATTR c = ((r, cmd), c1)"
    by (metis prod.exhaust)
  have c1: "cc_frame c c1"
    using io_frame_cc_frame [OF io_frame_read_int(1)] r by (metis snd_conv)
  show ?thesis
  proof (cases "r \<le> 0")
    case True
    then have "c' = c1\<lparr>cc_beatsMissed := cc_beatsMissed c1 + 1\<rparr>" and "cc_beatsMissed c1 < 5"
      using assms r by (auto simp: serve_step_def Let_def split: if_splits)
    then show ?thesis
      using c1 by (auto simp: serve_measure_def cc_frame_def)
  next
    case False
    then have less: "rx_size (rx c1) < rx_size (rx c)"
      using read_cmd_less [OF r] by simp
    have "cc_frame c1 c'"
      using assms r False keepsD [OF keeps_dispatch]
      by (auto simp: serve_step_def split: if_splits)
    then show ?thesis
      using c1 less by (auto simp: serve_measure_def cc_frame_def)
  qed
qed

function serve_loop ::
  "'h os \<Rightarrow> plat \<Rightarrow> 'h client_connection \<Rightarrow> 'h client_connection option" where
  "serve_loop os p c =
     (case serve_step os p c of
        None \<Rightarrow> None
      | Some (go_on, c') \<Rightarrow> (if go_on then serve_loop os p c' else Some c'))"
  by pat_completeness auto

termination
  by (relation "measure (\<lambda>(os, p, c). serve_measure c)") (auto dest: serve_step_less)

declare serve_loop.simps [simp del]

definition processCommands ::
  "'h os \<Rightarrow> plat \<Rightarrow> 'h client_connection \<Rightarrow> 'h client_connection option" where
  "processCommands os p c =
     (let (r, c) = agfs_write_cmd p (socket c) cmd_ACCEPT c in serve_loop os p c)"

section \<open>The answers\<close>

lemma live_host [simp]: "live fd (c\<lparr>cc_host := h\<rparr>) = live fd c"
  by (simp add: live_def)

text \<open>
  The state of a server whose socket has just brought a request: \<open>args\<close> are the bytes after
  the command.
\<close>

definition requested ::
  "plat \<Rightarrow> 'h client_connection \<Rightarrow> byte list \<Rightarrow> byte list \<Rightarrow> rx_event list \<Rightarrow> bool" where
  "requested p c args rest evs \<longleftrightarrow> healthy c \<and> rx c = rx_push (args @ rest) evs"

lemma processGetAttr_found:
  assumes "requested p c (string_enc path) rest evs" and "string_ok p path"
    and "os_lstat os (path_append os (cc_mountPoint c) path) (cc_host c) = (Inr st, h)"
  shows "processGetAttr os p c = Some (c\<lparr>rx := rx_push rest evs,
           tx := tx c @ getattr_reply st 0, cc_host := h\<rparr>)"
  using assms
  by (simp add: processGetAttr_def requested_def healthy_def io_simps c_lstat_def os_call_def
        getattr_reply_def)

lemma processGetAttr_failed:
  assumes "requested p c (string_enc path) rest evs" and "string_ok p path"
    and "os_lstat os (path_append os (cc_mountPoint c) path) (cc_host c) = (Inl e, h)"
    and "neg_err (word_of_int (- e))"
  shows "processGetAttr os p c = Some (c\<lparr>rx := rx_push rest evs, errno := e,
           tx := tx c @ getattr_reply zero_stat (word_of_int (- e)), cc_host := h\<rparr>)"
  using assms
  by (simp add: processGetAttr_def requested_def healthy_def io_simps c_lstat_def os_call_def
        getattr_reply_def)

lemma processAccess_answer:
  assumes "requested p c (string_enc path @ be_bytes m) rest evs" and "string_ok p path"
    and "os_access os (path_append os (cc_mountPoint c) path) m (cc_host c) = (r, h)"
  shows "processAccess os p c = Some (c\<lparr>rx := rx_push rest evs,
           errno := (case r of Inl e \<Rightarrow> e | Inr _ \<Rightarrow> errno c),
           tx := tx c @ be_bytes (case r of Inl e \<Rightarrow> (- 1 :: agerr_t) | Inr _ \<Rightarrow> 0), cc_host := h\<rparr>)"
  using assms
  by (cases r)
     (simp_all add: processAccess_def requested_def healthy_def io_simps c_access_def os_call_def)

lemma processOpen_opened:
  assumes "requested p c (string_enc path @ be_bytes m) rest evs" and "string_ok p path"
    and "os_open os (path_append os (cc_mountPoint c) path) m (cc_host c) = (Inr fd, h)"
    and "0 \<le> fd" and "os_close os fd h = (r, h')"
  shows "processOpen os p c = Some (c\<lparr>rx := rx_push rest evs,
           errno := (case r of Inl e \<Rightarrow> e | Inr _ \<Rightarrow> errno c),
           tx := tx c @ be_bytes (0 :: agerr_t), cc_host := h'\<rparr>)"
  using assms
  by (cases r)
     (simp_all add: processOpen_def requested_def healthy_def io_simps c_open_def c_close_def os_call_def)

lemma processOpen_failed:
  assumes "requested p c (string_enc path @ be_bytes m) rest evs" and "string_ok p path"
    and "os_open os (path_append os (cc_mountPoint c) path) m (cc_host c) = (Inl e, h)"
  shows "processOpen os p c = Some (c\<lparr>rx := rx_push rest evs, errno := EBADF,
           tx := tx c @ be_bytes (word_of_int (- e) :: agerr_t), cc_host := h\<rparr>)"
  using assms
  by (simp add: processOpen_def requested_def healthy_def io_simps c_open_def c_close_def os_call_def)

text \<open>The metadata of the entries of a directory, as the second pass finds it.\<close>

fun stat_entries :: "'h os \<Rightarrow> string \<Rightarrow> string list \<Rightarrow> 'h \<Rightarrow> (string \<times> stat) list \<times> 'h" where
  "stat_entries os dir [] h = ([], h)"
| "stat_entries os dir (name # names) h =
     (let (r, h) = os_lstat os (path_append os dir name) h;
          st = (case r of Inl _ \<Rightarrow> zero_stat | Inr st \<Rightarrow> st);
          (es, h) = stat_entries os dir names h
      in ((name, st) # es, h))"

lemma c_lstat_entry:
  "os_lstat os path (cc_host c) = (r, h) \<Longrightarrow>
     \<exists>x e. c_lstat os path zero_stat c =
       ((x, case r of Inl _ \<Rightarrow> zero_stat | Inr st \<Rightarrow> st), c\<lparr>errno := e, cc_host := h\<rparr>)"
  by (cases r; cases c) (auto simp: c_lstat_def os_call_def)

lemma healthy_host [simp]: "healthy (c\<lparr>cc_host := h\<rparr>) = healthy c"
  by (simp add: healthy_def)

text \<open>One order for the updates that the calls leave behind.\<close>

lemma upd_order:
  "c\<lparr>cc_host := h, rx := r\<rparr> = c\<lparr>rx := r, cc_host := h\<rparr>"
  "c\<lparr>cc_host := h, errno := e\<rparr> = c\<lparr>errno := e, cc_host := h\<rparr>"
  "c\<lparr>cc_host := h, tx := t\<rparr> = c\<lparr>tx := t, cc_host := h\<rparr>"
  "c\<lparr>tx := t, rx := r\<rparr> = c\<lparr>rx := r, tx := t\<rparr>"
  "c\<lparr>errno := e, rx := r\<rparr> = c\<lparr>rx := r, errno := e\<rparr>"
  "c\<lparr>tx := t, errno := e\<rparr> = c\<lparr>errno := e, tx := t\<rparr>"
  by (cases c; simp)+

lemma readdir_loop_all:
  assumes "healthy c" and "\<forall>name \<in> set names. length name \<le> MAX_RW"
    and "stat_entries os dir names (cc_host c) = (es, h)"
  shows "\<exists>e. readdir_loop os p dir names c =
           c\<lparr>errno := e, tx := tx c @ concat (map entry_enc es), cc_host := h\<rparr>"
  using assms
proof (induction names arbitrary: c es h)
  case Nil
  then show ?case by (intro exI [of _ "errno c"]) (cases c, simp)
next
  case (Cons name names)
  obtain r h1 where l: "os_lstat os (path_append os dir name) (cc_host c) = (r, h1)" by fastforce
  define st where "st = (case r of Inl _ \<Rightarrow> zero_stat | Inr st \<Rightarrow> st)"
  obtain es1 h2 where e: "stat_entries os dir names h1 = (es1, h2)" by fastforce
  have es: "es = (name, st) # es1" "h = h2"
    using Cons.prems(3) l e by (auto simp: st_def)
  let ?c1 = "c\<lparr>tx := tx c @ string_enc name\<rparr>"
  have w: "agfs_write_string p (socket c) name c = (8 + int (length name), ?c1)"
    using Cons.prems(1,2) by (simp add: healthy_def io_simps)
  obtain x n where cl: "c_lstat os (path_append os dir name) zero_stat ?c1 =
      ((x, st), ?c1\<lparr>errno := n, cc_host := h1\<rparr>)"
    using c_lstat_entry [of os "path_append os dir name" ?c1 r h1] l by (auto simp: st_def)
  let ?c2 = "?c1\<lparr>errno := n, cc_host := h1, tx := tx ?c1 @ stat_enc st\<rparr>"
  have ws: "agfs_write_stat p (socket c) st (?c1\<lparr>errno := n, cc_host := h1\<rparr>) = (44, ?c2)"
    using Cons.prems(1) by (simp add: healthy_def io_simps)
  obtain n' where "readdir_loop os p dir names ?c2 =
      ?c2\<lparr>errno := n', tx := tx ?c2 @ concat (map entry_enc es1), cc_host := h2\<rparr>"
    using Cons.IH [of ?c2 es1 h2] Cons.prems(1,2) e by auto
  then show ?case
    using w cl ws by (intro exI [of _ n']) (simp add: es entry_enc_def [of "(name, st)"] upd_order)
qed

lemma processReaddir_listed:
  assumes "requested p c (string_enc path) rest evs" and "string_ok p path"
    and "dir = path_append os (cc_mountPoint c) path"
    and "os_exists os dir (cc_host c) = (Some True, h1)"
    and "os_is_directory os dir h1 = (Some True, h2)"
    and "os_listdir os dir h2 = (Some counted, h3)"
    and "os_listdir os dir h3 = (Some names, h4)"
    and "stat_entries os dir names h4 = (es, h)"
    and "\<forall>name \<in> set names. length name \<le> MAX_RW"
  shows "\<exists>e. processReaddir os p c = Some (c\<lparr>rx := rx_push rest evs, errno := e,
           tx := tx c @ be_bytes (0 :: agerr_t) @ be_bytes (word_of_nat (length counted) :: agsize_t)
                   @ concat (map entry_enc es), cc_host := h\<rparr>)"
proof -
  let ?c = "c\<lparr>rx := rx_push rest evs, cc_host := h4, tx := tx c @ be_bytes (0 :: agerr_t) @
      be_bytes (word_of_nat (length counted) :: agsize_t)\<rparr>"
  have "healthy ?c" using assms(1) by (simp add: requested_def)
  then obtain e where "readdir_loop os p dir names ?c =
      ?c\<lparr>errno := e, tx := tx ?c @ concat (map entry_enc es), cc_host := h\<rparr>"
    using readdir_loop_all [of ?c names os dir es h p] assms(8,9) by auto
  then show ?thesis
    using assms(1-7)
    by (intro exI [of _ e])
       (simp add: processReaddir_def requested_def healthy_def io_simps os_query_def upd_order)
qed

lemma processReaddir_refused:
  assumes "requested p c (string_enc path) rest evs" and "string_ok p path"
    and "dir = path_append os (cc_mountPoint c) path"
    and "os_exists os dir (cc_host c) = (Some found, h1)"
    and "os_is_directory os dir h1 = (Some False, h2)"
  shows "processReaddir os p c = Some (c\<lparr>rx := rx_push rest evs,
           tx := tx c @ be_bytes (word_of_int (- ENOTDIR) :: agerr_t), cc_host := h2\<rparr>)"
  using assms
  by (simp add: processReaddir_def requested_def healthy_def io_simps os_query_def ENOTDIR_def)

section \<open>Reading and writing a file\<close>

text \<open>
  What the handlers rely on from an open regular file: \<open>view h\<close> is the content and the
  position of the descriptor in the state \<open>h\<close>. A read returns bytes from the position on,
  possibly fewer than asked for, none only at the end; a write puts all its bytes at the
  position, after filling a gap with zeros.
\<close>

type_synonym 'h file_view = "'h \<Rightarrow> (byte list \<times> nat) option"

definition seek_law :: "'h os \<Rightarrow> int \<Rightarrow> 'h file_view \<Rightarrow> bool" where
  "seek_law os fd view \<longleftrightarrow>
     (\<forall>h content pos off. view h = Some (content, pos) \<longrightarrow> unat off < 2 ^ 63 \<longrightarrow>
        (\<exists>h'. os_lseek os fd off h = (Inr off, h') \<and> view h' = Some (content, unat off)))"

definition read_law :: "'h os \<Rightarrow> int \<Rightarrow> 'h file_view \<Rightarrow> bool" where
  "read_law os fd view \<longleftrightarrow>
     (\<forall>h content pos n. view h = Some (content, pos) \<longrightarrow> 0 < n \<longrightarrow>
        (\<exists>bs h'. os_read os fd n h = (Inr bs, h') \<and> length bs \<le> n \<and>
           bs = take (length bs) (drop pos content) \<and> (bs = [] \<longrightarrow> length content \<le> pos) \<and>
           view h' = Some (content, pos + length bs)))"

definition put_at :: "nat \<Rightarrow> byte list \<Rightarrow> byte list \<Rightarrow> byte list" where
  "put_at pos bs content =
     take pos (content @ replicate (pos - length content) 0) @ bs @ drop (pos + length bs) content"

definition write_law :: "'h os \<Rightarrow> int \<Rightarrow> 'h file_view \<Rightarrow> bool" where
  "write_law os fd view \<longleftrightarrow>
     (\<forall>h content pos bs. view h = Some (content, pos) \<longrightarrow>
        (\<exists>h'. os_write os fd bs h = (Inr (length bs), h') \<and>
           view h' = Some (put_at pos bs content, pos + length bs)))"

lemma put_at_length:
  "bs \<noteq> [] \<Longrightarrow> length (put_at pos bs content) = max (length content) (pos + length bs)"
  by (auto simp: put_at_def)

lemma put_at_put_at:
  assumes "a \<noteq> []"
  shows "put_at (pos + length a) b (put_at pos a content) = put_at pos (a @ b) content"
proof -
  have "length (take pos (content @ replicate (pos - length content) 0)) = pos"
    by simp
  then show ?thesis
    by (simp add: put_at_def ac_simps)
qed

lemma c_read_law:
  assumes "read_law os fd view" and "view (cc_host c) = Some (content, pos)" and "0 < n"
  obtains bs h where "c_read os fd n c = ((int (length bs), bs), c\<lparr>cc_host := h\<rparr>)"
    and "length bs \<le> n" and "bs = take (length bs) (drop pos content)"
    and "bs = [] \<Longrightarrow> length content \<le> pos" and "view h = Some (content, pos + length bs)"
proof -
  obtain bs h where "os_read os fd n (cc_host c) = (Inr bs, h)" "length bs \<le> n"
      "bs = take (length bs) (drop pos content)" "bs = [] \<longrightarrow> length content \<le> pos"
      "view h = Some (content, pos + length bs)"
    using assms unfolding read_law_def by blast
  then show thesis
    by (intro that [of bs h]) (auto simp: c_read_def os_call_def)
qed

lemma host_twice [simp]: "c\<lparr>cc_host := a, cc_host := b\<rparr> = c\<lparr>cc_host := b\<rparr>"
  by simp

lemma host_same [simp]: "c\<lparr>cc_host := cc_host c\<rparr> = c"
  by simp

text \<open>The loop gathers the bytes from the position on, until it has them all or the file ends.\<close>

lemma file_read_loop_law:
  assumes "read_law os fd view" and "view (cc_host c) = Some (content, pos)"
    and "length data \<le> sz" and "0 \<le> error"
  shows "\<exists>h error' data'. file_read_loop os fd sz data error c = ((data', error'), c\<lparr>cc_host := h\<rparr>) \<and>
           0 \<le> error' \<and> data' = data @ take (sz - length data) (drop pos content) \<and>
           view h = Some (content, pos + (length data' - length data))"
  using assms
proof (induction os fd sz data error c arbitrary: pos rule: file_read_loop.induct)
  case (1 os fd sz data error c)
  show ?case
  proof (cases "length data = sz")
    case True
    then show ?thesis
      using "1.prems" by (intro exI [of _ "cc_host c"]) (simp add: file_read_loop.simps)
  next
    case False
    then have n: "0 < sz - length data" using "1.prems"(3) by simp
    obtain bs h where r: "c_read os fd (sz - length data) c = ((int (length bs), bs), c\<lparr>cc_host := h\<rparr>)"
      and bs: "length bs \<le> sz - length data" "bs = take (length bs) (drop pos content)"
        "bs = [] \<Longrightarrow> length content \<le> pos" and h: "view h = Some (content, pos + length bs)"
      using c_read_law [OF "1.prems"(1,2) n] by blast
    show ?thesis
    proof (cases "bs = []")
      case True
      then show ?thesis
        using r bs h False
        by (intro exI [of _ h]) (simp add: file_read_loop.simps [of os fd sz data error c])
    next
      case ne: False
      have fits: "length data + length bs \<le> sz" using bs(1) n by linarith
      obtain h' e where loop: "file_read_loop os fd sz (data @ bs) (int (length bs)) (c\<lparr>cc_host := h\<rparr>) =
          (((data @ bs) @ take (sz - length (data @ bs)) (drop (pos + length bs) content), e),
           c\<lparr>cc_host := h, cc_host := h'\<rparr>)" and e: "0 \<le> e"
        and h': "view h' = Some (content, pos + length bs +
           length (take (sz - length (data @ bs)) (drop (pos + length bs) content)))"
        using "1.IH" [OF False r [symmetric] refl refl _ "1.prems"(1), where pos = "pos + length bs"
            and xc = "c\<lparr>cc_host := h\<rparr>"] ne h fits
        by auto
      have "bs @ take (sz - length (data @ bs)) (drop (pos + length bs) content) =
          take (sz - length data) (drop pos content)" (is "?l = _")
      proof -
        have "?l = take (length bs) (drop pos content) @
            take (sz - length data - length bs) (drop (length bs) (drop pos content))"
          using bs(2) by (simp add: add.commute)
        also have "\<dots> = take (length bs + (sz - length data - length bs)) (drop pos content)"
          by (rule take_add [symmetric])
        also have "length bs + (sz - length data - length bs) = sz - length data"
          using bs(1) by simp
        finally show ?thesis .
      qed
      then have eq: "take (sz - length data) (drop pos content) =
          bs @ take (sz - length (data @ bs)) (drop (pos + length bs) content)" by simp
      show ?thesis
        unfolding eq
        using loop e h' r ne False
        by (intro exI [of _ h'] exI [of _ e])
           (simp add: file_read_loop.simps [of os fd sz data error c] add.assoc)
    qed
  qed
qed

lemma processRead_data:
  assumes "requested p c (string_enc path @ be_bytes (sz :: agsize_t) @ be_bytes (off :: agsize_t)) rest evs"
    and "string_ok p path" and "alloc_ok p (unat sz)" and "unat off < 2 ^ 63"
    and "os_open os (path_append os (cc_mountPoint c) path) O_RDONLY (cc_host c) = (Inr fd, h)"
    and "0 \<le> fd" and "view h = Some (content, pos)"
    and "seek_law os fd view" and "read_law os fd view"
    and "data = take (unat sz) (drop (unat off) content)" and "length data \<le> MAX_RW"
  shows "\<exists>h'. processRead os p c = Some (c\<lparr>rx := rx_push rest evs,
             tx := tx c @ read_reply data (word_of_nat (length data)), cc_host := h'\<rparr>) \<and>
           view h' = Some (content, unat off + length data)"
proof -
  obtain h1 where h1: "os_lseek os fd off h = (Inr off, h1)" "view h1 = Some (content, unat off)"
    using assms(4,7,8) unfolding seek_law_def by blast
  let ?c = "c\<lparr>rx := rx_push rest evs, cc_host := h1\<rparr>"
  have "view (cc_host ?c) = Some (content, unat off)" using h1 by simp
  then obtain h' e where loop: "file_read_loop os fd (unat sz) [] 0 ?c = ((data, e), ?c\<lparr>cc_host := h'\<rparr>)"
    and e: "0 \<le> e" and h': "view h' = Some (content, unat off + length data)"
    using file_read_loop_law [OF assms(9), of ?c content "unat off" "[]" "unat sz" 0] assms(10)
    by auto
  have "\<not> neg_err (word_of_nat (length data))"
    using assms(11) by (simp add: sint_length_u64 MAX_RW_def)
  then show ?thesis
    using assms(1-6,11) h1 loop e h'
    by (intro exI [of _ h'])
       (simp add: processRead_def requested_def healthy_def io_simps c_open_def c_lseek_def os_call_def
          read_reply_def upd_order)
qed

lemma processRead_failed:
  assumes "requested p c (string_enc path @ be_bytes (sz :: agsize_t) @ be_bytes (off :: agsize_t)) rest evs"
    and "string_ok p path"
    and "os_open os (path_append os (cc_mountPoint c) path) O_RDONLY (cc_host c) = (Inl e, h)"
    and "neg_err (word_of_int (- e))"
  shows "processRead os p c = Some (c\<lparr>rx := rx_push rest evs, errno := e,
             tx := tx c @ read_reply [] (word_of_int (- e)), cc_host := h\<rparr>)"
  using assms
  by (simp add: processRead_def requested_def healthy_def io_simps c_open_def os_call_def
        read_reply_def upd_order)

text \<open>
  The data of a write may arrive in any pieces; every piece is written where the one before it
  ended.
\<close>

lemma file_write_loop_law:
  assumes "healthy c" and "write_law os fd view" and "view (cc_host c) = Some (content, pos)"
    and "rx c = map Seg segs @ evs" and "[] \<notin> set segs" and "length (concat segs) = sz - n"
    and "n \<le> sz" and "0 \<le> error" and "error \<le> int sz" and "concat segs \<noteq> [] \<or> n = sz"
  shows "\<exists>h error'. file_write_loop os p fd sz n w error c =
             (Some (w + length (concat segs), error'), c\<lparr>rx := evs, cc_host := h\<rparr>) \<and>
           0 \<le> error' \<and> error' \<le> int sz \<and>
           view h = Some (if segs = [] then content else put_at pos (concat segs) content,
                          pos + length (concat segs))"
  using assms
proof (induction os p fd sz n w error c arbitrary: content pos segs rule: file_write_loop.induct)
  case (1 os p fd sz n w error c)
  show ?case
  proof (cases "n = sz")
    case True
    then have "segs = []" using "1.prems"(5,6) by (cases segs) auto
    then show ?thesis
      using "1.prems" True by (intro exI [of _ "cc_host c"]) (simp add: file_write_loop.simps)
  next
    case False
    then have n: "0 < sz - n" "segs \<noteq> []" using "1.prems"(7,10) by auto
    have live: "live (socket c) c" using "1.prems"(1) by (simp add: healthy_def)
    obtain bs segs' where r: "sys_read (socket c) (sz - n) c =
          ((int (length bs), bs), c\<lparr>rx := map Seg segs' @ evs\<rparr>)"
      and bs: "bs \<noteq> []" "length bs \<le> sz - n" "concat segs = bs @ concat segs'" "[] \<notin> set segs'"
      using sys_read_segs [OF live "1.prems"(4,5) n(2,1)] by blast
    obtain h where wr: "os_write os fd bs (cc_host c) = (Inr (length bs), h)"
      and h: "view h = Some (put_at pos bs content, pos + length bs)"
      using "1.prems"(2,3) unfolding write_law_def by blast
    let ?c1 = "c\<lparr>rx := map Seg segs' @ evs\<rparr>"
    let ?c2 = "?c1\<lparr>cc_host := h\<rparr>"
    have w: "c_write os fd bs ?c1 = (int (length bs), ?c2)"
      using wr by (simp add: c_write_def os_call_def)
    have len: "length (concat segs') = sz - (n + length bs)" "n + length bs \<le> sz"
      using bs(2,3) "1.prems"(6) n by auto
    have more: "concat segs' \<noteq> [] \<or> n + length bs = sz"
    proof (rule disjCI)
      assume "n + length bs \<noteq> sz"
      then have "length (concat segs') \<noteq> 0" using len by linarith
      then show "concat segs' \<noteq> []" by simp
    qed
    have ih: "\<exists>h' e. file_write_loop os p fd sz (n + length bs) (w + nat (int (length bs)))
            (int (length bs)) ?c2 =
          (Some (w + nat (int (length bs)) + length (concat segs'), e), ?c2\<lparr>rx := evs, cc_host := h'\<rparr>) \<and>
        0 \<le> e \<and> e \<le> int sz \<and> view h' = Some (if segs' = [] then put_at pos bs content
            else put_at (pos + length bs) (concat segs') (put_at pos bs content),
            pos + length bs + length (concat segs'))"
      by (rule "1.IH" [where ya = bs and yb = ?c2 and xb = "int (length bs)" and xf = "int (length bs)"
          and xc = ?c1 and y = ?c1 and xa = "(int (length bs), bs)" and x = "((int (length bs), bs), ?c1)"
          and xd = "n + length bs" and xe = "(int (length bs), ?c2)"])
         (use False r w bs(1,2,4) len more "1.prems"(1,2) h in \<open>simp_all\<close>)
    then obtain h' e where loop: "file_write_loop os p fd sz (n + length bs) (w + length bs)
          (int (length bs)) ?c2 =
          (Some (w + length bs + length (concat segs'), e), ?c2\<lparr>rx := evs, cc_host := h'\<rparr>)"
      and e: "0 \<le> e" "e \<le> int sz" and h': "view h' = Some (if segs' = [] then put_at pos bs content
            else put_at (pos + length bs) (concat segs') (put_at pos bs content),
            pos + length bs + length (concat segs'))"
      by (simp only: nat_int) blast
    have "(if segs' = [] then put_at pos bs content
           else put_at (pos + length bs) (concat segs') (put_at pos bs content)) =
        put_at pos (concat segs) content"
      using bs(3) by (cases "segs' = []") (simp_all add: put_at_put_at [OF bs(1)])
    then show ?thesis
      using r w loop e h' False bs(1,3) n(2)
      by (intro exI [of _ h'] exI [of _ e])
         (simp add: file_write_loop.simps [of os p fd sz n w error c] add.assoc upd_order)
  qed
qed

lemma processWrite_refused:
  assumes "requested p c (string_enc path) rest evs" and "string_ok p path"
    and "os_open os (path_append os (cc_mountPoint c) path) O_WRONLY (cc_host c) = (Inl e, h)"
    and "neg_err (word_of_int (- e))"
  shows "processWrite os p c = Some (c\<lparr>rx := rx_push rest evs, errno := e,
             tx := tx c @ be_bytes (word_of_int (- e) :: agerr_t), cc_host := h\<rparr>)"
  using assms
  by (simp add: processWrite_def requested_def healthy_def io_simps c_open_def os_call_def
        upd_order)

lemma c_close_host:
  assumes "0 \<le> fd"
  shows "\<exists>e. c_close os fd c = c\<lparr>errno := e, cc_host := snd (os_close os fd (cc_host c))\<rparr>"
proof (cases "os_close os fd (cc_host c)")
  case (Pair r h)
  with assms show ?thesis
    by (cases r; cases c) (auto simp: c_close_def os_call_def)
qed

lemma processWrite_data:
  assumes "requested p c (string_enc path @ be_bytes (word_of_nat (length buf) :: agsize_t) @
             be_bytes (off :: agsize_t)) buf0 evs0"
    and "rx_push buf0 evs0 = map Seg segs @ evs"
    and "string_ok p path" and "concat segs = buf" and "[] \<notin> set segs"
    and "length buf < 2 ^ 63" and "alloc_ok p (length buf)" and "unat off < 2 ^ 63"
    and "os_open os (path_append os (cc_mountPoint c) path) O_WRONLY (cc_host c) = (Inr fd, h)"
    and "0 \<le> fd" and "view h = Some (content, pos)"
    and "seek_law os fd view" and "write_law os fd view"
  shows "\<exists>h1 err e. processWrite os p c = Some (c\<lparr>rx := evs, errno := e,
             tx := tx c @ be_bytes (0 :: agerr_t) @ write_reply (word_of_nat (length buf)) err,
             cc_host := snd (os_close os fd h1)\<rparr>) \<and> \<not> neg_err err \<and>
           view h1 = Some (if buf = [] then content else put_at (unat off) buf content,
                           unat off + length buf)"
proof -
  obtain h0 where h0: "os_lseek os fd off h = (Inr off, h0)" "view h0 = Some (content, unat off)"
    using assms(8,11,12) unfolding seek_law_def by blast
  let ?c = "c\<lparr>rx := map Seg segs @ evs, tx := tx c @ be_bytes (0 :: agerr_t), cc_host := h0\<rparr>"
  have buf: "segs = [] \<longleftrightarrow> buf = []" using assms(4,5) by (cases segs) auto
  have len: "unat (word_of_nat (length buf) :: agsize_t) = length buf"
    using assms(6) by (simp add: unat_of_nat)
  obtain h1 err where loop: "file_write_loop os p fd (length buf) 0 0 0 ?c =
        (Some (length buf, err), ?c\<lparr>rx := evs, cc_host := h1\<rparr>)" and err: "0 \<le> err" "err \<le> int (length buf)"
      and h1: "view h1 = Some (if buf = [] then content else put_at (unat off) buf content,
                 unat off + length buf)"
    using file_write_loop_law [of ?c os fd view content "unat off" segs evs "length buf" 0 0 p 0]
      assms(1,4,5,13) h0 buf by (auto simp: requested_def healthy_def)
  have "sint (word_of_int err :: agerr_t) = err"
    using err assms(6) sint_length_u64 [of "nat err"] by simp
  then have "\<not> neg_err (word_of_int err)"
    using err(1) by simp
  moreover obtain e where "c_close os fd (?c\<lparr>rx := evs, cc_host := h1\<rparr>) =
      ?c\<lparr>rx := evs, errno := e, cc_host := snd (os_close os fd h1)\<rparr>"
    using assms(10) c_close_host [of fd os "?c\<lparr>rx := evs, cc_host := h1\<rparr>"] by (auto simp: upd_order)
  ultimately show ?thesis
    using assms(1,2,3,7,9,10) h0 loop err h1 len
    by (intro exI [of _ h1] exI [of _ "word_of_int err"] exI [of _ e])
       (simp add: processWrite_def requested_def healthy_def io_simps c_open_def
         c_lseek_def os_call_def write_reply_def upd_order)
qed

section \<open>An instance of the parameters\<close>

text \<open>
  A host with one regular file, whose content and position are the state; every path is that
  file, and every path is a directory that holds one entry. The key list has one line.
\<close>

definition file_os :: "(byte list \<times> nat) os" where
  "file_os = \<lparr>
     path_append = (\<lambda>dir path. dir @ path),
     os_lstat = (\<lambda>path h. (Inr (zero_stat\<lparr>st_mode := 0x81A4, st_size := word_of_nat (length (fst h))\<rparr>), h)),
     os_access = (\<lambda>path m h. (Inr (), h)),
     os_exists = (\<lambda>path h. (Some True, h)),
     os_is_directory = (\<lambda>path h. (Some (path = ''/m/''), h)),
     os_listdir = (\<lambda>path h. (Some [''f''], h)),
     os_open = (\<lambda>path flags h. (Inr 5, (fst h, 0))),
     os_lseek = (\<lambda>fd off h. (Inr off, (fst h, unat off))),
     os_read = (\<lambda>fd n h. (Inr (take n (drop (snd h) (fst h))),
        (fst h, snd h + length (take n (drop (snd h) (fst h)))))),
     os_write = (\<lambda>fd bs h. (Inr (length bs), (put_at (snd h) bs (fst h), snd h + length bs))),
     os_close = (\<lambda>fd h. (Inr (), h)),
     os_read_file = (\<lambda>path h. (if path = KEY_LIST_PATH then Some (''/m u K'' @ [CHR 0x0A]) else None, h)),
     os_getpwnam = (\<lambda>user h. (if user = ''u'' then Some (1000, 100) else None, h))\<rparr>"

lemma file_os_simps [simp]:
  "path_append file_os dir path = dir @ path"
  "os_lstat file_os path h = (Inr (zero_stat\<lparr>st_mode := 0x81A4, st_size := word_of_nat (length (fst h))\<rparr>), h)"
  "os_access file_os path m h = (Inr (), h)"
  "os_exists file_os path h = (Some True, h)"
  "os_is_directory file_os path h = (Some (path = ''/m/''), h)"
  "os_listdir file_os path h = (Some [''f''], h)"
  "os_open file_os path m h = (Inr 5, (fst h, 0))"
  "os_close file_os fd h = (Inr (), h)"
  "os_read_file file_os path h = (if path = KEY_LIST_PATH then Some (''/m u K'' @ [CHR 0x0A]) else None, h)"
  "os_getpwnam file_os user h = (if user = ''u'' then Some (1000, 100) else None, h)"
  by (simp_all add: file_os_def)

lemma file_os_laws: "seek_law file_os fd Some" "read_law file_os fd Some" "write_law file_os fd Some"
  by (auto simp: file_os_def seek_law_def read_law_def write_law_def min_def)

text \<open>A server process that serves \<^verbatim>\<open>/m\<close>.\<close>

definition file_server :: "(byte list \<times> nat) client_connection" where
  "file_server = \<lparr>rx = [], wx = [], tx = [], sock_open = True, errno = 0, socket = 3,
     cc_mountPoint = ''/m'', cc_beatsMissed = 0, cc_host = ([10, 20, 30, 40], 0),
     cc_uid = 1000, cc_gid = 100\<rparr>"

lemma file_server_simps [simp]:
  "healthy file_server" "rx file_server = []" "tx file_server = []" "socket file_server = 3"
  "cc_mountPoint file_server = ''/m''" "cc_host file_server = ([10, 20, 30, 40], 0)"
  "cc_beatsMissed file_server = 0" "wx file_server = []" "sock_open file_server"
  by (simp_all add: file_server_def healthy_def live_def)

end
