(* ===== verification/Serving.thy ===== *)
theory Serving
  imports ClientConnection
begin

text \<open>
  The life of a server process, from the key a client sends to the closing of its socket: what
  the loop over the key list finds, what the constructor leaves, what one turn of the command
  loop does with each request, and how the loop ends.
\<close>

section \<open>The key list\<close>

text \<open>A line of the list as \<^verbatim>\<open>agfs-keygen\<close> writes it: mount point, user and key.\<close>

definition NL :: char where "NL = CHR 0x0A"

type_synonym key_entry = "string \<times> string \<times> string"

fun key_line :: "key_entry \<Rightarrow> string" where
  "key_line (mountPath, user, key) = mountPath @ '' '' @ user @ '' '' @ key @ [NL]"

fun entry_ok :: "key_entry \<Rightarrow> bool" where
  "entry_ok (mountPath, user, key) \<longleftrightarrow> word_ok mountPath \<and> word_ok user \<and> word_ok key"

fun has_key :: "string \<Rightarrow> key_entry \<Rightarrow> bool" where
  "has_key clientKey (mountPath, user, key) \<longleftrightarrow> key = clientKey"

lemma space_chars [simp]: "is_space NL" "is_space CHR '' ''"
  by (simp_all add: is_space_def NL_def)

text \<open>One turn of the loop over a well-formed line.\<close>

lemma key_loop_line:
  assumes "entry_ok (m, u, k)" and "\<forall>x \<in> set ws. is_space x"
  shows "key_loop clientKey \<lparr>is_rest = ws @ key_line (m, u, k) @ rest, is_eof = False, is_fail = False\<rparr>
           mountPath user serverKey =
         (if k = clientKey then Some (True, m, u)
          else key_loop clientKey \<lparr>is_rest = NL # rest, is_eof = False, is_fail = False\<rparr> m u k)"
proof -
  have ok: "word_ok m" "word_ok u" "word_ok k" using assms(1) by simp_all
  have m: "stream_get \<lparr>is_rest = ws @ key_line (m, u, k) @ rest, is_eof = False, is_fail = False\<rparr> mountPath =
      (\<lparr>is_rest = CHR '' '' # u @ CHR '' '' # k @ NL # rest, is_eof = False, is_fail = False\<rparr>, m)"
    using stream_get_word [OF ok(1) space_chars(2) assms(2)] by simp
  have u: "stream_get \<lparr>is_rest = CHR '' '' # u @ CHR '' '' # k @ NL # rest, is_eof = False, is_fail = False\<rparr> user =
      (\<lparr>is_rest = CHR '' '' # k @ NL # rest, is_eof = False, is_fail = False\<rparr>, u)"
    using stream_get_word [OF ok(2) space_chars(2), of "'' ''"] by simp
  have k: "stream_get \<lparr>is_rest = CHR '' '' # k @ NL # rest, is_eof = False, is_fail = False\<rparr> serverKey =
      (\<lparr>is_rest = NL # rest, is_eof = False, is_fail = False\<rparr>, k)"
    using stream_get_word [OF ok(3) space_chars(1), of "'' ''"] by simp
  show ?thesis
    using m u k by (subst key_loop.simps) simp
qed

text \<open>After the last line the variables keep their values once more, and the stream ends.\<close>

lemma key_loop_end:
  assumes "\<forall>x \<in> set ws. is_space x" and "serverKey \<noteq> clientKey"
  shows "key_loop clientKey \<lparr>is_rest = ws, is_eof = False, is_fail = False\<rparr> mountPath user serverKey =
           Some (False, mountPath, user)"
proof -
  have "key_loop clientKey \<lparr>is_rest = [], is_eof = True, is_fail = True\<rparr> mountPath user serverKey =
      Some (False, mountPath, user)"
    by (subst key_loop.simps) simp
  then show ?thesis
    using assms by (subst key_loop.simps) (simp add: stream_get_end stream_get_failed)
qed

lemma key_loop_entries:
  assumes "\<forall>e \<in> set entries. entry_ok e" and "\<forall>x \<in> set ws. is_space x" and "entries \<noteq> [] \<or> serverKey \<noteq> clientKey"
  shows "key_loop clientKey
           \<lparr>is_rest = ws @ concat (map key_line entries), is_eof = False, is_fail = False\<rparr>
           mountPath user serverKey =
         (case find (has_key clientKey) entries of
            Some (m, u, k) \<Rightarrow> Some (True, m, u)
          | None \<Rightarrow> (case last ((mountPath, user, serverKey) # entries) of (m, u, k) \<Rightarrow> Some (False, m, u)))"
  using assms
proof (induction entries arbitrary: ws mountPath user serverKey)
  case Nil
  then show ?case by (simp add: key_loop_end)
next
  case (Cons e entries)
  obtain m u k where e: "e = (m, u, k)" by (metis prod.exhaust)
  show ?case
  proof (cases "k = clientKey")
    case True
    then show ?thesis
      using Cons.prems key_loop_line [of m u k ws clientKey "concat (map key_line entries)"]
      by (simp add: e cong: option.case_cong)
  next
    case False
    have "key_loop clientKey
        \<lparr>is_rest = [NL] @ concat (map key_line entries), is_eof = False, is_fail = False\<rparr> m u k =
      (case find (has_key clientKey) entries of
         Some (m, u, k) \<Rightarrow> Some (True, m, u)
       | None \<Rightarrow> (case last ((m, u, k) # entries) of (m, u, k) \<Rightarrow> Some (False, m, u)))"
      using Cons.prems False by (intro Cons.IH) (simp_all add: e)
    then show ?thesis
      using Cons.prems False key_loop_line [of m u k ws clientKey "concat (map key_line entries)"]
      by (simp add: e cong: option.case_cong)
  qed
qed

text \<open>On a file that was opened the loop returns, whatever the file holds.\<close>

lemma key_loop_returns:
  assumes "stream_ok st"
  shows "\<exists>r. key_loop clientKey st mountPath user serverKey = Some r"
  using assms
proof (induction "length (is_rest st)" arbitrary: st mountPath user serverKey rule: less_induct)
  case less
  obtain st1 m where 1: "stream_get st mountPath = (st1, m)" by fastforce
  obtain st2 u where 2: "stream_get st1 user = (st2, u)" by fastforce
  obtain st3 k where 3: "stream_get st2 serverKey = (st3, k)" by fastforce
  have ok: "stream_ok st1" "stream_ok st2" "stream_ok st3"
    using less.prems 1 2 3 stream_get_ok by (metis fst_conv)+
  have turn: "key_loop clientKey st mountPath user serverKey =
      (if is_eof st then Some (False, mountPath, user)
       else if k = clientKey then Some (True, m, u) else key_loop clientKey st3 m u k)"
    using 1 2 3 by (subst key_loop.simps) simp
  show ?case
  proof (cases "is_eof st3")
    case True
    then have "key_loop clientKey st3 m u k = Some (False, m, u)"
      by (subst key_loop.simps) simp
    with turn show ?thesis by auto
  next
    case False
    have "length (is_rest st3) < length (is_rest st)"
      using stream_get_less [OF ok(2), of serverKey] stream_get_le [of st1 user]
        stream_get_le [of st mountPath] 1 2 3 False by simp
    from less.hyps [OF this ok(3)] turn show ?thesis by auto
  qed
qed

text \<open>On a file that could not be opened it never does, unless the client sent no key.\<close>

lemma key_loop_diverges:
  assumes "serverKey \<noteq> clientKey"
  shows "key_loop clientKey (open_istream None) mountPath user serverKey = None"
proof -
  have "st = open_istream None \<longrightarrow> k \<noteq> ck \<longrightarrow> False"
    if "key_loop ck st m u k = Some r" for ck st m u k r
    by (rule key_loop.raw_induct [where P = "\<lambda>ck st m u k r. st = open_istream None \<longrightarrow> k \<noteq> ck \<longrightarrow> False",
          OF _ that])
       (auto simp: open_istream_def stream_get_failed split: if_splits)
  then show ?thesis
    using assms by (metis option.exhaust)
qed

section \<open>The constructor\<close>

lemma open_entries:
  "open_istream (Some (concat (map key_line entries))) =
     \<lparr>is_rest = [] @ concat (map key_line entries), is_eof = False, is_fail = False\<rparr>"
  by (simp add: open_istream_def)

lemma key_loop_listed:
  assumes "\<forall>e \<in> set entries. entry_ok e" and "entries \<noteq> [] \<or> clientKey \<noteq> ''''"
  shows "key_loop clientKey (open_istream (Some (concat (map key_line entries)))) '''' '''' '''' =
         (case find (has_key clientKey) entries of
            Some (m, u, k) \<Rightarrow> Some (True, m, u)
          | None \<Rightarrow> (case last (('''', '''', '''') # entries) of (m, u, k) \<Rightarrow> Some (False, m, u)))"
  unfolding open_entries using assms by (intro key_loop_entries) auto

lemma reject_sent:
  assumes "live connfd c" and "wx c = []"
  shows "reject p connfd cmd c = c\<lparr>tx := tx c @ be_bytes cmd, sock_open := False, socket := -1\<rparr>"
  using assms by (simp add: reject_def io_simps sys_close_def)

lemma reject_closed:
  assumes "0 \<le> connfd"
  shows "\<not> sock_open (reject p connfd cmd c)" "\<not> connected (reject p connfd cmd c)"
proof -
  obtain r c1 where w: "agfs_write_cmd p connfd cmd c = (r, c1)" by fastforce
  show "\<not> sock_open (reject p connfd cmd c)" "\<not> connected (reject p connfd cmd c)"
    using assms w by (auto simp: reject_def sys_close_def live_def connected_def)
qed

text \<open>
  The state of a process that was forked for the descriptor \<open>connfd\<close>, whose client sends
  \<open>key\<close>.
\<close>

definition greeted :: "int \<Rightarrow> string \<Rightarrow> rx_event list \<Rightarrow> 'h client_connection \<Rightarrow> bool" where
  "greeted connfd key evs c \<longleftrightarrow>
     live connfd c \<and> wx c = [] \<and> rx c = rx_push (string_enc key) evs"

lemma live_host' [simp]: "live fd (c\<lparr>cc_uid := u\<rparr>) = live fd c" "live fd (c\<lparr>cc_gid := g\<rparr>) = live fd c"
  by (simp_all add: live_def)

lemma greeted_read:
  assumes "greeted connfd key evs c" and "string_ok p key"
  shows "agfs_read_string p connfd str c = Some ((8 + int (length key), key), c\<lparr>rx := evs\<rparr>)"
  using assms read_string_push [of connfd c key "[]" evs p str] by (simp add: greeted_def)

lemma greeted_live:
  "greeted connfd key evs c \<Longrightarrow> live connfd c" "greeted connfd key evs c \<Longrightarrow> wx c = []"
  by (simp_all add: greeted_def)

lemma constructor_invalid:
  assumes "greeted connfd key evs c" and "string_ok p key" and "key \<noteq> ''''"
    and "os_read_file os KEY_LIST_PATH (cc_host c) = (Some (concat (map key_line entries)), h)"
    and "\<forall>e \<in> set entries. entry_ok e" and "find (has_key key) entries = None"
  shows "new_client_connection os p connfd c = Some (c\<lparr>rx := evs,
           tx := tx c @ be_bytes cmd_INVALID_KEY, sock_open := False, socket := -1, cc_host := h\<rparr>)"
proof -
  obtain m u k where "last (('''', '''', '''') # entries) = (m, u, k)" by (metis prod.exhaust)
  then have "key_loop key (open_istream (Some (concat (map key_line entries)))) '''' '''' '''' =
      Some (False, m, u)"
    using key_loop_listed [of entries key] assms(3,5,6) by simp
  then show ?thesis
    using assms(1,2,4) by (simp add: new_client_connection_def greeted_read greeted_live os_query_def
        reject_sent)
qed

lemma key_loop_found:
  assumes "\<forall>e \<in> set entries. entry_ok e" and "find (has_key key) entries = Some (m, u, k)"
  shows "key_loop key (open_istream (Some (concat (map key_line entries)))) '''' '''' '''' = Some (True, m, u)"
  using key_loop_listed [of entries key] assms by (cases entries) auto

lemma constructor_no_user:
  assumes "greeted connfd key evs c" and "string_ok p key"
    and "os_read_file os KEY_LIST_PATH (cc_host c) = (Some (concat (map key_line entries)), h)"
    and "\<forall>e \<in> set entries. entry_ok e" and "find (has_key key) entries = Some (m, u, k)"
    and "os_getpwnam os u h = (None, h1)"
  shows "new_client_connection os p connfd c = Some (c\<lparr>rx := evs,
           tx := tx c @ be_bytes cmd_USER_NOT_FOUND, sock_open := False, socket := -1, cc_host := h1\<rparr>)"
  using assms by (simp add: new_client_connection_def greeted_read greeted_live os_query_def
        reject_sent key_loop_found)

text \<open>
  The ids that the two calls leave: the group is set after the user, when the process may not
  be allowed to any more.
\<close>

definition gid_after :: "nat \<Rightarrow> nat \<Rightarrow> 'h client_connection \<Rightarrow> nat" where
  "gid_after uid gid c = (if uid = 0 then gid else cc_gid c)"

lemma constructor_accepted:
  assumes "greeted connfd key evs c" and "string_ok p key"
    and "os_read_file os KEY_LIST_PATH (cc_host c) = (Some (concat (map key_line entries)), h)"
    and "\<forall>e \<in> set entries. entry_ok e" and "find (has_key key) entries = Some (m, u, k)"
    and "os_getpwnam os u h = (Some (uid, gid), h1)" and "os_exists os m h1 = (Some True, h2)"
    and "cc_uid c = 0"
  shows "\<exists>e. new_client_connection os p connfd c = Some (c\<lparr>rx := evs, errno := e, socket := connfd,
           cc_mountPoint := m, cc_beatsMissed := 0, cc_host := h2, cc_uid := uid,
           cc_gid := gid_after uid gid c\<rparr>)"
  using assms
  by (cases c)
     (auto simp: new_client_connection_def greeted_read greeted_live os_query_def
        key_loop_found c_setuid_def c_setgid_def gid_after_def)

text \<open>
  Whatever the network does: a process that comes out of the constructor connected has read a
  key that is on the list, and serves the mount point listed with it.
\<close>

lemma constructor_safe:
  assumes "new_client_connection os p connfd c = Some c'" and "connected c'" and "0 \<le> connfd"
    and "os_read_file os KEY_LIST_PATH (cc_host c) = (Some (concat (map key_line entries)), h)"
    and "\<forall>e \<in> set entries. entry_ok e" and "entries \<noteq> []"
  shows "\<exists>m u k r s. (m, u, k) \<in> set entries \<and> agfs_read_string p connfd '''' c = Some ((r, k), s) \<and>
           cc_mountPoint c' = m \<and> fst (os_getpwnam os u h) \<noteq> None"
proof -
  obtain r key s where read: "agfs_read_string p connfd '''' c = Some ((r, key), s)"
    using assms(1) by (cases "agfs_read_string p connfd '''' c") (auto simp: new_client_connection_def)
  have "cc_frame c s"
    using read by (intro io_frame_cc_frame io_frame_read_string)
  have host: "cc_host s = cc_host c"
    using io_frame_read_string [OF read] by (cases c; cases s) (simp add: io_frame_def)
  obtain v m u where loop:
    "key_loop key (open_istream (Some (concat (map key_line entries)))) '''' '''' '''' = Some (v, m, u)"
    using key_loop_returns [of "open_istream (Some (concat (map key_line entries)))"]
    by (force simp: stream_ok_def open_istream_def)
  have v: v
    using assms(1,2) read loop host assms(4) reject_closed(2) [OF assms(3)]
    by (auto simp: new_client_connection_def os_query_def split: if_splits)
  then obtain k where found: "find (has_key key) entries = Some (m, u, k)"
    using key_loop_listed [of entries key] loop assms(5,6)
    by (cases "find (has_key key) entries") (auto split: prod.splits)
  then have k: "(m, u, k) \<in> set entries" "k = key"
    by (metis find_Some_iff has_key.simps nth_mem)+
  have "fst (os_getpwnam os u h) \<noteq> None \<and> cc_mountPoint c' = m"
    using assms(1,2) read loop host assms(4) reject_closed(2) [OF assms(3)] v
    by (auto simp: new_client_connection_def os_query_def bind_eq_Some_conv c_setuid_def c_setgid_def
          split: if_splits option.splits prod.splits)
  with k read show ?thesis by blast
qed

section \<open>One turn of the command loop\<close>

lemma requested_cmd:
  assumes "healthy c" and "rx c = rx_push (be_bytes cmd @ args @ rest) evs"
  shows "agfs_read_cmd p (socket c) x c = ((2, cmd), c\<lparr>rx := rx_push (args @ rest) evs\<rparr>)"
    and "requested p (c\<lparr>rx := rx_push (args @ rest) evs\<rparr>) args rest evs"
  using assms by (simp_all add: healthy_def requested_def io_simps)

lemma serve_step_cmd:
  assumes "healthy c" and "rx c = rx_push (be_bytes cmd @ args) evs" and "cmd \<noteq> cmd_STOP"
  shows "serve_step os p c = map_option (Pair True) (dispatch os p cmd (c\<lparr>rx := rx_push args evs\<rparr>))"
  using assms requested_cmd(1) [of c cmd args "[]" evs p cmd_GETATTR]
  by (simp add: serve_step_def)

lemma dispatch_cmd:
  "dispatch os p cmd_HEARTBEAT c = Some (processHeartbeat p c)"
  "dispatch os p cmd_GETATTR c = processGetAttr os p c"
  "dispatch os p cmd_READDIR c = processReaddir os p c"
  "dispatch os p cmd_ACCESS c = processAccess os p c"
  "dispatch os p cmd_READ c = processRead os p c"
  "dispatch os p cmd_WRITE c = processWrite os p c"
  "dispatch os p cmd_OPEN c = processOpen os p c"
  by (simp_all add: dispatch_def cmd_defs)

lemma cmd_not_stop:
  "cmd_HEARTBEAT \<noteq> cmd_STOP" "cmd_GETATTR \<noteq> cmd_STOP" "cmd_READDIR \<noteq> cmd_STOP"
  "cmd_ACCESS \<noteq> cmd_STOP" "cmd_READ \<noteq> cmd_STOP" "cmd_WRITE \<noteq> cmd_STOP" "cmd_OPEN \<noteq> cmd_STOP"
  by (simp_all add: cmd_defs)

lemma serve_step_heartbeat:
  assumes "healthy c" and "rx c = rx_push (be_bytes cmd_HEARTBEAT) evs"
  shows "serve_step os p c = Some (True, c\<lparr>rx := evs, tx := tx c @ be_bytes cmd_HEARTBEAT\<rparr>)"
  using serve_step_cmd [of c cmd_HEARTBEAT "[]" evs os p] assms
  by (simp add: cmd_not_stop dispatch_cmd processHeartbeat_def healthy_def io_simps)

lemma serve_step_stop:
  assumes "healthy c" and "rx c = rx_push (be_bytes cmd_STOP) evs"
  shows "serve_step os p c = Some (False, c\<lparr>rx := evs, sock_open := False, socket := -1\<rparr>)"
  using requested_cmd(1) [of c cmd_STOP "[]" "[]" evs p cmd_GETATTR] assms
  by (simp add: serve_step_def close_socket_def sys_close_def healthy_def)

lemma serve_step_timeout:
  assumes "healthy c" and "rx c = RxErr e # evs"
  shows "serve_step os p c =
     (if 5 \<le> cc_beatsMissed c
      then Some (False, c\<lparr>rx := evs, sock_open := False, errno := e, socket := -1,
             cc_beatsMissed := cc_beatsMissed c + 1\<rparr>)
      else Some (True, c\<lparr>rx := evs, errno := e, cc_beatsMissed := cc_beatsMissed c + 1\<rparr>))"
proof -
  have "sys_read (socket c) 2 c = ((-1, []), c\<lparr>rx := evs, errno := e\<rparr>)"
    using assms by (intro sys_read_timeout) (simp_all add: healthy_def)
  then have "agfs_read_cmd p (socket c) cmd_GETATTR c =
      ((-1, betoh (host_endian p) cmd_GETATTR), c\<lparr>rx := evs, errno := e\<rparr>)"
    by (rule read_int_none)
  then show ?thesis
    using assms(1)
    by (cases c) (simp add: serve_step_def close_socket_def sys_close_def healthy_def live_def)
qed

section \<open>The end of the loop\<close>

lemma serve_step_stopped:
  assumes "serve_step os p c = Some (False, c')" and "conn_ok c"
  shows "\<not> connected c' \<and> conn_ok c'"
proof -
  obtain r cmd c1 where r: "agfs_read_cmd p (socket c) cmd_GETATTR c = ((r, cmd), c1)"
    by (metis prod.exhaust)
  have c1: "conn_ok c1"
    using io_frame_conn_ok [OF io_frame_read_int(1)] r assms(2) by (metis snd_conv)
  have c1': "conn_ok (c1\<lparr>cc_beatsMissed := n\<rparr>)" for n
    using c1 by (simp add: conn_ok_def connected_def)
  show ?thesis
    using assms(1) r close_socket_ok(1) [OF c1] close_socket_ok(1) [OF c1'] close_socket_ok(2)
    by (auto simp: serve_step_def Let_def split: if_splits)
qed

lemma cc_frame_conn_ok: "cc_frame c c' \<Longrightarrow> conn_ok c' = conn_ok c"
  by (simp add: cc_frame_def conn_ok_def connected_def)

lemma serve_step_conn_ok:
  assumes "serve_step os p c = Some (True, c')" and "conn_ok c"
  shows "conn_ok c'"
proof -
  obtain r cmd c1 where r: "agfs_read_cmd p (socket c) cmd_GETATTR c = ((r, cmd), c1)"
    by (metis prod.exhaust)
  have c1: "conn_ok c1"
    using io_frame_conn_ok [OF io_frame_read_int(1)] r assms(2) by (metis snd_conv)
  have c1': "conn_ok (c1\<lparr>cc_beatsMissed := n\<rparr>)" for n
    using c1 by (simp add: conn_ok_def connected_def)
  show ?thesis
    using assms(1) r c1 c1' keepsD [OF keeps_dispatch, of os p cmd c1] cc_frame_conn_ok
    by (auto simp: serve_step_def Let_def split: if_splits)
qed

text \<open>However the loop ends, it ends with the socket closed.\<close>

lemma serve_loop_closed:
  assumes "conn_ok c" and "serve_loop os p c = Some c'"
  shows "\<not> connected c' \<and> conn_ok c'"
  using assms
proof (induction os p c rule: serve_loop.induct)
  case (1 os p c)
  then obtain go c1 where s: "serve_step os p c = Some (go, c1)"
    by (cases "serve_step os p c") (auto simp: serve_loop.simps [of os p c])
  show ?case
  proof (cases go)
    case True
    then show ?thesis
      using 1 s serve_step_conn_ok [of os p c c1] by (auto simp: serve_loop.simps [of os p c])
  next
    case False
    then show ?thesis
      using 1 s serve_step_stopped [of os p c c1] by (auto simp: serve_loop.simps [of os p c])
  qed
qed

lemma processCommands_closed:
  assumes "conn_ok c" and "processCommands os p c = Some c'"
  shows "\<not> connected c' \<and> \<not> sock_open c'"
proof -
  define c1 where "c1 = snd (agfs_write_cmd p (socket c) cmd_ACCEPT c)"
  have "conn_ok c1"
    using assms(1) io_frame_conn_ok [OF io_frame_write_int(1)] unfolding c1_def by blast
  moreover have "serve_loop os p c1 = Some c'"
    using assms(2) by (simp add: processCommands_def c1_def split_beta)
  ultimately show ?thesis
    using serve_loop_closed [of c1 os p c'] by (auto simp: conn_ok_def)
qed

text \<open>
  A client that only beats: \<open>True\<close> is a heartbeat that arrives, \<open>False\<close> a time-out. The beats
  that were missed are never forgotten: after the sixth one the connection is closed, however
  many heartbeats came in between.
\<close>

fun beat_event :: "bool \<Rightarrow> rx_event" where
  "beat_event True = Seg (be_bytes cmd_HEARTBEAT)"
| "beat_event False = RxErr EAGAIN"

definition beats_answered :: "bool list \<Rightarrow> byte list" where
  "beats_answered bs = concat (map (\<lambda>b. be_bytes cmd_HEARTBEAT) (filter (\<lambda>b. b) bs))"

lemma beats_answered_simps [simp]:
  "beats_answered [] = []"
  "beats_answered (True # bs) = be_bytes cmd_HEARTBEAT @ beats_answered bs"
  "beats_answered (False # bs) = beats_answered bs"
  by (simp_all add: beats_answered_def)

lemma serve_loop_beats:
  assumes "healthy c" and "rx c = map beat_event bs @ RxErr EAGAIN # evs"
    and "cc_beatsMissed c + int (length (filter Not bs)) = 5"
  shows "\<exists>c'. serve_loop os p c = Some c' \<and> \<not> connected c' \<and> \<not> sock_open c' \<and>
           cc_beatsMissed c' = 6 \<and> rx c' = evs \<and> tx c' = tx c @ beats_answered bs"
  using assms
proof (induction bs arbitrary: c)
  case Nil
  then have "serve_step os p c = Some (False, c\<lparr>rx := evs, sock_open := False, errno := EAGAIN,
      socket := -1, cc_beatsMissed := cc_beatsMissed c + 1\<rparr>)"
    using serve_step_timeout [of c EAGAIN evs os p] by simp
  with Nil show ?case
    by (simp add: serve_loop.simps [of os p c] connected_def)
next
  case (Cons b bs)
  show ?case
  proof (cases b)
    case True
    let ?c = "c\<lparr>rx := map beat_event bs @ RxErr EAGAIN # evs, tx := tx c @ be_bytes cmd_HEARTBEAT\<rparr>"
    have "be_bytes cmd_HEARTBEAT \<noteq> []"
      by (rule be_bytes_nonempty) simp
    then have "serve_step os p c = Some (True, ?c)"
      using Cons.prems True by (intro serve_step_heartbeat) (simp_all add: rx_push_def)
    with Cons.IH [of ?c] Cons.prems True show ?thesis
      by (simp add: serve_loop.simps [of os p c])
  next
    case False
    let ?c = "c\<lparr>rx := map beat_event bs @ RxErr EAGAIN # evs, errno := EAGAIN,
        cc_beatsMissed := cc_beatsMissed c + 1\<rparr>"
    have "serve_step os p c = Some (True, ?c)"
      using Cons.prems False serve_step_timeout [of c EAGAIN _ os p] by simp
    moreover have "healthy ?c"
      using Cons.prems(1) by (simp add: healthy_def live_def)
    ultimately show ?thesis
      using Cons.IH [of ?c] Cons.prems False
      by (simp add: serve_loop.simps [of os p c])
  qed
qed

section \<open>Properties\<close>

text \<open>A process that was forked for the descriptor 3, as root, whose client sends a key.\<close>

definition forked :: "string \<Rightarrow> (byte list \<times> nat) client_connection" where
  "forked key = file_server\<lparr>rx := [Seg (string_enc key)], socket := -1, cc_uid := 0, cc_gid := 0\<rparr>"

lemma forked_greeted: "greeted 3 key [] (forked key)"
proof -
  have "string_enc key \<noteq> []" using length_string_enc [of key] by (metis add_is_0 list.size(3) zero_neq_numeral)
  then show ?thesis
    by (simp add: greeted_def forked_def file_server_def live_def rx_push_def)
qed

lemma one_entry:
  "concat (map key_line [(''/m'', ''u'', ''K'')]) = ''/m u K'' @ [CHR 0x0A]"
  "\<forall>e \<in> set [(''/m'', ''u'', ''K'')]. entry_ok e"
  by (simp_all add: NL_def word_ok_def is_space_def)

text \<open>The search in the key list: on a list of lines of three words each, the loop returns the
  mount point and the user of the first line that has the client's key, and reports an invalid
  key if no line has it, with the one exception of an empty key and an empty list.\<close>

theorem key_list_search:
  assumes "\<forall>e \<in> set entries. entry_ok e" and "entries \<noteq> [] \<or> clientKey \<noteq> ''''"
  shows "\<exists>m u. key_loop clientKey (open_istream (Some (concat (map key_line entries)))) '''' '''' '''' =
         (case find (has_key clientKey) entries of
            Some (m, u, k) \<Rightarrow> Some (True, m, u)
          | None \<Rightarrow> Some (False, m, u))"
  using key_loop_listed [OF assms] by (auto split: prod.splits option.splits)

theorem key_list_search_witness:
  "key_loop ''K'' (open_istream (Some (concat (map key_line [(''/x'', ''v'', ''J''), (''/m'', ''u'', ''K'')]))))
     '''' '''' '''' = Some (True, ''/m'', ''u'')"
  using key_list_search [of "[(''/x'', ''v'', ''J''), (''/m'', ''u'', ''K'')]" "''K''"]
  by (simp add: word_ok_def is_space_def)

text \<open>C37: The loop over the key list returns for every content of the file; but when the file
  cannot be opened it never returns, unless the client's key is the empty string.\<close>

theorem key_list_termination:
  "(\<exists>r. key_loop clientKey (open_istream (Some content)) mountPath user serverKey = Some r) \<and>
   (serverKey \<noteq> clientKey \<longrightarrow> key_loop clientKey (open_istream None) mountPath user serverKey = None)"
proof
  show "\<exists>r. key_loop clientKey (open_istream (Some content)) mountPath user serverKey = Some r"
    by (rule key_loop_returns) (simp add: stream_ok_def open_istream_def)
qed (simp add: key_loop_diverges)

theorem key_list_termination_witness: "key_loop ''K'' (open_istream None) '''' '''' '''' = None"
  using key_list_termination [of "''K''" "''''" "''''" "''''" "''''"] by simp

text \<open>C12: Authentication: whatever a client sends and however its bytes arrive, a process that
  comes out of the constructor connected has read a key that is on the list, serves the mount
  point of that line, and the user of that line exists.\<close>

theorem constructor_authenticates:
  assumes "new_client_connection os p connfd c = Some c'" and "connected c'" and "0 \<le> connfd"
    and "os_read_file os KEY_LIST_PATH (cc_host c) = (Some (concat (map key_line entries)), h)"
    and "\<forall>e \<in> set entries. entry_ok e" and "entries \<noteq> []"
  shows "\<exists>m u k r s. (m, u, k) \<in> set entries \<and> agfs_read_string p connfd '''' c = Some ((r, k), s) \<and>
           cc_mountPoint c' = m \<and> fst (os_getpwnam os u h) \<noteq> None"
  using assms by (rule constructor_safe)

theorem constructor_authenticates_witness:
  "\<exists>c' m u k r s. new_client_connection file_os x86 3 (forked ''K'') = Some c' \<and> connected c' \<and>
     (m, u, k) \<in> set [(''/m'', ''u'', ''K'')] \<and> agfs_read_string x86 3 '''' (forked ''K'') = Some ((r, k), s) \<and>
     cc_mountPoint c' = m"
proof -
  obtain e where e: "new_client_connection file_os x86 3 (forked ''K'') = Some ((forked ''K'')\<lparr>rx := [],
      errno := e, socket := 3, cc_mountPoint := ''/m'', cc_beatsMissed := 0,
      cc_host := cc_host (forked ''K''), cc_uid := 1000, cc_gid := gid_after 1000 100 (forked ''K'')\<rparr>)"
    using constructor_accepted [OF forked_greeted, where p = x86 and key = "''K''" and os = file_os
        and entries = "[(''/m'', ''u'', ''K'')]" and m = "''/m''" and u = "''u''" and k = "''K''"
        and uid = 1000 and gid = 100 and h = "cc_host (forked ''K'')" and ?h1.0 = "cc_host (forked ''K'')"
        and ?h2.0 = "cc_host (forked ''K'')"]
      one_entry by (auto simp: string_ok_def NUL_def MAX_RW_def forked_def)
  show ?thesis
    using constructor_authenticates [OF e _ _ _ one_entry(2)] e one_entry(1)
    by (simp add: connected_def)
qed

text \<open>C38: The ids of a served user: started by root, the process takes the user's id first, and
  with it loses the right to take the user's group, so that (unless the user is root) it keeps
  the group it was started with. The failing call is not noticed.\<close>

theorem login_keeps_group:
  assumes "greeted connfd key evs c" and "string_ok p key"
    and "os_read_file os KEY_LIST_PATH (cc_host c) = (Some (concat (map key_line entries)), h)"
    and "\<forall>e \<in> set entries. entry_ok e" and "find (has_key key) entries = Some (m, u, k)"
    and "os_getpwnam os u h = (Some (uid, gid), h1)" and "os_exists os m h1 = (Some True, h2)"
    and "cc_uid c = 0"
  shows "\<exists>c'. new_client_connection os p connfd c = Some c' \<and> connected c' \<and> cc_mountPoint c' = m \<and>
           cc_uid c' = uid \<and> cc_gid c' = (if uid = 0 then gid else cc_gid c) \<and>
           tx c' = tx c \<and> rx c' = evs"
proof -
  have "0 \<le> connfd" using assms(1) by (simp add: greeted_def live_def)
  then show ?thesis
    using constructor_accepted [OF assms] by (auto simp: gid_after_def connected_def)
qed

theorem login_keeps_group_witness:
  "\<exists>c'. new_client_connection file_os x86 3 (forked ''K'') = Some c' \<and> connected c' \<and>
     cc_uid c' = 1000 \<and> cc_gid c' = 0"
  using login_keeps_group [OF forked_greeted, where p = x86 and key = "''K''" and os = file_os
        and entries = "[(''/m'', ''u'', ''K'')]" and m = "''/m''" and u = "''u''" and k = "''K''"
        and uid = 1000 and gid = 100 and h = "cc_host (forked ''K'')" and ?h1.0 = "cc_host (forked ''K'')"
        and ?h2.0 = "cc_host (forked ''K'')"] one_entry
  by (auto simp: string_ok_def NUL_def MAX_RW_def forked_def)

text \<open>A client whose key is not on the list is told so, on the wire, and its socket is closed;
  nothing else happens to the process.\<close>

theorem invalid_key_rejected:
  assumes "greeted connfd key evs c" and "string_ok p key" and "key \<noteq> ''''"
    and "os_read_file os KEY_LIST_PATH (cc_host c) = (Some (concat (map key_line entries)), h)"
    and "\<forall>e \<in> set entries. entry_ok e" and "find (has_key key) entries = None"
  shows "new_client_connection os p connfd c = Some (c\<lparr>rx := evs,
           tx := tx c @ be_bytes cmd_INVALID_KEY, sock_open := False, socket := -1, cc_host := h\<rparr>)"
  using assms by (rule constructor_invalid)

theorem invalid_key_rejected_witness:
  "\<exists>c'. new_client_connection file_os x86 3 (forked ''J'') = Some c' \<and> \<not> sock_open c' \<and>
     tx c' = be_bytes cmd_INVALID_KEY"
  using invalid_key_rejected [OF forked_greeted, of x86 "''J''" file_os "[(''/m'', ''u'', ''K'')]"] one_entry
  by (auto simp: string_ok_def NUL_def MAX_RW_def forked_def)

text \<open>Every handler leaves the connection alone: whatever request arrives, complete or not,
  the descriptor stays open, the mount point, the count of missed beats and the ids of the
  process stay, nothing already written is taken back and no more is read than there was.\<close>

theorem handlers_keep_connection:
  assumes "dispatch os p cmd c = Some c'"
  shows "socket c' = socket c \<and> sock_open c' = sock_open c \<and> cc_mountPoint c' = cc_mountPoint c \<and>
         cc_beatsMissed c' = cc_beatsMissed c \<and> cc_uid c' = cc_uid c \<and> cc_gid c' = cc_gid c \<and>
         prefix (tx c) (tx c') \<and> rx_size (rx c') \<le> rx_size (rx c)"
  using keepsD [OF keeps_dispatch assms] by (simp add: cc_frame_def)

theorem handlers_keep_connection_witness:
  "socket (the (dispatch file_os x86 cmd_HEARTBEAT file_server)) = 3"
  using handlers_keep_connection [of file_os x86 cmd_HEARTBEAT file_server]
  by (simp add: dispatch_cmd(1))

text \<open>C39: The missed beats are counted over the whole life of the connection: a client whose
  heartbeats are answered as they should, but which misses six of them in all, at any times,
  is disconnected at the sixth.\<close>

theorem sixth_missed_beat:
  assumes "healthy c" and "rx c = map beat_event bs @ RxErr EAGAIN # evs"
    and "cc_beatsMissed c = 0" and "length (filter Not bs) = 5"
  shows "\<exists>c'. serve_loop os p c = Some c' \<and> \<not> connected c' \<and> \<not> sock_open c' \<and>
           rx c' = evs \<and> tx c' = tx c @ concat (replicate (length (filter (\<lambda>b. b) bs)) (be_bytes cmd_HEARTBEAT))"
proof -
  have "beats_answered bs = concat (replicate (length (filter (\<lambda>b. b) bs)) (be_bytes cmd_HEARTBEAT))"
    by (simp add: beats_answered_def map_replicate_const [symmetric] comp_def)
  then show ?thesis
    using serve_loop_beats [OF assms(1,2), of os p] assms(3,4) by auto
qed

theorem sixth_missed_beat_witness:
  "\<exists>c'. serve_loop file_os x86 (file_server\<lparr>rx := map beat_event [False, True, False, False, True, False, False]
       @ RxErr EAGAIN # []\<rparr>) = Some c' \<and> \<not> sock_open c' \<and>
     tx c' = be_bytes cmd_HEARTBEAT @ be_bytes cmd_HEARTBEAT"
  using sixth_missed_beat [of "file_server\<lparr>rx := map beat_event [False, True, False, False, True, False, False]
       @ RxErr EAGAIN # []\<rparr>" "[False, True, False, False, True, False, False]" "[]" file_os x86]
  by (simp add: numeral_eq_Suc) blast

text \<open>A listing of something that is not a directory is answered \<^verbatim>\<open>ENOTDIR\<close>, also when it
  does not exist: the second test overwrites the \<^verbatim>\<open>ENOENT\<close> of the first.\<close>

theorem missing_directory:
  assumes "requested p c (string_enc path) rest evs" and "string_ok p path"
    and "dir = path_append os (cc_mountPoint c) path"
    and "os_exists os dir (cc_host c) = (Some found, h1)"
    and "os_is_directory os dir h1 = (Some False, h2)"
  shows "processReaddir os p c = Some (c\<lparr>rx := rx_push rest evs,
           tx := tx c @ be_bytes (- 20 :: agerr_t), cc_host := h2\<rparr>)"
  using processReaddir_refused [OF assms] by (simp add: ENOTDIR_def)

theorem missing_directory_witness:
  "processReaddir file_os x86 (file_server\<lparr>rx := rx_push (string_enc ''/f'' @ []) []\<rparr>) =
     Some (file_server\<lparr>rx := [], tx := be_bytes (- 20 :: agerr_t)\<rparr>)"
proof -
  let ?c = "file_server\<lparr>rx := rx_push (string_enc ''/f'' @ []) []\<rparr>"
  have "requested x86 ?c (string_enc ''/f'') [] []" by (simp add: requested_def)
  from missing_directory [OF this _ refl, of file_os] show ?thesis
    by (simp add: string_ok_def NUL_def MAX_RW_def file_server_def)
qed

text \<open>The states that the command loop passes through before a turn.\<close>

inductive turns :: "'h os \<Rightarrow> plat \<Rightarrow> 'h client_connection \<Rightarrow> 'h client_connection \<Rightarrow> bool" for os p where
  here: "turns os p c c"
| turn: "serve_step os p c = Some (True, c1) \<Longrightarrow> turns os p c1 c2 \<Longrightarrow> turns os p c c2"

lemma serve_loop_undefined:
  "serve_loop os p c = None \<Longrightarrow> \<exists>c'. turns os p c c' \<and> serve_step os p c' = None"
proof (induction os p c rule: serve_loop.induct)
  case (1 os p c)
  show ?case
  proof (cases "serve_step os p c")
    case None
    then show ?thesis using turns.here by blast
  next
    case (Some r)
    obtain go c1 where r: "r = (go, c1)" by fastforce
    have "go \<and> serve_loop os p c1 = None"
      using 1(2) unfolding serve_loop.simps [of os p c] Some r by (cases go) simp_all
    then show ?thesis
      using 1(1) [OF Some, of go c1] turns.turn [of os p c c1] Some r by auto
  qed
qed



text \<open>The data of a write may arrive in pieces of any sizes: the loop puts them together, so that
  the bytes end up in the file at the offset in their order, the descriptor is closed and the
  client is told their number.\<close>

theorem write_in_pieces:
  assumes "requested p c (string_enc path @ be_bytes (word_of_nat (length buf) :: agsize_t) @
             be_bytes (off :: agsize_t)) [] (map Seg segs @ evs)"
    and "string_ok p path" and "concat segs = buf" and "[] \<notin> set segs" and "buf \<noteq> []"
    and "length buf < 2 ^ 63" and "alloc_ok p (length buf)" and "unat off < 2 ^ 63"
    and "os_open os (path_append os (cc_mountPoint c) path) O_WRONLY (cc_host c) = (Inr fd, h)"
    and "0 \<le> fd" and "view h = Some (content, pos)"
    and "seek_law os fd view" and "write_law os fd view"
  shows "\<exists>h1 err e. processWrite os p c = Some (c\<lparr>rx := evs, errno := e,
             tx := tx c @ be_bytes (0 :: agerr_t) @ write_reply (word_of_nat (length buf)) err,
             cc_host := snd (os_close os fd h1)\<rparr>) \<and> \<not> neg_err err \<and>
           view h1 = Some (put_at (unat off) buf content, unat off + length buf)"
  using processWrite_data [OF assms(1) _ assms(2-4,6-13)] assms(5) by simp

theorem write_in_pieces_witness:
  "\<exists>c'. processWrite file_os x86 (file_server\<lparr>rx := rx_push (string_enc ''/f'' @
       be_bytes (word_of_nat (length [7, 8, 9 :: byte]) :: agsize_t) @ be_bytes (1 :: agsize_t))
       [Seg [7, 8], Seg [9]]\<rparr>) = Some c' \<and> cc_host c' = ([10, 7, 8, 9], 4)"
proof -
  let ?c = "file_server\<lparr>rx := rx_push (string_enc ''/f'' @
       be_bytes (word_of_nat (length [7, 8, 9 :: byte]) :: agsize_t) @ be_bytes (1 :: agsize_t))
       [Seg [7, 8], Seg [9]]\<rparr>"
  have r: "requested x86 ?c (string_enc ''/f'' @
      be_bytes (word_of_nat (length [7, 8, 9 :: byte]) :: agsize_t) @ be_bytes (1 :: agsize_t)) []
      (map Seg [[7, 8], [9]] @ [])"
    by (simp add: requested_def)
  show ?thesis
    using write_in_pieces [OF r, where os = file_os and fd = 5 and view = Some and content = "[10, 20, 30, 40]"
        and pos = 0 and h = "([10, 20, 30, 40], 0)"] file_os_laws [of 5]
    by (auto simp: put_at_def string_ok_def NUL_def MAX_RW_def)
qed

end
