(* ===== verification/Session.thy ===== *)
theory Session
  imports ClientLife Serving
begin

text \<open>
  The two ends of a connection against each other. \<open>session call serve c s r c' s'\<close> says that
  the client's operation \<open>call\<close>, in the state \<open>c\<close>, and one turn \<open>serve\<close> of the server, in the
  state \<open>s\<close>, fit together: the server reads what the client wrote, the client reads what the
  server wrote, nothing is left over on either side, and the operation returns \<open>r\<close>. The two
  hosts are different platforms \<open>p\<close> and \<open>q\<close>, of any byte order.
\<close>

definition session ::
  "(server_connection \<Rightarrow> ('r \<times> server_connection) option) \<Rightarrow>
   ('h client_connection \<Rightarrow> (bool \<times> 'h client_connection) option) \<Rightarrow>
   server_connection \<Rightarrow> 'h client_connection \<Rightarrow>
   'r \<Rightarrow> server_connection \<Rightarrow> 'h client_connection \<Rightarrow> bool" where
  "session call serve c s r c' s' \<longleftrightarrow>
     (\<exists>request reply.
        call (c\<lparr>rx := rx_push reply (rx c)\<rparr>) = Some (r, c') \<and>
        tx c' = tx c @ request \<and> rx c' = rx c \<and>
        serve (s\<lparr>rx := rx_push request (rx s)\<rparr>) = Some (True, s') \<and>
        tx s' = tx s @ reply \<and> rx s' = rx s)"

lemma sessionI:
  assumes "call (c\<lparr>rx := rx_push reply (rx c)\<rparr>) = Some (r, c')"
    and "tx c' = tx c @ request" and "rx c' = rx c"
    and "serve (s\<lparr>rx := rx_push request (rx s)\<rparr>) = Some (True, s')"
    and "tx s' = tx s @ reply" and "rx s' = rx s"
  shows "session call serve c s r c' s'"
  using assms unfolding session_def by blast

text \<open>The request as the dispatcher hands it to the handler.\<close>

lemma serve_request:
  assumes "healthy s" and "request = be_bytes cmd @ args" and "cmd \<noteq> cmd_STOP"
    and "rx s' = rx_push request evs" and "s' = s\<lparr>rx := rx_push request evs\<rparr>"
  shows "serve_step os p s' = map_option (Pair True) (dispatch os p cmd (s\<lparr>rx := rx_push args evs\<rparr>))"
  using serve_step_cmd [of s' cmd args evs os p] assms by simp

lemma requested_args:
  "healthy s \<Longrightarrow> requested p (s\<lparr>rx := rx_push (args @ rest) evs\<rparr>) args rest evs"
  by (simp add: requested_def)

lemmas requested_all = requested_args [where rest = "[]", simplified]

text \<open>
  One exchange: the handler's answer to the arguments of the request is what the client's
  operation needs to return \<open>r\<close>.
\<close>

lemma session_rpc:
  assumes "healthy s" and "request = be_bytes cmd @ args" and "cmd \<noteq> cmd_STOP"
    and "dispatch os q cmd (s\<lparr>rx := rx_push args (rx s)\<rparr>) = Some s'"
    and "tx s' = tx s @ reply" and "rx s' = rx s"
    and "call (c\<lparr>rx := rx_push reply (rx c)\<rparr>) = Some (r, c')"
    and "tx c' = tx c @ request" and "rx c' = rx c"
  shows "session call (serve_step os q) c s r c' s'"
proof (rule sessionI)
  show "serve_step os q (s\<lparr>rx := rx_push request (rx s)\<rparr>) = Some (True, s')"
    using serve_request [OF assms(1-3)] assms(4) by simp
qed (use assms in simp_all)

section \<open>getattr\<close>

lemma getattr_session:
  assumes "healthy c" and "healthy s" and "path_ok path" and "string_ok q path"
    and "os_lstat os (path_append os (cc_mountPoint s) path) (cc_host s) = (Inr st, h)"
  shows "\<exists>c' s'. session (\<lambda>c. Some (getattr p path c)) (serve_step os q) c s (stat_view st, 0) c' s' \<and>
           cc_host s' = h"
proof -
  let ?rq = "getattr_request path" and ?rp = "getattr_reply st 0"
  let ?c = "c\<lparr>tx := tx c @ ?rq\<rparr>" and ?s = "s\<lparr>tx := tx s @ ?rp, cc_host := h\<rparr>"
  have s: "processGetAttr os q (s\<lparr>rx := rx_push (string_enc path) (rx s)\<rparr>) = Some ?s"
    using processGetAttr_found [OF requested_all [OF assms(2)] assms(4)] assms by simp
  have c: "getattr p path (c\<lparr>rx := rx_push ?rp (rx c)\<rparr>) = ((stat_view st, 0), ?c)"
    using getattr_answered [where c = "c\<lparr>rx := rx_push ?rp (rx c)\<rparr>" and rest = "[]" and evs = "rx c"] assms
    by simp
  show ?thesis
    using s c
    by (intro exI [of _ ?c] exI [of _ ?s] conjI
          session_rpc [OF assms(2) getattr_request_def cmd_not_stop(2), where reply = ?rp])
       (simp_all add: dispatch_cmd)
qed

lemma getattr_session_failed:
  assumes "healthy c" and "healthy s" and "path_ok path" and "string_ok q path"
    and "os_lstat os (path_append os (cc_mountPoint s) path) (cc_host s) = (Inl e, h)"
    and "neg_err (word_of_int (- e))"
  shows "\<exists>c' s'. session (\<lambda>c. Some (getattr p path c)) (serve_step os q) c s
           (zero_stat, word_of_int (- e)) c' s' \<and> cc_host s' = h"
proof -
  let ?rq = "getattr_request path" and ?rp = "getattr_reply zero_stat (word_of_int (- e))"
  let ?c = "c\<lparr>tx := tx c @ ?rq\<rparr>" and ?s = "s\<lparr>errno := e, tx := tx s @ ?rp, cc_host := h\<rparr>"
  have s: "processGetAttr os q (s\<lparr>rx := rx_push (string_enc path) (rx s)\<rparr>) = Some ?s"
    using processGetAttr_failed [OF requested_all [OF assms(2)] assms(4) _ assms(6)] assms by simp
  have c: "getattr p path (c\<lparr>rx := rx_push ?rp (rx c)\<rparr>) = ((zero_stat, word_of_int (- e)), ?c)"
    using getattr_answered [where c = "c\<lparr>rx := rx_push ?rp (rx c)\<rparr>" and rest = "[]" and evs = "rx c"] assms
    by simp
  show ?thesis
    using s c
    by (intro exI [of _ ?c] exI [of _ ?s] conjI
          session_rpc [OF assms(2) getattr_request_def cmd_not_stop(2), where reply = ?rp])
       (simp_all add: dispatch_cmd)
qed

section \<open>access and open\<close>

lemma access_session:
  assumes "healthy c" and "healthy s" and "path_ok path" and "string_ok q path"
    and "os_access os (path_append os (cc_mountPoint s) path) m (cc_host s) = (r, h)"
  shows "\<exists>c' s'. session (\<lambda>c. Some (access p path m c)) (serve_step os q) c s
           (case r of Inl _ \<Rightarrow> -1 | Inr _ \<Rightarrow> 0) c' s' \<and> cc_host s' = h"
proof -
  let ?rq = "access_request path m" and ?rp = "be_bytes (case r of Inl e \<Rightarrow> (- 1 :: agerr_t) | Inr _ \<Rightarrow> 0)"
  let ?c = "c\<lparr>tx := tx c @ ?rq\<rparr>" and ?s = "s\<lparr>errno := (case r of Inl e \<Rightarrow> e | Inr _ \<Rightarrow> errno s), tx := tx s @ ?rp, cc_host := h\<rparr>"
  have s: "processAccess os q (s\<lparr>rx := rx_push (string_enc path @ be_bytes m) (rx s)\<rparr>) = Some ?s"
    using processAccess_answer [OF requested_all [OF assms(2)] assms(4)] assms
    by (simp cong: sum.case_cong)
  have c: "access p path m (c\<lparr>rx := rx_push ?rp (rx c)\<rparr>) = ((case r of Inl _ \<Rightarrow> -1 | Inr _ \<Rightarrow> 0), ?c)"
    using access_answered [where c = "c\<lparr>rx := rx_push ?rp (rx c)\<rparr>" and rest = "[]" and evs = "rx c"] assms
    by simp
  show ?thesis
    using s c
    by (intro exI [of _ ?c] exI [of _ ?s] conjI
          session_rpc [OF assms(2) access_request_def cmd_not_stop(4), where reply = ?rp])
       (simp_all add: dispatch_cmd)
qed

lemma open_session:
  assumes "healthy c" and "healthy s" and "path_ok path" and "string_ok q path"
    and "os_open os (path_append os (cc_mountPoint s) path) m (cc_host s) = (Inr fd, h)"
    and "0 \<le> fd" and "os_close os fd h = (r, h')"
  shows "\<exists>c' s'. session (\<lambda>c. Some (open_file p path m c)) (serve_step os q) c s 0 c' s' \<and>
           cc_host s' = h'"
proof -
  let ?rq = "open_request path m" and ?rp = "be_bytes (0 :: agerr_t)"
  let ?c = "c\<lparr>tx := tx c @ ?rq\<rparr>" and ?s = "s\<lparr>errno := (case r of Inl e \<Rightarrow> e | Inr _ \<Rightarrow> errno s), tx := tx s @ ?rp, cc_host := h'\<rparr>"
  have s: "processOpen os q (s\<lparr>rx := rx_push (string_enc path @ be_bytes m) (rx s)\<rparr>) = Some ?s"
    using processOpen_opened [OF requested_all [OF assms(2)] assms(4) _ assms(6,7)] assms
    by (simp cong: sum.case_cong)
  have c: "open_file p path m (c\<lparr>rx := rx_push ?rp (rx c)\<rparr>) = (0, ?c)"
    using open_answered [where c = "c\<lparr>rx := rx_push ?rp (rx c)\<rparr>" and rest = "[]" and evs = "rx c"] assms
    by simp
  show ?thesis
    using s c
    by (intro exI [of _ ?c] exI [of _ ?s] conjI
          session_rpc [OF assms(2) open_request_def cmd_not_stop(7), where reply = ?rp])
       (simp_all add: dispatch_cmd)
qed

lemma open_session_failed:
  assumes "healthy c" and "healthy s" and "path_ok path" and "string_ok q path"
    and "os_open os (path_append os (cc_mountPoint s) path) m (cc_host s) = (Inl e, h)"
  shows "\<exists>c' s'. session (\<lambda>c. Some (open_file p path m c)) (serve_step os q) c s
           (word_of_int (- e)) c' s' \<and> cc_host s' = h"
proof -
  let ?rq = "open_request path m" and ?rp = "be_bytes (word_of_int (- e) :: agerr_t)"
  let ?c = "c\<lparr>tx := tx c @ ?rq\<rparr>" and ?s = "s\<lparr>errno := EBADF, tx := tx s @ ?rp, cc_host := h\<rparr>"
  have s: "processOpen os q (s\<lparr>rx := rx_push (string_enc path @ be_bytes m) (rx s)\<rparr>) = Some ?s"
    using processOpen_failed [OF requested_all [OF assms(2)] assms(4)] assms by simp
  have c: "open_file p path m (c\<lparr>rx := rx_push ?rp (rx c)\<rparr>) = (word_of_int (- e), ?c)"
    using open_answered [where c = "c\<lparr>rx := rx_push ?rp (rx c)\<rparr>" and rest = "[]" and evs = "rx c"] assms
    by simp
  show ?thesis
    using s c
    by (intro exI [of _ ?c] exI [of _ ?s] conjI
          session_rpc [OF assms(2) open_request_def cmd_not_stop(7), where reply = ?rp])
       (simp_all add: dispatch_cmd)
qed

section \<open>readdir\<close>

lemma stat_entries_names: "map fst (fst (stat_entries os dir names h)) = names"
  by (induction names arbitrary: h) (simp_all add: split_beta)

lemma readdir_session:
  assumes "healthy c" and "healthy s" and "path_ok path" and "string_ok q path"
    and "dir = path_append os (cc_mountPoint s) path"
    and "os_exists os dir (cc_host s) = (Some True, h1)"
    and "os_is_directory os dir h1 = (Some True, h2)"
    and "os_listdir os dir h2 = (Some counted, h3)" and "length counted = length names"
    and "os_listdir os dir h3 = (Some names, h4)"
    and "stat_entries os dir names h4 = (es, h)"
    and "\<forall>name \<in> set names. string_ok p name" and "length names < 2 ^ 64"
  shows "\<exists>c' s'. session (readdir p path) (serve_step os q) c s (map entry_view es, 0) c' s' \<and>
           cc_host s' = h"
proof -
  have names: "map fst es = names" using stat_entries_names [of os dir names h4] assms(11) by simp
  then have len: "length es = length names" by (metis length_map)
  have ok: "\<forall>v \<in> set es. string_ok p (fst v)" using names assms(12) by (metis image_eqI set_map)
  have small: "\<forall>name \<in> set names. length name \<le> MAX_RW" using assms(12) by (simp add: string_ok_def)
  let ?rq = "readdir_request path" and ?rp = "readdir_reply es 0"
  let ?c = "c\<lparr>tx := tx c @ ?rq\<rparr>"
  obtain e where s: "processReaddir os q (s\<lparr>rx := rx_push (string_enc path) (rx s)\<rparr>) =
      Some (s\<lparr>errno := e, tx := tx s @ ?rp, cc_host := h\<rparr>)" (is "_ = Some ?s")
    using processReaddir_listed [OF requested_all [OF assms(2)] assms(4), where names = names
        and counted = counted and dir = dir and ?h1.0 = h1 and ?h2.0 = h2 and ?h3.0 = h3 and ?h4.0 = h4
        and es = es and h = h and os = os and evs = "rx s"] assms(5-11) small len
    by (auto simp: readdir_reply_def)
  have c: "readdir p path (c\<lparr>rx := rx_push ?rp (rx c)\<rparr>) = Some ((map entry_view es, 0), ?c)"
    using readdir_answered [where c = "c\<lparr>rx := rx_push ?rp (rx c)\<rparr>" and rest = "[]" and evs = "rx c"]
      assms(1,3,13) ok len by simp
  show ?thesis
    using s c
    by (intro exI [of _ ?c] exI [of _ ?s] conjI
          session_rpc [OF assms(2) readdir_request_def cmd_not_stop(3), where reply = ?rp])
       (simp_all add: dispatch_cmd)
qed

section \<open>read and write\<close>

lemma read_session:
  assumes "healthy c" and "healthy s" and "path_ok path" and "string_ok q path"
    and "alloc_ok q (unat sz)" and "unat off < 2 ^ 63"
    and "os_open os (path_append os (cc_mountPoint s) path) O_RDONLY (cc_host s) = (Inr fd, h)"
    and "0 \<le> fd" and "view h = Some (content, pos)"
    and "seek_law os fd view" and "read_law os fd view"
    and "data = take (unat sz) (drop (unat off) content)" and "length data \<le> MAX_RW"
    and "alloc_ok p (length data)"
  shows "\<exists>c' s'. session (readFile p path sz off) (serve_step os q) c s
             (data, word_of_nat (length data)) c' s' \<and>
           view (cc_host s') = Some (content, unat off + length data) \<and>
           healthy c' \<and> healthy s' \<and> cc_mountPoint s' = cc_mountPoint s"
proof -
  have err: "\<not> neg_err (word_of_nat (length data))" "sint (word_of_nat (length data) :: agerr_t) = int (length data)"
    using assms(13) by (simp_all add: sint_length_u64 MAX_RW_def)
  let ?rq = "read_request path sz off" and ?rp = "read_reply data (word_of_nat (length data))"
  let ?c = "c\<lparr>tx := tx c @ ?rq\<rparr>"
  obtain h' where s: "processRead os q (s\<lparr>rx := rx_push (string_enc path @ be_bytes sz @ be_bytes off) (rx s)\<rparr>) =
      Some (s\<lparr>tx := tx s @ ?rp, cc_host := h'\<rparr>)" (is "_ = Some ?s")
    and h': "view h' = Some (content, unat off + length data)"
    using processRead_data [OF requested_all [OF assms(2)] assms(4-6), where data = data and view = view and os = os
        and evs = "rx s" and fd = fd and h = h and content = content and pos = pos]
      assms(7-13) by auto
  have c: "readFile p path sz off (c\<lparr>rx := rx_push ?rp (rx c)\<rparr>) =
      Some ((data, word_of_nat (length data)), ?c)"
    using readFile_answered [where c = "c\<lparr>rx := rx_push ?rp (rx c)\<rparr>" and rest = "[]" and evs = "rx c"]
      assms(1,3,13,14) err by simp
  show ?thesis
    using s c h' assms(1,2)
    by (intro exI [of _ ?c] exI [of _ ?s] conjI
          session_rpc [OF assms(2) read_request_def cmd_not_stop(5), where reply = ?rp])
       (simp_all add: dispatch_cmd)
qed

lemma write_session:
  assumes "healthy c" and "healthy s" and "path_ok path" and "string_ok q path"
    and "length buf < 2 ^ 63" and "alloc_ok q (length buf)" and "unat off < 2 ^ 63"
    and "os_open os (path_append os (cc_mountPoint s) path) O_WRONLY (cc_host s) = (Inr fd, h)"
    and "0 \<le> fd" and "view h = Some (content, pos)"
    and "seek_law os fd view" and "write_law os fd view" and "buf \<noteq> []"
  shows "\<exists>c' s' h' err. session (\<lambda>c. Some (writeFile p path off buf c)) (serve_step os q) c s
             (word_of_nat (length buf), err) c' s' \<and> \<not> neg_err err \<and>
           view h' = Some (put_at (unat off) buf content, unat off + length buf) \<and>
           cc_host s' = snd (os_close os fd h') \<and>
           healthy c' \<and> healthy s' \<and> cc_mountPoint s' = cc_mountPoint s"
proof -
  have segs: "rx_push buf (rx s) = map Seg [buf] @ rx s" using assms(13) by (simp add: rx_push_def)
  obtain h' err e where s: "processWrite os q (s\<lparr>rx := rx_push (string_enc path @ write_data buf off) (rx s)\<rparr>) =
      Some (s\<lparr>errno := e, tx := tx s @ be_bytes (0 :: agerr_t) @
        write_reply (word_of_nat (length buf)) err, cc_host := snd (os_close os fd h')\<rparr>)" (is "_ = Some ?s")
    and err: "\<not> neg_err err" and h': "view h' = Some (put_at (unat off) buf content, unat off + length buf)"
    using processWrite_data [where c = "s\<lparr>rx := rx_push (string_enc path @ write_data buf off) (rx s)\<rparr>"
        and segs = "[buf]" and ?buf0.0 = buf and ?evs0.0 = "rx s" and evs = "rx s"
        and buf = buf and off = off and path = path and p = q and os = os and fd = fd and h = h
        and content = content and pos = pos and view = view] assms(2,4-13) segs
    by (auto simp: requested_def write_data_def)
  let ?rp = "be_bytes (0 :: agerr_t) @ write_reply (word_of_nat (length buf)) err"
  let ?rq = "write_request path @ write_data buf off"
  let ?c = "c\<lparr>tx := tx c @ ?rq\<rparr>"
  have rq: "?rq = be_bytes cmd_WRITE @ string_enc path @ write_data buf off"
    by (simp add: write_request_def)
  have c: "writeFile p path off buf (c\<lparr>rx := rx_push ?rp (rx c)\<rparr>) =
      ((word_of_nat (length buf), err), ?c)"
    using writeFile_answered [where c = "c\<lparr>rx := rx_push ?rp (rx c)\<rparr>" and rest = "[]" and evs = "rx c"
        and ?err0.0 = 0] assms(1,3,5) err by simp
  show ?thesis
    using s c h' err assms(1,2)
    by (intro exI [of _ ?c] exI [of _ ?s] exI [of _ h'] exI [of _ err] conjI
          session_rpc [OF assms(2) rq cmd_not_stop(6), where reply = ?rp])
       (simp_all add: dispatch_cmd)
qed

section \<open>Properties\<close>

lemma example_path [simp]:
  "path_ok ''/f''" "string_ok x86 ''/f''" "string_ok ppc ''/f''"
  "path_ok ''/''" "string_ok x86 ''/''" "string_ok ppc ''/''"
  by (simp_all add: path_ok_def string_ok_def NUL_def MAX_RW_def)

text \<open>\<^verbatim>\<open>getattr\<close> end to end: when the client asks and the server answers in one turn of its
  loop, on hosts of any byte order, the client gets what \<^verbatim>\<open>lstat\<close> returns for the path below
  the mount point (the six fields of it that are sent), or the error number negated and an
  all-zero structure; neither side has bytes left over.\<close>

theorem getattr_end_to_end:
  assumes "healthy c" and "healthy s" and "path_ok path" and "string_ok q path"
    and "os_lstat os (path_append os (cc_mountPoint s) path) (cc_host s) = (r, h)"
    and "case r of Inl e \<Rightarrow> 0 < e \<and> e < 2 ^ 31 | Inr st \<Rightarrow> True"
  shows "\<exists>c' s'. session (\<lambda>c. Some (getattr p path c)) (serve_step os q) c s
             (case r of Inl e \<Rightarrow> (zero_stat, word_of_int (- e)) | Inr st \<Rightarrow> (stat_view st, 0)) c' s' \<and>
           cc_host s' = h"
proof (cases r)
  case (Inl e)
  then have "neg_err (word_of_int (- e))"
    using assms(6) sint_neg_errno [of e] by simp
  with Inl show ?thesis
    using getattr_session_failed [OF assms(1-4), of os e h] assms(5) by simp
next
  case (Inr st)
  then show ?thesis
    using getattr_session [OF assms(1-4), of os st h] assms(5) by simp
qed

theorem getattr_end_to_end_witness:
  "\<exists>c' s'. session (\<lambda>c. Some (getattr x86 ''/f'' c)) (serve_step file_os ppc) open_client file_server
     (zero_stat\<lparr>st_size := 4, st_mode := 0x81A4\<rparr>, 0) c' s' \<and> cc_host s' = ([10, 20, 30, 40], 0)"
  using getattr_end_to_end [of open_client file_server "''/f''" ppc file_os _ "cc_host file_server" x86]
  by (simp add: stat_view_def zero_stat_def)

text \<open>\<^verbatim>\<open>access\<close> end to end: the client gets 0 if the server may access the file, and -1 for
  every failure: the error number stays on the server.\<close>

theorem access_end_to_end:
  assumes "healthy c" and "healthy s" and "path_ok path" and "string_ok q path"
    and "os_access os (path_append os (cc_mountPoint s) path) m (cc_host s) = (r, h)"
  shows "\<exists>c' s'. session (\<lambda>c. Some (access p path m c)) (serve_step os q) c s
           (case r of Inl _ \<Rightarrow> -1 | Inr _ \<Rightarrow> 0) c' s' \<and> cc_host s' = h"
  using assms by (rule access_session)

theorem access_end_to_end_witness:
  "\<exists>c' s'. session (\<lambda>c. Some (access x86 ''/f'' 4 c)) (serve_step file_os ppc) open_client file_server
     0 c' s' \<and> cc_host s' = ([10, 20, 30, 40], 0)"
  using access_end_to_end [of open_client file_server "''/f''" ppc file_os 4 "Inr ()" "cc_host file_server" x86]
  by simp

text \<open>\<^verbatim>\<open>open\<close> end to end: the client gets 0 if the server could open the file with the flags
  that were sent, and the negated error number otherwise; the server's descriptor is closed
  again before the answer.\<close>

theorem open_end_to_end:
  assumes "healthy c" and "healthy s" and "path_ok path" and "string_ok q path"
    and "os_open os (path_append os (cc_mountPoint s) path) m (cc_host s) = (r, h)"
    and "case r of Inl e \<Rightarrow> True | Inr fd \<Rightarrow> 0 \<le> fd"
  shows "\<exists>c' s'. session (\<lambda>c. Some (open_file p path m c)) (serve_step os q) c s
             (case r of Inl e \<Rightarrow> word_of_int (- e) | Inr fd \<Rightarrow> 0) c' s' \<and>
           cc_host s' = (case r of Inl e \<Rightarrow> h | Inr fd \<Rightarrow> snd (os_close os fd h))"
proof (cases r)
  case (Inl e)
  then show ?thesis
    using open_session_failed [OF assms(1-4), of os m e h] assms(5) by simp
next
  case (Inr fd)
  obtain x h' where cl: "os_close os fd h = (x, h')" by fastforce
  then show ?thesis
    using open_session [OF assms(1-4), of os m fd h x h'] assms(5,6) Inr by simp
qed

theorem open_end_to_end_witness:
  "\<exists>c' s'. session (\<lambda>c. Some (open_file x86 ''/f'' 0 c)) (serve_step file_os ppc) open_client file_server
     0 c' s' \<and> cc_host s' = ([10, 20, 30, 40], 0)"
  using open_end_to_end [of open_client file_server "''/f''" ppc file_os 0 "Inr 5" "cc_host file_server" x86]
  by simp

text \<open>\<^verbatim>\<open>readdir\<close> end to end: when the directory has as many entries on the second pass of the
  server as it counted on the first, the client gets every entry of the second pass with its
  metadata, in order, and no error.\<close>

theorem readdir_end_to_end:
  assumes "healthy c" and "healthy s" and "path_ok path" and "string_ok q path"
    and "dir = path_append os (cc_mountPoint s) path"
    and "os_exists os dir (cc_host s) = (Some True, h1)"
    and "os_is_directory os dir h1 = (Some True, h2)"
    and "os_listdir os dir h2 = (Some counted, h3)" and "length counted = length names"
    and "os_listdir os dir h3 = (Some names, h4)"
    and "stat_entries os dir names h4 = (es, h)"
    and "\<forall>name \<in> set names. string_ok p name" and "length names < 2 ^ 64"
  shows "\<exists>c' s'. session (readdir p path) (serve_step os q) c s
             (map (\<lambda>(name, st). (name, stat_view st)) es, 0) c' s' \<and>
           cc_host s' = h \<and> map fst es = names"
proof -
  have "(\<lambda>(name, st). (name, stat_view st)) = entry_view"
    by (auto simp: entry_view_def)
  then show ?thesis
    using readdir_session [OF assms] stat_entries_names [of os dir names h4] assms(11) by simp
qed

theorem readdir_end_to_end_witness:
  "\<exists>c' s'. session (readdir x86 ''/'') (serve_step file_os ppc) open_client file_server
     ([(''f'', zero_stat\<lparr>st_size := 4, st_mode := 0x81A4\<rparr>)], 0) c' s' \<and> cc_host s' = ([10, 20, 30, 40], 0)"
proof -
  have "string_ok x86 ''f''" by (simp add: string_ok_def NUL_def MAX_RW_def)
  then show ?thesis
    using readdir_end_to_end [of open_client file_server "''/''" ppc "''/m/''" file_os "cc_host file_server"
        "cc_host file_server" "[''f'']" "cc_host file_server" "[''f'']" "cc_host file_server"
        "fst (stat_entries file_os ''/m/'' [''f''] (cc_host file_server))" "cc_host file_server" x86]
    by (simp add: stat_view_def zero_stat_def)
qed

text \<open>\<^verbatim>\<open>readFile\<close> end to end: on a file system whose reads may return fewer bytes than asked
  for, the client gets exactly the bytes of the file from the offset on, as many as it asked
  for or as there are, and their number.\<close>

theorem read_end_to_end:
  assumes "healthy c" and "healthy s" and "path_ok path" and "string_ok q path"
    and "alloc_ok q (unat sz)" and "unat off < 2 ^ 63"
    and "os_open os (path_append os (cc_mountPoint s) path) O_RDONLY (cc_host s) = (Inr fd, h)"
    and "0 \<le> fd" and "view h = Some (content, pos)"
    and "seek_law os fd view" and "read_law os fd view"
    and "data = take (unat sz) (drop (unat off) content)" and "length data \<le> MAX_RW"
    and "alloc_ok p (length data)"
  shows "\<exists>c' s'. session (readFile p path sz off) (serve_step os q) c s
             (data, word_of_nat (length data)) c' s' \<and>
           view (cc_host s') = Some (content, unat off + length data)"
  using read_session [OF assms] by blast

theorem read_end_to_end_witness:
  "\<exists>c' s'. session (readFile x86 ''/f'' 2 1) (serve_step file_os ppc) open_client file_server
     ([20, 30], 2) c' s' \<and> cc_host s' = ([10, 20, 30, 40], Suc (Suc (Suc 0)))"
  using read_end_to_end [of open_client file_server "''/f''" ppc 2 1 file_os 5 "([10, 20, 30, 40], 0)" Some
      "[10, 20, 30, 40]" 0 "[20, 30]" x86] file_os_laws [of 5]
  by (simp add: MAX_RW_def)

text \<open>\<^verbatim>\<open>writeFile\<close> end to end: on a file system that takes whole writes, the bytes of the
  buffer end up in the file at the offset (a gap is filled with zeros, what was there before
  and after stays), the descriptor is closed, and the client gets their number.\<close>

theorem write_end_to_end:
  assumes "healthy c" and "healthy s" and "path_ok path" and "string_ok q path"
    and "length buf < 2 ^ 63" and "alloc_ok q (length buf)" and "unat off < 2 ^ 63"
    and "os_open os (path_append os (cc_mountPoint s) path) O_WRONLY (cc_host s) = (Inr fd, h)"
    and "0 \<le> fd" and "view h = Some (content, pos)"
    and "seek_law os fd view" and "write_law os fd view" and "buf \<noteq> []"
  shows "\<exists>c' s' h' err. session (\<lambda>c. Some (writeFile p path off buf c)) (serve_step os q) c s
             (word_of_nat (length buf), err) c' s' \<and> \<not> neg_err err \<and>
           view h' = Some (put_at (unat off) buf content, unat off + length buf) \<and>
           cc_host s' = snd (os_close os fd h')"
  using write_session [OF assms] by blast

theorem write_end_to_end_witness:
  "\<exists>c' s' err. session (\<lambda>c. Some (writeFile x86 ''/f'' 3 [7, 8] c)) (serve_step file_os ppc)
     open_client file_server (2, err) c' s' \<and> \<not> neg_err err \<and> cc_host s' = ([10, 20, 30, 7, 8], 5)"
  using write_end_to_end [of open_client file_server "''/f''" ppc "[7, 8]" 3 file_os 5 "([10, 20, 30, 40], 0)"
      Some "[10, 20, 30, 40]" 0 x86] file_os_laws [of 5]
  by (simp add: put_at_def)

end
