(* ===== verification/Conversation.thy ===== *)
theory Conversation
  imports Session
begin

text \<open>
  A connection from its first byte to its last, for any set of calls: the client sends its
  key, makes a history of calls and stops; the server's process logs the client in, serves
  the history in its command loop and ends. The locale \<open>conversation\<close> is what one call has
  to promise: the answer of the server's process to the request is one from which the
  client's method returns what the specification of the call says. From this follow the
  histories, turn by turn and as a whole. It is interpreted for the calls on one file
  (\<open>FileHistory\<close>) and for the calls that ask for metadata (\<open>QueryHistory\<close>).
\<close>

section \<open>Histories\<close>

text \<open>
  The results of a history of calls and the state it leaves, by the specification \<open>spec\<close> of one
  call; the condition \<open>ok\<close> holds for every call when its turn comes.
\<close>

fun run_spec :: "('q \<Rightarrow> 'a \<Rightarrow> 'r \<times> 'a) \<Rightarrow> 'q list \<Rightarrow> 'a \<Rightarrow> 'r list \<times> 'a" where
  "run_spec spec [] a = ([], a)"
| "run_spec spec (rq # rqs) a =
     (let (r, a) = spec rq a;
          (rs, a) = run_spec spec rqs a
      in (r # rs, a))"

fun all_ok :: "('q \<Rightarrow> 'a \<Rightarrow> bool) \<Rightarrow> ('q \<Rightarrow> 'a \<Rightarrow> 'r \<times> 'a) \<Rightarrow> 'q list \<Rightarrow> 'a \<Rightarrow> bool" where
  "all_ok ok spec [] a \<longleftrightarrow> True"
| "all_ok ok spec (rq # rqs) a \<longleftrightarrow> ok rq a \<and> all_ok ok spec rqs (snd (spec rq a))"

lemma all_ok_forall: "(\<And>rq a. rq \<in> set rqs \<Longrightarrow> ok rq a) \<Longrightarrow> all_ok ok spec rqs a"
  by (induction rqs arbitrary: a) simp_all

lemma run_spec_Cons:
  assumes "run_spec spec (rq # rqs) a = (rs, a')"
  obtains r a1 rs' where "spec rq a = (r, a1)" "run_spec spec rqs a1 = (rs', a')" "rs = r # rs'"
  using assms by (auto simp: Let_def split: prod.splits)

text \<open>The client's calls, one after another, on one connection.\<close>

fun run_calls ::
  "('q \<Rightarrow> 'c \<Rightarrow> ('r \<times> 'c) option) \<Rightarrow> 'q list \<Rightarrow> 'c \<Rightarrow> ('r list \<times> 'c) option" where
  "run_calls call [] c = Some ([], c)"
| "run_calls call (rq # rqs) c = do {
     (r, c) \<leftarrow> call rq c;
     (rs, c) \<leftarrow> run_calls call rqs c;
     Some (r # rs, c) }"

text \<open>The same with the server: each call is one exchange with one turn of the command loop.\<close>

inductive exchange ::
  "('q \<Rightarrow> server_connection \<Rightarrow> ('r \<times> server_connection) option) \<Rightarrow> 'h os \<Rightarrow> plat \<Rightarrow> 'q list \<Rightarrow>
     server_connection \<Rightarrow> 'h client_connection \<Rightarrow> 'r list \<Rightarrow>
     server_connection \<Rightarrow> 'h client_connection \<Rightarrow> bool" for call os q where
  over: "exchange call os q [] c s [] c s"
| next_call: "session (call rq) (serve_step os q) c s r c1 s1 \<Longrightarrow>
     exchange call os q rqs c1 s1 rs c2 s2 \<Longrightarrow> exchange call os q (rq # rqs) c s (r # rs) c2 s2"

inductive_simps exchange_Nil [simp]: "exchange call os q [] c s rs c' s'"
inductive_simps exchange_Cons: "exchange call os q (rq # rqs) c s rs c' s'"

text \<open>Whole messages that have arrived one after another.\<close>

fun rx_pushes :: "byte list list \<Rightarrow> rx_event list \<Rightarrow> rx_event list" where
  "rx_pushes [] evs = evs"
| "rx_pushes (m # ms) evs = rx_push m (rx_pushes ms evs)"

lemma rx_pushes_append: "rx_pushes (ms @ ns) evs = rx_pushes ms (rx_pushes ns evs)"
  by (induction ms) simp_all

text \<open>The command loop takes one turn for each request, and then goes on with what is left.\<close>

lemma serve_loop_turn:
  "serve_step os q c = Some (True, c') \<Longrightarrow> serve_loop os q c = serve_loop os q c'"
  "serve_step os q c = Some (False, c') \<Longrightarrow> serve_loop os q c = Some c'"
  by (subst serve_loop.simps, simp)+

lemma serve_loop_turns: "turns os q c c' \<Longrightarrow> serve_loop os q c = serve_loop os q c'"
  by (induction rule: turns.induct) (simp_all add: serve_loop_turn)

section \<open>Both ends of a connection that starts and stops\<close>

lemma new_connection_accepted:
  assumes "network_ok net" and "d = net host port" and "dial_getaddrinfo d = 0" and "dial_socket d \<noteq> - 1"
    and "dial_connect d \<noteq> - 1" and "dial_wx d = []" and "dial_rx d = rx_push (be_bytes cmd_ACCEPT) evs"
    and "length key \<le> MAX_RW"
  shows "healthy (new_server_connection p net host port key)"
    and "tx (new_server_connection p net host port key) = string_enc key"
    and "rx (new_server_connection p net host port key) = evs"
proof -
  let ?c0 = "\<lparr>rx = [], wx = [], tx = [], sock_open = False, errno = 0, socket = -1,
       sc_failedCommand = False, sc_connectionStopped = False, sc_hostname = host,
       sc_port = port, sc_key = key, sc_closed = False\<rparr> :: server_connection"
  have new: "new_server_connection p net host port key = connect p net ?c0"
    by (simp add: new_server_connection_def)
  have d: "d = net (sc_hostname ?c0) (sc_port ?c0)" "length (sc_key ?c0) \<le> MAX_RW"
    using assms(2,8) by simp_all
  note answered = connect_answered [OF assms(1) d(1) assms(3-7) d(2)]
  have "conn_ok ?c0" "\<not> connected ?c0" by (simp_all add: conn_ok_def connected_def)
  then have "conn_ok (connect p net ?c0)" using connect_conn_ok [OF assms(1)] by blast
  moreover have "connected (connect p net ?c0)" using answered(1) by simp
  ultimately have "live (socket (connect p net ?c0)) (connect p net ?c0)"
    by (simp add: live_connected)
  then show "healthy (new_server_connection p net host port key)"
    using answered(4) by (simp add: new healthy_def)
  show "tx (new_server_connection p net host port key) = string_enc key"
    and "rx (new_server_connection p net host port key) = evs"
    using answered(2,3) by (simp_all add: new)
qed

lemma healthy_stop:
  assumes "healthy c"
  shows "\<not> sock_open (snd (stop p c))" and "\<not> connected (snd (stop p c))"
proof -
  have "conn_ok c" using assms by (simp add: healthy_def conn_ok_def live_def connected_def)
  then show "\<not> sock_open (snd (stop p c))" and "\<not> connected (snd (stop p c))"
    using stop_closed [of c p] by (auto simp: conn_ok_def)
qed

text \<open>
  The server's side of a login: the process that was forked for the descriptor \<open>connfd\<close>, the
  list with the key, the user and the mount point; \<open>h2\<close> is the state of the system then.
\<close>

definition login :: "'h os \<Rightarrow> plat \<Rightarrow> string \<Rightarrow> int \<Rightarrow> 'h client_connection \<Rightarrow> string \<Rightarrow> 'h \<Rightarrow> bool" where
  "login os q key connfd s mnt h2 \<longleftrightarrow>
     live connfd s \<and> wx s = [] \<and> cc_uid s = 0 \<and> string_ok q key \<and>
     (\<exists>entries h user key' uid gid h1.
        os_read_file os KEY_LIST_PATH (cc_host s) = (Some (concat (map key_line entries)), h) \<and>
        (\<forall>e \<in> set entries. entry_ok e) \<and> find (has_key key) entries = Some (mnt, user, key') \<and>
        os_getpwnam os user h = (Some (uid, gid), h1) \<and> os_exists os mnt h1 = (Some True, h2))"

lemma login_accepted:
  assumes "login os q key connfd s mnt h2"
  shows "\<exists>s1. new_client_connection os q connfd (s\<lparr>rx := rx_push (string_enc key) evs\<rparr>) = Some s1 \<and>
           healthy s1 \<and> rx s1 = evs \<and> tx s1 = tx s \<and> cc_mountPoint s1 = mnt \<and> cc_host s1 = h2"
proof -
  have l: "live connfd s" "wx s = []" "cc_uid s = 0" "string_ok q key"
    using assms by (simp_all add: login_def)
  obtain entries h user key' uid gid h1 where
    os: "os_read_file os KEY_LIST_PATH (cc_host s) = (Some (concat (map key_line entries)), h)"
      "\<forall>e \<in> set entries. entry_ok e" "find (has_key key) entries = Some (mnt, user, key')"
      "os_getpwnam os user h = (Some (uid, gid), h1)" "os_exists os mnt h1 = (Some True, h2)"
    using assms unfolding login_def by blast
  have g: "greeted connfd key evs (s\<lparr>rx := rx_push (string_enc key) evs\<rparr>)"
    using l(1,2) by (simp add: greeted_def)
  show ?thesis
    using constructor_accepted [OF g l(4) _ os(2-5)] os(1) l(1-3) by (auto simp: healthy_def live_def)
qed

text \<open>A network on which the client reaches the server.\<close>

definition reaches :: "network \<Rightarrow> string \<Rightarrow> string \<Rightarrow> bool" where
  "reaches net host port \<longleftrightarrow> network_ok net \<and> dial_getaddrinfo (net host port) = 0 \<and>
     dial_socket (net host port) \<noteq> - 1 \<and> dial_connect (net host port) \<noteq> - 1 \<and> dial_wx (net host port) = []"

text \<open>The same network, on which these messages arrive on every new connection.\<close>

definition delivering :: "network \<Rightarrow> byte list list \<Rightarrow> network" where
  "delivering net messages = (\<lambda>host port. (net host port)\<lparr>dial_rx := rx_pushes messages []\<rparr>)"

lemma reaches_accepted:
  assumes "reaches net host port" and "length key \<le> MAX_RW"
  shows "healthy (new_server_connection p (delivering net (be_bytes cmd_ACCEPT # ms)) host port key)"
    and "tx (new_server_connection p (delivering net (be_bytes cmd_ACCEPT # ms)) host port key) = string_enc key"
    and "rx (new_server_connection p (delivering net (be_bytes cmd_ACCEPT # ms)) host port key) = rx_pushes ms []"
proof -
  let ?net = "delivering net (be_bytes cmd_ACCEPT # ms)"
  have net: "network_ok ?net" using assms(1) by (simp add: reaches_def network_ok_def delivering_def)
  have "dial_getaddrinfo (?net host port) = 0" "dial_socket (?net host port) \<noteq> - 1"
    "dial_connect (?net host port) \<noteq> - 1" "dial_wx (?net host port) = []"
    "dial_rx (?net host port) = rx_push (be_bytes cmd_ACCEPT) (rx_pushes ms [])"
    using assms(1) by (simp_all add: reaches_def delivering_def)
  from new_connection_accepted [OF net refl this assms(2), of p] show
    "healthy (new_server_connection p ?net host port key)"
    "tx (new_server_connection p ?net host port key) = string_enc key"
    "rx (new_server_connection p ?net host port key) = rx_pushes ms []" by simp_all
qed

section \<open>The contract of a call\<close>

locale conversation =
  fixes os :: "'h os" and q :: plat
    and request :: "'q \<Rightarrow> byte list"
    and answers :: "'r \<Rightarrow> byte list \<Rightarrow> bool"
    and call :: "'q \<Rightarrow> server_connection \<Rightarrow> ('r \<times> server_connection) option"
    and spec :: "'q \<Rightarrow> 'a \<Rightarrow> 'r \<times> 'a"
    and ready :: "'a \<Rightarrow> 'h client_connection \<Rightarrow> bool"
    and ok :: "'q \<Rightarrow> 'a \<Rightarrow> bool"
  assumes served: "ready a s \<Longrightarrow> ok rq a \<Longrightarrow> spec rq a = (r, a') \<Longrightarrow>
        \<exists>s' reply. serve_step os q (s\<lparr>rx := rx_push (request rq) evs\<rparr>) = Some (True, s') \<and>
          tx s' = tx s @ reply \<and> rx s' = evs \<and> answers r reply \<and> ready a' s'"
    and answered: "healthy c \<Longrightarrow> ok rq a \<Longrightarrow> spec rq a = (r, a') \<Longrightarrow> answers r reply \<Longrightarrow>
        call rq (c\<lparr>rx := rx_push reply evs\<rparr>) = Some (r, c\<lparr>tx := tx c @ request rq, rx := evs\<rparr>)"
    and ready_healthy: "ready a s \<Longrightarrow> healthy s"
    and ready_rx: "ready a s \<Longrightarrow> ready a (s\<lparr>rx := evs\<rparr>)"
begin

text \<open>One call is one exchange.\<close>

lemma one_call:
  assumes "healthy c" and "ready a s" and "ok rq a" and "spec rq a = (r, a')"
  shows "\<exists>c' s'. session (call rq) (serve_step os q) c s r c' s' \<and> healthy c' \<and> ready a' s'"
proof -
  obtain s' reply where s: "serve_step os q (s\<lparr>rx := rx_push (request rq) (rx s)\<rparr>) = Some (True, s')"
    "tx s' = tx s @ reply" "rx s' = rx s" "answers r reply" "ready a' s'"
    using served [OF assms(2-4)] by blast
  let ?c = "c\<lparr>tx := tx c @ request rq\<rparr>"
  have "call rq (c\<lparr>rx := rx_push reply (rx c)\<rparr>) = Some (r, ?c)"
    using answered [OF assms(1,3,4) s(4), of "rx c"] by simp
  then have "session (call rq) (serve_step os q) c s r ?c s'"
    by (rule sessionI) (use s in simp_all)
  then show ?thesis
    using s(5) assms(1) by (intro exI [of _ ?c] exI [of _ s']) simp
qed

text \<open>A history of exchanges implements the history of the specification.\<close>

lemma history:
  assumes "healthy c" and "ready a s" and "all_ok ok spec rqs a" and "run_spec spec rqs a = (rs, a')"
  shows "\<exists>c' s'. exchange call os q rqs c s rs c' s' \<and> ready a' s'"
  using assms
proof (induction rqs arbitrary: c s a rs)
  case (Cons rq rqs)
  from Cons.prems(4) obtain r a1 rs' where run: "spec rq a = (r, a1)" "run_spec spec rqs a1 = (rs', a')" "rs = r # rs'"
    by (rule run_spec_Cons)
  have ok: "ok rq a" "all_ok ok spec rqs a1" using Cons.prems(3) run(1) by simp_all
  obtain c1 s1 where one: "session (call rq) (serve_step os q) c s r c1 s1" "healthy c1" "ready a1 s1"
    using one_call [OF Cons.prems(1,2) ok(1) run(1)] by blast
  obtain c' s' where "exchange call os q rqs c1 s1 rs' c' s'" "ready a' s'"
    using Cons.IH [OF one(2,3) ok(2) run(2)] by blast
  then show ?case
    using exchange.next_call [where call = call and rq = rq, OF one(1)] run(3) by blast
qed simp

text \<open>The client on the answers of the whole history.\<close>

lemma calls_answered:
  assumes "healthy c" and "all_ok ok spec rqs a" and "run_spec spec rqs a = (rs, a')"
    and "list_all2 answers rs replies"
  shows "run_calls call rqs (c\<lparr>rx := rx_pushes replies evs\<rparr>) =
           Some (rs, c\<lparr>tx := tx c @ concat (map request rqs), rx := evs\<rparr>)"
  using assms
proof (induction rqs arbitrary: c a rs replies)
  case (Cons rq rqs)
  from Cons.prems(3) obtain r a1 rs' where run: "spec rq a = (r, a1)" "run_spec spec rqs a1 = (rs', a')" "rs = r # rs'"
    by (rule run_spec_Cons)
  have ok: "ok rq a" "all_ok ok spec rqs a1" using Cons.prems(2) run(1) by simp_all
  obtain reply replies' where replies: "replies = reply # replies'" "answers r reply" "list_all2 answers rs' replies'"
    using Cons.prems(4) run(3) by (auto simp: list_all2_Cons1)
  let ?c = "c\<lparr>tx := tx c @ request rq\<rparr>"
  have "call rq (c\<lparr>rx := rx_pushes replies evs\<rparr>) = Some (r, ?c\<lparr>rx := rx_pushes replies' evs\<rparr>)"
    using answered [OF Cons.prems(1) ok(1) run(1) replies(2), of "rx_pushes replies' evs"] replies(1) by simp
  moreover have "run_calls call rqs (?c\<lparr>rx := rx_pushes replies' evs\<rparr>) =
      Some (rs', ?c\<lparr>tx := tx ?c @ concat (map request rqs), rx := evs\<rparr>)"
    using Cons.IH [OF _ ok(2) run(2) replies(3), of ?c] Cons.prems(1) by simp
  ultimately show ?case
    using run(3) by (simp add: upd_order)
qed simp

text \<open>The server on the requests of the whole history.\<close>

lemma requests_served:
  assumes "ready a s" and "all_ok ok spec rqs a" and "run_spec spec rqs a = (rs, a')"
  shows "\<exists>s' replies. turns os q (s\<lparr>rx := rx_pushes (map request rqs) evs\<rparr>) s' \<and>
           tx s' = tx s @ concat replies \<and> rx s' = evs \<and> list_all2 answers rs replies \<and> ready a' s'"
  using assms
proof (induction rqs arbitrary: s a rs)
  case Nil
  then show ?case
    using ready_rx turns.here by (intro exI [of _ "s\<lparr>rx := evs\<rparr>"] exI [of _ "[]"]) simp
next
  case (Cons rq rqs)
  from Cons.prems(3) obtain r a1 rs' where run: "spec rq a = (r, a1)" "run_spec spec rqs a1 = (rs', a')" "rs = r # rs'"
    by (rule run_spec_Cons)
  have ok: "ok rq a" "all_ok ok spec rqs a1" using Cons.prems(2) run(1) by simp_all
  let ?evs = "rx_pushes (map request rqs) evs"
  obtain s1 reply where s1: "serve_step os q (s\<lparr>rx := rx_push (request rq) ?evs\<rparr>) = Some (True, s1)"
    "tx s1 = tx s @ reply" "rx s1 = ?evs" "answers r reply" "ready a1 s1"
    using served [OF Cons.prems(1) ok(1) run(1)] by blast
  obtain s' replies where s': "turns os q (s1\<lparr>rx := ?evs\<rparr>) s'" "tx s' = tx s1 @ concat replies" "rx s' = evs"
    "list_all2 answers rs' replies" "ready a' s'"
    using Cons.IH [OF s1(5) ok(2) run(2)] by blast
  have "s1\<lparr>rx := ?evs\<rparr> = s1" using s1(3) by (metis upd_same(2))
  then have "turns os q (s\<lparr>rx := rx_pushes (map request (rq # rqs)) evs\<rparr>) s'"
    using turns.turn [OF s1(1)] s'(1) by simp
  then show ?case
    using s'(2-5) s1(2,4) run(3) by (intro exI [of _ s'] exI [of _ "reply # replies"]) simp
qed

text \<open>Both ends on a history that begins and ends in the middle of a conversation.\<close>

lemma batch:
  assumes "healthy c" and "ready a s" and "all_ok ok spec rqs a" and "run_spec spec rqs a = (rs, a')"
  shows "\<exists>replies s'. run_calls call rqs (c\<lparr>rx := rx_pushes replies (rx c)\<rparr>) =
             Some (rs, c\<lparr>tx := tx c @ concat (map request rqs)\<rparr>) \<and>
           turns os q (s\<lparr>rx := rx_pushes (map request rqs) (rx s)\<rparr>) s' \<and>
           tx s' = tx s @ concat replies \<and> rx s' = rx s \<and> ready a' s'"
proof -
  obtain s' replies where s': "turns os q (s\<lparr>rx := rx_pushes (map request rqs) (rx s)\<rparr>) s'"
    "tx s' = tx s @ concat replies" "rx s' = rx s" "list_all2 answers rs replies" "ready a' s'"
    using requests_served [OF assms(2-4), of "rx s"] by blast
  have "run_calls call rqs (c\<lparr>rx := rx_pushes replies (rx c)\<rparr>) = Some (rs, c\<lparr>tx := tx c @ concat (map request rqs)\<rparr>)"
    using calls_answered [OF assms(1,3,4) s'(4), of "rx c"] by simp
  then show ?thesis using s' by blast
qed

text \<open>A process that is given a history and a stop serves it, and ends.\<close>

lemma process_ends:
  assumes "ready a s" and "all_ok ok spec rqs a" and "run_spec spec rqs a = (rs, a')"
    and "rx s = rx_pushes (map request rqs) (rx_push (be_bytes cmd_STOP) evs)"
    and "\<And>t. ready a (s\<lparr>tx := t\<rparr>)"
  shows "\<exists>s' replies. processCommands os q s = Some (s'\<lparr>rx := evs, sock_open := False, socket := -1\<rparr>) \<and>
           tx s' = tx s @ be_bytes cmd_ACCEPT @ concat replies \<and> list_all2 answers rs replies \<and> ready a' s'"
proof -
  let ?s = "s\<lparr>tx := tx s @ be_bytes cmd_ACCEPT\<rparr>"
  have "agfs_write_cmd q (socket s) cmd_ACCEPT s = (2, ?s)"
    using ready_healthy [OF assms(1)] by (simp add: healthy_def io_simps)
  moreover have "?s\<lparr>rx := rx_pushes (map request rqs) (rx_push (be_bytes cmd_STOP) evs)\<rparr> = ?s"
    using assms(4) by (cases s) simp
  ultimately have run: "processCommands os q s =
      serve_loop os q (?s\<lparr>rx := rx_pushes (map request rqs) (rx_push (be_bytes cmd_STOP) evs)\<rparr>)"
    by (simp add: processCommands_def)
  obtain s1 replies where s1: "turns os q (?s\<lparr>rx := rx_pushes (map request rqs) (rx_push (be_bytes cmd_STOP) evs)\<rparr>) s1"
    "tx s1 = tx ?s @ concat replies" "rx s1 = rx_push (be_bytes cmd_STOP) evs" "list_all2 answers rs replies" "ready a' s1"
    using requests_served [OF assms(5,2,3)] by blast
  have "serve_loop os q s1 = Some (s1\<lparr>rx := evs, sock_open := False, socket := -1\<rparr>)"
    by (rule serve_loop_turn(2) [OF serve_step_stop [OF ready_healthy [OF s1(5)] s1(3)]])
  then show ?thesis
    using s1 serve_loop_turns [OF s1(1)] unfolding run
    by (intro exI [of _ s1] exI [of _ replies]) simp
qed

text \<open>The whole connection, each end run on all the bytes of the other.\<close>

lemma life:
  assumes "login os q key connfd s mnt h2" and "reaches net host port"
    and "\<And>s1. healthy s1 \<Longrightarrow> cc_mountPoint s1 = mnt \<Longrightarrow> cc_host s1 = h2 \<Longrightarrow> ready a s1"
    and "all_ok ok spec rqs a" and "run_spec spec rqs a = (rs, a')"
    and "messages = [string_enc key] @ map request rqs @ [be_bytes cmd_STOP]"
  shows "\<exists>s1 s2 s3 replies c c'.
    new_client_connection os q connfd (s\<lparr>rx := rx_pushes messages []\<rparr>) = Some s1 \<and>
    processCommands os q s1 = Some s2 \<and> \<not> connected s2 \<and> \<not> sock_open s2 \<and> rx s2 = [] \<and>
    tx s2 = tx s @ be_bytes cmd_ACCEPT @ concat replies \<and> cc_host s2 = cc_host s3 \<and> ready a' s3 \<and>
    c = new_server_connection p (delivering net (be_bytes cmd_ACCEPT # replies)) host port key \<and>
    connected c \<and> run_calls call rqs c = Some (rs, c') \<and> rx c' = [] \<and>
    tx (snd (stop p c')) = concat messages \<and> \<not> sock_open (snd (stop p c'))"
proof -
  let ?evs = "rx_pushes (map request rqs) (rx_push (be_bytes cmd_STOP) [])"
  have msgs: "rx_pushes messages [] = rx_push (string_enc key) ?evs"
    by (simp add: assms(6) rx_pushes_append)
  obtain s1 where s1: "new_client_connection os q connfd (s\<lparr>rx := rx_pushes messages []\<rparr>) = Some s1"
    and st: "healthy s1" "rx s1 = ?evs" "tx s1 = tx s" "cc_mountPoint s1 = mnt" "cc_host s1 = h2"
    using login_accepted [OF assms(1), of ?evs] unfolding msgs by blast
  have ready: "ready a s1" "ready a (s1\<lparr>tx := t\<rparr>)" for t
    using assms(3) [of s1] assms(3) [of "s1\<lparr>tx := t\<rparr>"] st(1,4,5) by simp_all
  obtain s3 replies where s3: "processCommands os q s1 = Some (s3\<lparr>rx := [], sock_open := False, socket := -1\<rparr>)"
      "tx s3 = tx s1 @ be_bytes cmd_ACCEPT @ concat replies" "list_all2 answers rs replies" "ready a' s3"
    using process_ends [OF ready(1) assms(4,5) st(2) ready(2)] by blast
  let ?s2 = "s3\<lparr>rx := [], sock_open := False, socket := -1\<rparr>"
  let ?c = "new_server_connection p (delivering net (be_bytes cmd_ACCEPT # replies)) host port key"
  have key: "length key \<le> MAX_RW" using assms(1) by (simp add: login_def string_ok_def)
  note c = reaches_accepted [OF assms(2) key, of p replies]
  let ?c' = "?c\<lparr>tx := string_enc key @ concat (map request rqs), rx := []\<rparr>"
  have "?c\<lparr>rx := rx_pushes replies []\<rparr> = ?c" using c(3) by (metis upd_same(2))
  then have calls: "run_calls call rqs ?c = Some (rs, ?c')"
    using calls_answered [OF c(1) assms(4,5) s3(3), of "[]"] c(2) by simp
  have "healthy ?c'" using c(1) by simp
  then have stop: "tx (snd (stop p ?c')) = concat messages" "\<not> sock_open (snd (stop p ?c'))"
    using stop_sent(1) [of ?c' p] healthy_stop [of ?c' p] by (simp_all add: assms(6))
  have "connected ?c" using c(1) by (simp add: healthy_def live_def connected_def)
  then show ?thesis
    using s1 s3 st(3) calls stop
    by (intro exI [of _ s1] exI [of _ ?s2] exI [of _ s3] exI [of _ replies] exI [of _ ?c] exI [of _ ?c'] conjI)
       (simp_all add: connected_def)
qed

end

section \<open>An example\<close>

text \<open>The process of the example server, with the key \<open>K\<close> on its list.\<close>

lemma forked_login: "login file_os ppc ''K'' 3 (forked ''K'') ''/m'' (cc_host (forked ''K''))"
proof -
  have "os_read_file file_os KEY_LIST_PATH (cc_host (forked ''K'')) =
      (Some (concat (map key_line [(''/m'', ''u'', ''K'')])), cc_host (forked ''K''))"
    "os_getpwnam file_os ''u'' (cc_host (forked ''K'')) = (Some (1000, 100), cc_host (forked ''K''))"
    "os_exists file_os ''/m'' (cc_host (forked ''K'')) = (Some True, cc_host (forked ''K''))"
    using one_entry by simp_all
  moreover have "find (has_key ''K'') [(''/m'', ''u'', ''K'')] = Some (''/m'', ''u'', ''K'')" by simp
  moreover have "live 3 (forked ''K'')" "wx (forked ''K'') = []" "cc_uid (forked ''K'') = 0" "string_ok ppc ''K''"
    by (simp_all add: forked_def file_server_def live_def string_ok_def NUL_def MAX_RW_def)
  ultimately show ?thesis unfolding login_def using one_entry(2) by blast
qed

lemma answering_reaches: "reaches (answering cmd_ACCEPT) ''h1'' ''80''"
  by (simp add: reaches_def answering_def)

end
