(* ===== verification/FileHistory.thy ===== *)
theory FileHistory
  imports Conversation
begin

text \<open>
  The calls on one file, reads and writes at any offsets with heartbeats in between: the
  client's methods, the server's handlers and the operating system behind them together
  implement a list of bytes.
\<close>

section \<open>The abstract file\<close>

datatype file_request = Read_at agsize_t agsize_t | Write_at agsize_t "byte list" | Beat

text \<open>
  What a call returns: the data or the number of bytes, and whether it reports an error; of a
  heartbeat, whether the connection is still there.
\<close>

datatype file_result = Data "byte list" bool | Written agsize_t bool | Alive bool

fun file_do :: "file_request \<Rightarrow> byte list \<Rightarrow> file_result \<times> byte list" where
  "file_do (Read_at sz off) content = (Data (take (unat sz) (drop (unat off) content)) False, content)"
| "file_do (Write_at off buf) content =
     (Written (word_of_nat (length buf)) False, put_at (unat off) buf content)"
| "file_do Beat content = (Alive True, content)"

text \<open>
  Requests that both hosts can hold in memory and one call can transfer; FUSE never writes
  nothing.
\<close>

fun feasible :: "plat \<Rightarrow> plat \<Rightarrow> file_request \<Rightarrow> bool" where
  "feasible p q (Read_at sz off) \<longleftrightarrow> unat off < 2 ^ 63 \<and> unat sz \<le> MAX_RW \<and> (\<forall>n \<le> unat sz. alloc_ok p n \<and> alloc_ok q n)"
| "feasible p q (Write_at off buf) \<longleftrightarrow> unat off < 2 ^ 63 \<and> length buf < 2 ^ 63 \<and> alloc_ok q (length buf) \<and> buf \<noteq> []"
| "feasible p q Beat \<longleftrightarrow> True"

section \<open>The client's calls\<close>

fun client_op ::
  "plat \<Rightarrow> string \<Rightarrow> file_request \<Rightarrow> server_connection \<Rightarrow> (file_result \<times> server_connection) option" where
  "client_op p path (Read_at sz off) c =
     map_option (map_prod (\<lambda>(data, err). Data data (neg_err err)) id) (readFile p path sz off c)"
| "client_op p path (Write_at off buf) c =
     map_option (map_prod (\<lambda>(n, err). Written n (neg_err err)) id) (Some (writeFile p path off buf c))"
| "client_op p path Beat c = (let c' = snd (heartbeat p c) in Some (Alive (connected c'), c'))"

text \<open>
  What the server's system does with the file at \<open>file\<close>, whose content is \<open>view\<close>: it can be
  opened for reading and for writing, which leaves the content alone. The descriptor has a
  view \<open>V\<close> of its own, for which the laws of POSIX hold; what is seen through it is the
  content of the file, and stays it when the descriptor is closed.
\<close>

definition backs :: "'h os \<Rightarrow> int \<Rightarrow> 'h file_view \<Rightarrow> 'h file_view \<Rightarrow> bool" where
  "backs os fd V view \<longleftrightarrow>
     (\<forall>h content pos. V h = Some (content, pos) \<longrightarrow>
        (\<exists>pos'. view h = Some (content, pos')) \<and> (\<exists>pos'. view (snd (os_close os fd h)) = Some (content, pos')))"

definition file_laws :: "'h os \<Rightarrow> string \<Rightarrow> 'h file_view \<Rightarrow> bool" where
  "file_laws os file view \<longleftrightarrow>
     (\<forall>h content pos m. view h = Some (content, pos) \<longrightarrow> m = O_RDONLY \<or> m = O_WRONLY \<longrightarrow>
        (\<exists>fd h' pos' V. os_open os file m h = (Inr fd, h') \<and> 0 \<le> fd \<and> V h' = Some (content, pos') \<and>
           seek_law os fd V \<and> (m = O_RDONLY \<longrightarrow> read_law os fd V) \<and> (m = O_WRONLY \<longrightarrow> write_law os fd V) \<and>
           backs os fd V view))"

lemma file_laws_open:
  assumes "file_laws os file view" and "view h = Some (content, pos)" and "m = O_RDONLY \<or> m = O_WRONLY"
  obtains fd h' pos' V where "os_open os file m h = (Inr fd, h')" "0 \<le> fd" "V h' = Some (content, pos')"
    "seek_law os fd V" "m = O_RDONLY \<longrightarrow> read_law os fd V" "m = O_WRONLY \<longrightarrow> write_law os fd V" "backs os fd V view"
  using assms(1) [unfolded file_laws_def, rule_format, OF assms(2,3)] by blast

lemma backsD:
  assumes "backs os fd V view" and "V h = Some (content, pos)"
  obtains pos' pos'' where "view h = Some (content, pos')" "view (snd (os_close os fd h)) = Some (content, pos'')"
  using assms unfolding backs_def by blast

section \<open>Requests and answers\<close>

fun request_of :: "string \<Rightarrow> file_request \<Rightarrow> byte list" where
  "request_of path (Read_at sz off) = read_request path sz off"
| "request_of path (Write_at off buf) = write_request path @ write_data buf off"
| "request_of path Beat = be_bytes cmd_HEARTBEAT"

text \<open>The answers that make the client's call return a result.\<close>

fun answers :: "file_result \<Rightarrow> byte list \<Rightarrow> bool" where
  "answers (Data d err) reply \<longleftrightarrow>
     \<not> err \<and> reply = read_reply d (word_of_nat (length d))"
| "answers (Written n err) reply \<longleftrightarrow>
     \<not> err \<and> (\<exists>e. \<not> neg_err e \<and> reply = be_bytes (0 :: agerr_t) @ write_reply n e)"
| "answers (Alive b) reply \<longleftrightarrow> b \<and> reply = be_bytes cmd_HEARTBEAT"

section \<open>One call\<close>

lemma client_answered:
  assumes "healthy c" and "path_ok path" and "feasible p q rq" and "file_do rq content = (r, content')"
    and "answers r reply"
  shows "client_op p path rq (c\<lparr>rx := rx_push reply evs\<rparr>) =
           Some (r, c\<lparr>tx := tx c @ request_of path rq, rx := evs\<rparr>)"
proof (cases rq)
  case (Read_at sz off)
  let ?data = "take (unat sz) (drop (unat off) content)"
  have r: "r = Data ?data False" "reply = read_reply ?data (word_of_nat (length ?data))"
    using assms(4,5) Read_at by auto
  have len: "length ?data \<le> MAX_RW" "alloc_ok p (length ?data)"
    using assms(3) Read_at by (simp_all add: min.coboundedI2)
  have err: "\<not> neg_err (word_of_nat (length ?data))"
    "sint (word_of_nat (length ?data) :: agerr_t) = int (length ?data)"
    using len(1) by (simp_all add: sint_length_u64 MAX_RW_def)
  have "readFile p path sz off (c\<lparr>rx := rx_push reply evs\<rparr>) = Some ((?data, word_of_nat (length ?data)),
      c\<lparr>tx := tx c @ read_request path sz off, rx := evs\<rparr>)"
    using readFile_answered [where c = "c\<lparr>rx := rx_push reply evs\<rparr>" and rest = "[]" and evs = evs]
      assms(1,2) r(2) len err by (simp add: upd_order)
  then show ?thesis
    using r(1) err(1) by (simp add: Read_at)
next
  case (Write_at off buf)
  obtain e where r: "r = Written (word_of_nat (length buf)) False" and e: "\<not> neg_err e"
    and reply: "reply = be_bytes (0 :: agerr_t) @ write_reply (word_of_nat (length buf)) e"
    using assms(4,5) Write_at by auto
  have "length buf < 2 ^ 63" using assms(3) Write_at by simp
  then have "writeFile p path off buf (c\<lparr>rx := rx_push reply evs\<rparr>) = ((word_of_nat (length buf), e),
      c\<lparr>tx := tx c @ write_request path @ write_data buf off, rx := evs\<rparr>)"
    using writeFile_answered [where c = "c\<lparr>rx := rx_push reply evs\<rparr>" and rest = "[]" and evs = evs
        and ?err0.0 = 0] assms(1,2) reply e by (simp add: upd_order)
  then show ?thesis
    using r e by (simp add: Write_at)
next
  case Beat
  have r: "r = Alive True" "reply = be_bytes cmd_HEARTBEAT" using assms(4,5) Beat by auto
  have "connected c" using assms(1) by (simp add: healthy_def live_def connected_def)
  then show ?thesis
    using heartbeat_answered [of "c\<lparr>rx := rx_push reply evs\<rparr>" evs p] assms(1) r
    by (simp add: Beat connected_def)
qed

lemma server_answers:
  assumes "healthy s" and "path_ok path" and "string_ok q path"
    and "file_laws os (path_append os (cc_mountPoint s) path) view"
    and "view (cc_host s) = Some (content, pos)" and "feasible p q rq"
    and "file_do rq content = (r, content')"
  shows "\<exists>s' reply pos'. serve_step os q (s\<lparr>rx := rx_push (request_of path rq) evs\<rparr>) = Some (True, s') \<and>
           tx s' = tx s @ reply \<and> rx s' = evs \<and> answers r reply \<and>
           view (cc_host s') = Some (content', pos') \<and> healthy s' \<and> cc_mountPoint s' = cc_mountPoint s"
proof (cases rq)
  case (Read_at sz off)
  obtain fd h pos1 V where o: "os_open os (path_append os (cc_mountPoint s) path) O_RDONLY (cc_host s) = (Inr fd, h)"
    "0 \<le> fd" "V h = Some (content, pos1)" and laws: "seek_law os fd V" "read_law os fd V" and V: "backs os fd V view"
    by (rule file_laws_open [OF assms(4,5), of O_RDONLY]) simp_all
  let ?data = "take (unat sz) (drop (unat off) content)"
  have sz: "alloc_ok q (unat sz)" "unat off < 2 ^ 63" "length ?data \<le> MAX_RW"
    using assms(6) Read_at by (simp_all add: min.coboundedI2)
  let ?args = "string_enc path @ be_bytes sz @ be_bytes off"
  obtain h' where run: "processRead os q (s\<lparr>rx := rx_push ?args evs\<rparr>) =
      Some (s\<lparr>rx := evs, tx := tx s @ read_reply ?data (word_of_nat (length ?data)), cc_host := h'\<rparr>)"
    and h': "V h' = Some (content, unat off + length ?data)"
    using processRead_data [OF requested_all [OF assms(1)] assms(3) sz(1,2), where data = ?data and view = V
        and os = os and evs = evs and fd = fd and h = h and content = content and pos = pos1]
      o laws sz(3) by auto
  let ?s = "s\<lparr>rx := evs, tx := tx s @ read_reply ?data (word_of_nat (length ?data)), cc_host := h'\<rparr>"
  have rq: "request_of path rq = be_bytes cmd_READ @ ?args" by (simp add: Read_at read_request_def)
  have "serve_step os q (s\<lparr>rx := rx_push (request_of path rq) evs\<rparr>) = Some (True, ?s)"
    using serve_request [OF assms(1) rq cmd_not_stop(5), of _ evs os q] run by (simp add: dispatch_cmd)
  moreover have "answers r (read_reply ?data (word_of_nat (length ?data)))" "content' = content"
    using assms(7) Read_at by auto
  moreover obtain pos' where "view h' = Some (content, pos')" using backsD [OF V h'] by metis
  ultimately show ?thesis
    using assms(1) by (intro exI [of _ ?s] exI conjI) simp_all
next
  case (Write_at off buf)
  obtain fd h pos1 V where o: "os_open os (path_append os (cc_mountPoint s) path) O_WRONLY (cc_host s) = (Inr fd, h)"
    "0 \<le> fd" "V h = Some (content, pos1)" and laws: "seek_law os fd V" "write_law os fd V" and V: "backs os fd V view"
    by (rule file_laws_open [OF assms(4,5), of O_WRONLY]) simp_all
  have f: "length buf < 2 ^ 63" "alloc_ok q (length buf)" "unat off < 2 ^ 63" "buf \<noteq> []"
    using assms(6) Write_at by simp_all
  let ?args = "string_enc path @ write_data buf off"
  have segs: "rx_push buf evs = map Seg [buf] @ evs" using f(4) by (simp add: rx_push_def)
  obtain h' err e where run: "processWrite os q (s\<lparr>rx := rx_push ?args evs\<rparr>) =
      Some (s\<lparr>rx := evs, errno := e, tx := tx s @ be_bytes (0 :: agerr_t) @
        write_reply (word_of_nat (length buf)) err, cc_host := snd (os_close os fd h')\<rparr>)"
    and err: "\<not> neg_err err" and h': "V h' = Some (put_at (unat off) buf content, unat off + length buf)"
    using processWrite_data [where c = "s\<lparr>rx := rx_push ?args evs\<rparr>"
        and segs = "[buf]" and ?buf0.0 = buf and ?evs0.0 = evs and evs = evs
        and buf = buf and off = off and path = path and p = q and os = os and fd = fd and h = h
        and content = content and pos = pos1 and view = V]
      assms(1,3) f o laws segs
    by (auto simp: requested_def write_data_def)
  let ?s = "s\<lparr>rx := evs, errno := e, tx := tx s @ be_bytes (0 :: agerr_t) @
        write_reply (word_of_nat (length buf)) err, cc_host := snd (os_close os fd h')\<rparr>"
  have rq: "request_of path rq = be_bytes cmd_WRITE @ ?args" by (simp add: Write_at write_request_def)
  have "serve_step os q (s\<lparr>rx := rx_push (request_of path rq) evs\<rparr>) = Some (True, ?s)"
    using serve_request [OF assms(1) rq cmd_not_stop(6), of _ evs os q] run by (simp add: dispatch_cmd)
  moreover obtain pos' where "view (snd (os_close os fd h')) = Some (put_at (unat off) buf content, pos')"
    using backsD [OF V h'] by metis
  moreover have "answers r (be_bytes (0 :: agerr_t) @ write_reply (word_of_nat (length buf)) err)"
    "content' = put_at (unat off) buf content"
    using assms(7) Write_at err by auto
  ultimately show ?thesis
    using assms(1) by (intro exI [of _ ?s] exI conjI) simp_all
next
  case Beat
  let ?s = "s\<lparr>rx := evs, tx := tx s @ be_bytes cmd_HEARTBEAT\<rparr>"
  have "serve_step os q (s\<lparr>rx := rx_push (request_of path rq) evs\<rparr>) = Some (True, ?s)"
    using serve_step_heartbeat [of "s\<lparr>rx := rx_push (request_of path rq) evs\<rparr>" evs os q] assms(1)
    by (simp add: Beat)
  then show ?thesis
    using assms(1,5,7) Beat by (intro exI [of _ ?s] exI conjI) auto
qed

text \<open>The calls on a file fulfil the contract.\<close>

definition file_ready :: "'h os \<Rightarrow> string \<Rightarrow> 'h file_view \<Rightarrow> byte list \<Rightarrow> 'h client_connection \<Rightarrow> bool" where
  "file_ready os path view content s \<longleftrightarrow> healthy s \<and>
     file_laws os (path_append os (cc_mountPoint s) path) view \<and> (\<exists>pos. view (cc_host s) = Some (content, pos))"

definition doable :: "plat \<Rightarrow> plat \<Rightarrow> string \<Rightarrow> file_request \<Rightarrow> bool" where
  "doable p q path rq \<longleftrightarrow> path_ok path \<and> string_ok q path \<and> feasible p q rq"

interpretation file_talk: conversation os q "request_of path" answers "client_op p path" file_do
    "file_ready os path view" "\<lambda>rq content. doable p q path rq" for os q path p view
proof unfold_locales
  fix content content' s rq r evs
  assume a: "file_ready os path view content s" "doable p q path rq" "file_do rq content = (r, content')"
  obtain pos where s: "healthy s" "file_laws os (path_append os (cc_mountPoint s) path) view"
    "view (cc_host s) = Some (content, pos)"
    using a(1) unfolding file_ready_def by blast
  have rq: "path_ok path" "string_ok q path" "feasible p q rq" using a(2) by (simp_all add: doable_def)
  obtain s' reply pos' where "serve_step os q (s\<lparr>rx := rx_push (request_of path rq) evs\<rparr>) = Some (True, s')"
    "tx s' = tx s @ reply" "rx s' = evs" "answers r reply" "view (cc_host s') = Some (content', pos')"
    "healthy s'" "cc_mountPoint s' = cc_mountPoint s"
    using server_answers [OF s(1) rq(1,2) s(2,3) rq(3) a(3), of evs] by blast
  then show "\<exists>s' reply. serve_step os q (s\<lparr>rx := rx_push (request_of path rq) evs\<rparr>) = Some (True, s') \<and>
      tx s' = tx s @ reply \<and> rx s' = evs \<and> answers r reply \<and> file_ready os path view content' s'"
    using s(2) by (intro exI [of _ s'] exI [of _ reply]) (simp add: file_ready_def)
next
  fix c :: server_connection and rq r content content' reply evs
  assume "healthy c" "doable p q path rq" "file_do rq content = (r, content')" "answers r reply"
  then show "client_op p path rq (c\<lparr>rx := rx_push reply evs\<rparr>) =
      Some (r, c\<lparr>tx := tx c @ request_of path rq, rx := evs\<rparr>)"
    using client_answered [of c path p q rq content r content' reply evs] by (simp add: doable_def)
qed (simp_all add: file_ready_def)

lemma file_os_file_laws: "file_laws file_os file Some"
  unfolding file_laws_def
proof (intro allI impI)
  fix h :: "byte list \<times> nat" and content pos and m :: agmask_t
  assume "Some h = Some (content, pos)"
  moreover have "backs file_os 5 Some Some" by (simp add: backs_def)
  ultimately show "\<exists>fd h' pos' V. os_open file_os file m h = (Inr fd, h') \<and> 0 \<le> fd \<and> V h' = Some (content, pos') \<and>
      seek_law file_os fd V \<and> (m = O_RDONLY \<longrightarrow> read_law file_os fd V) \<and>
      (m = O_WRONLY \<longrightarrow> write_law file_os fd V) \<and> backs file_os fd V Some"
    using file_os_laws [of 5] by (intro exI [of _ 5] exI [of _ "(fst h, 0)"] exI [of _ 0] exI [of _ Some]) auto
qed

section \<open>Properties\<close>

text \<open>C16: The refinement of a file: any sequence of reads and writes of one file through the client,
  with any offsets and sizes and heartbeats between any two of them, returns what the same sequence returns on a list of bytes, and
  leaves the server's file with the bytes of that list: data come back whole although the
  system may read in pieces, a write beyond the end fills the gap with zeros, no call of the
  history sees an answer to another one.\<close>

theorem file_history:
  assumes "healthy c" and "healthy s" and "path_ok path" and "string_ok q path"
    and "file_laws os (path_append os (cc_mountPoint s) path) view"
    and "view (cc_host s) = Some (content, pos)" and "\<forall>rq \<in> set rqs. feasible p q rq"
    and "run_spec file_do rqs content = (rs, content')"
  shows "\<exists>c' s' pos'. exchange (client_op p path) os q rqs c s rs c' s' \<and>
           view (cc_host s') = Some (content', pos')"
proof -
  have "file_ready os path view content s" using assms(2,5,6) by (simp add: file_ready_def)
  moreover have "all_ok (\<lambda>rq content. doable p q path rq) file_do rqs content"
    using assms(3,4,7) by (intro all_ok_forall) (simp add: doable_def)
  ultimately obtain c' s' where "exchange (client_op p path) os q rqs c s rs c' s'"
    "file_ready os path view content' s'"
    using file_talk.history [OF assms(1) _ _ assms(8)] by blast
  then show ?thesis unfolding file_ready_def by blast
qed

theorem file_history_witness:
  "\<exists>c' s' pos'. exchange (client_op x86 ''/f'') file_os ppc
       [Write_at 5 [7], Read_at 4 2, Beat, Write_at 0 [1, 2], Read_at 9 0] open_client file_server
       [Written 1 False, Data [30, 40, 0, 7] False, Alive True, Written 2 False, Data [1, 2, 30, 40, 0, 7] False]
       c' s' \<and> cc_host s' = ([1, 2, 30, 40, 0, 7], pos')"
proof -
  let ?rqs = "[Write_at 5 [7], Read_at 4 2, Beat, Write_at 0 [1, 2], Read_at 9 0]"
  have f: "\<forall>rq \<in> set ?rqs. feasible x86 ppc rq"
    by (simp add: MAX_RW_def)
  have run: "run_spec file_do ?rqs [10, 20, 30, 40] =
      ([Written 1 False, Data [30, 40, 0, 7] False, Alive True, Written 2 False, Data [1, 2, 30, 40, 0, 7] False],
       [1, 2, 30, 40, 0, 7])"
    by (simp add: put_at_def)
  from file_history [OF _ _ _ _ file_os_file_laws _ f run, of open_client file_server "''/f''"] show ?thesis
    by simp
qed

text \<open>The life of a connection: when the key of the client is on the server's list, the client's
  whole conversation (its key, any history of reads, writes and heartbeats on one file, the
  stop) makes the server's process log in, serve every request and end with its socket closed;
  and on the bytes that this process sends, the client is connected, its calls return what
  the same history returns on a list of bytes, and the bytes it has sent when it has stopped
  are the conversation that the server was given. The server's file then holds that list of
  bytes, and neither side has anything left to read.\<close>

theorem connection_life:
  assumes "login os q key connfd s mnt h2" and "reaches net host port"
    and "path_ok path" and "string_ok q path" and "file_laws os (path_append os mnt path) view"
    and "view h2 = Some (content, pos)" and "\<forall>rq \<in> set rqs. feasible p q rq"
    and "run_spec file_do rqs content = (rs, content')"
    and "messages = [string_enc key] @ map (request_of path) rqs @ [be_bytes cmd_STOP]"
  shows "\<exists>s1 s2 replies pos' c c'.
    new_client_connection os q connfd (s\<lparr>rx := rx_pushes messages []\<rparr>) = Some s1 \<and>
    processCommands os q s1 = Some s2 \<and> \<not> connected s2 \<and> \<not> sock_open s2 \<and> rx s2 = [] \<and>
    tx s2 = tx s @ be_bytes cmd_ACCEPT @ concat replies \<and> view (cc_host s2) = Some (content', pos') \<and>
    c = new_server_connection p (delivering net (be_bytes cmd_ACCEPT # replies)) host port key \<and>
    connected c \<and> run_calls (client_op p path) rqs c = Some (rs, c') \<and> rx c' = [] \<and>
    tx (snd (stop p c')) = concat messages \<and> \<not> sock_open (snd (stop p c'))"
proof -
  have "file_ready os path view content s1"
    if "healthy s1" "cc_mountPoint s1 = mnt" "cc_host s1 = h2" for s1
    using that assms(5,6) by (simp add: file_ready_def)
  moreover have "all_ok (\<lambda>rq content. doable p q path rq) file_do rqs content"
    using assms(3,4,7) by (intro all_ok_forall) (simp add: doable_def)
  ultimately obtain s1 s2 s3 replies c c' where
    "new_client_connection os q connfd (s\<lparr>rx := rx_pushes messages []\<rparr>) = Some s1"
    "processCommands os q s1 = Some s2" "\<not> connected s2" "\<not> sock_open s2" "rx s2 = []"
    "tx s2 = tx s @ be_bytes cmd_ACCEPT @ concat replies" "cc_host s2 = cc_host s3" "file_ready os path view content' s3"
    "c = new_server_connection p (delivering net (be_bytes cmd_ACCEPT # replies)) host port key"
    "connected c" "run_calls (client_op p path) rqs c = Some (rs, c')" "rx c' = []"
    "tx (snd (stop p c')) = concat messages" "\<not> sock_open (snd (stop p c'))"
    using file_talk.life [OF assms(1,2) _ _ assms(8,9)] by blast
  then show ?thesis unfolding file_ready_def by metis
qed

theorem connection_life_witness:
  "\<exists>s1 s2 net c'.
     new_client_connection file_os ppc 3 ((forked ''K'')\<lparr>rx := rx_pushes ([string_enc ''K''] @
       map (request_of ''/f'') [Read_at 2 1, Beat, Write_at 0 [7]] @ [be_bytes cmd_STOP]) []\<rparr>) = Some s1 \<and>
     processCommands file_os ppc s1 = Some s2 \<and> \<not> sock_open s2 \<and> fst (cc_host s2) = [7, 20, 30, 40] \<and>
     run_calls (client_op x86 ''/f'') [Read_at 2 1, Beat, Write_at 0 [7]]
       (new_server_connection x86 net ''h1'' ''80'' ''K'') =
       Some ([Data [20, 30] False, Alive True, Written 1 False], c')"
proof -
  let ?rqs = "[Read_at 2 1, Beat, Write_at 0 [7]]"
  have view: "Some (cc_host (forked ''K'')) = Some ([10, 20, 30, 40], 0)"
    by (simp add: forked_def)
  have f: "\<forall>rq \<in> set ?rqs. feasible x86 ppc rq" by (simp add: MAX_RW_def)
  have run: "run_spec file_do ?rqs [10, 20, 30, 40] =
      ([Data [20, 30] False, Alive True, Written 1 False], [7, 20, 30, 40])"
    by (simp add: put_at_def)
  obtain s1 s2 pos' net' c' where
    "new_client_connection file_os ppc 3 ((forked ''K'')\<lparr>rx := rx_pushes ([string_enc ''K''] @
       map (request_of ''/f'') ?rqs @ [be_bytes cmd_STOP]) []\<rparr>) = Some s1"
    "processCommands file_os ppc s1 = Some s2" "\<not> sock_open s2"
    "Some (cc_host s2) = Some ([7, 20, 30, 40], pos')"
    "run_calls (client_op x86 ''/f'') ?rqs (new_server_connection x86 net' ''h1'' ''80'' ''K'') =
       Some ([Data [20, 30] False, Alive True, Written 1 False], c')"
    using connection_life [OF forked_login answering_reaches example_path(1,3) file_os_file_laws view f run refl]
    by blast
  then show ?thesis
    by (intro exI [of _ s1] exI [of _ s2] exI [of _ net'] exI [of _ c']) simp
qed

end
