(* ===== verification/QueryHistory.thy ===== *)
theory QueryHistory
  imports Conversation
begin

text \<open>
  The calls that ask for metadata, or whether something can be done: \<^verbatim>\<open>getattr\<close>,
  \<^verbatim>\<open>access\<close>, \<^verbatim>\<open>open\<close> and \<^verbatim>\<open>readdir\<close>, on any paths, with heartbeats in between. The
  client's methods and the server's handlers together implement the calls on the system
  behind the server, whose answers they bring over.
\<close>

section \<open>The directory of a server\<close>

text \<open>
  What is in a directory: its entries with the metadata that is sent, or \<^verbatim>\<open>ENOTDIR\<close>. It is
  \<open>None\<close> when the file system library throws, or when the directory changes between the two
  passes of the server over it.
\<close>

definition list_dir :: "'h os \<Rightarrow> string \<Rightarrow> 'h \<Rightarrow> (((string \<times> stat) list \<times> agerr_t) \<times> 'h) option" where
  "list_dir os dir h =
     (let (found, h1) = os_exists os dir h;
          (isdir, h2) = os_is_directory os dir h1
      in case (found, isdir) of
           (Some _, Some False) \<Rightarrow> Some (([], word_of_int (- ENOTDIR)), h2)
         | (Some True, Some True) \<Rightarrow>
             (let (counted, h3) = os_listdir os dir h2;
                  (listed, h4) = os_listdir os dir h3
              in case (counted, listed) of
                   (Some names0, Some names) \<Rightarrow>
                     (if length names0 = length names
                      then (let (es, h5) = stat_entries os dir names h4
                            in Some ((map entry_view es, 0), h5))
                      else None)
                 | _ \<Rightarrow> None)
         | _ \<Rightarrow> None)"

lemma list_dir_cases:
  assumes "list_dir os dir h = Some ((files, err), h')"
  obtains (listed) h1 h2 h3 h4 counted names es where
      "os_exists os dir h = (Some True, h1)" "os_is_directory os dir h1 = (Some True, h2)"
      "os_listdir os dir h2 = (Some counted, h3)" "length counted = length names"
      "os_listdir os dir h3 = (Some names, h4)" "stat_entries os dir names h4 = (es, h')"
      "files = map entry_view es" "err = 0"
  | (refused) found h1 where "os_exists os dir h = (Some found, h1)"
      "os_is_directory os dir h1 = (Some False, h')" "files = []" "err = word_of_int (- ENOTDIR)"
proof -
  obtain found h1 where 1: "os_exists os dir h = (found, h1)" by fastforce
  obtain isdir h2 where 2: "os_is_directory os dir h1 = (isdir, h2)" by fastforce
  obtain counted h3 where 3: "os_listdir os dir h2 = (counted, h3)" by fastforce
  obtain names h4 where 4: "os_listdir os dir h3 = (names, h4)" by fastforce
  show thesis
    using assms 1 2 3 4 listed [of h1 h2 _ h3 _ h4] refused [of _ h1]
    by (auto simp: list_dir_def Let_def split: option.splits bool.splits if_splits prod.splits)
qed

section \<open>Queries and their answers\<close>

datatype query = Stat_of string | May string agmask_t | Can_open string agmask_t | Entries_of string | Ping

datatype query_result =
    Stat_is stat agerr_t
  | Status_is agerr_t
  | Entries_are "(string \<times> stat) list" agerr_t
  | Pong bool

text \<open>What each query does to the system of a server that serves the mount point \<open>mnt\<close>.\<close>

fun query_do :: "'h os \<Rightarrow> string \<Rightarrow> query \<Rightarrow> 'h \<Rightarrow> query_result \<times> 'h" where
  "query_do os mnt (Stat_of path) h =
     (case os_lstat os (path_append os mnt path) h of
        (Inl e, h') \<Rightarrow> (Stat_is zero_stat (word_of_int (- e)), h')
      | (Inr st, h') \<Rightarrow> (Stat_is (stat_view st) 0, h'))"
| "query_do os mnt (May path m) h =
     (case os_access os (path_append os mnt path) m h of
        (r, h') \<Rightarrow> (Status_is (case r of Inl _ \<Rightarrow> -1 | Inr _ \<Rightarrow> 0), h'))"
| "query_do os mnt (Can_open path m) h =
     (case os_open os (path_append os mnt path) m h of
        (Inl e, h') \<Rightarrow> (Status_is (word_of_int (- e)), h')
      | (Inr fd, h') \<Rightarrow> (Status_is 0, snd (os_close os fd h')))"
| "query_do os mnt (Entries_of path) h =
     (case list_dir os (path_append os mnt path) h of
        Some ((files, err), h') \<Rightarrow> (Entries_are files err, h')
      | None \<Rightarrow> (Entries_are [] 0, h))"
| "query_do os mnt Ping h = (Pong True, h)"

fun query_path :: "query \<Rightarrow> string" where
  "query_path (Stat_of path) = path"
| "query_path (May path m) = path"
| "query_path (Can_open path m) = path"
| "query_path (Entries_of path) = path"
| "query_path Ping = ''''"

text \<open>
  When the answer can be brought over: the path and the names can be allocated, an error number
  is one, a descriptor is one, and the listing of a directory does not fail in the middle.
\<close>

fun query_ok :: "'h os \<Rightarrow> plat \<Rightarrow> plat \<Rightarrow> string \<Rightarrow> query \<Rightarrow> 'h \<Rightarrow> bool" where
  "query_ok os p q mnt rq h \<longleftrightarrow> path_ok (query_path rq) \<and> string_ok q (query_path rq) \<and>
     (case rq of
        Stat_of path \<Rightarrow>
          (case fst (os_lstat os (path_append os mnt path) h) of Inl e \<Rightarrow> 0 < e \<and> e < 2 ^ 31 | Inr _ \<Rightarrow> True)
      | Can_open path m \<Rightarrow>
          (case fst (os_open os (path_append os mnt path) m h) of Inl _ \<Rightarrow> True | Inr fd \<Rightarrow> 0 \<le> fd)
      | Entries_of path \<Rightarrow>
          (case list_dir os (path_append os mnt path) h of
             None \<Rightarrow> False
           | Some ((files, err), h') \<Rightarrow> length files < 2 ^ 64 \<and> (\<forall>v \<in> set files. string_ok p (fst v)))
      | _ \<Rightarrow> True)"

declare query_ok.simps [simp del]

fun query_request :: "query \<Rightarrow> byte list" where
  "query_request (Stat_of path) = getattr_request path"
| "query_request (May path m) = access_request path m"
| "query_request (Can_open path m) = open_request path m"
| "query_request (Entries_of path) = readdir_request path"
| "query_request Ping = be_bytes cmd_HEARTBEAT"

fun query_answers :: "plat \<Rightarrow> query_result \<Rightarrow> byte list \<Rightarrow> bool" where
  "query_answers p (Stat_is st err) reply \<longleftrightarrow>
     (if neg_err err then st = zero_stat else stat_view st = st) \<and> reply = getattr_reply st err"
| "query_answers p (Status_is err) reply \<longleftrightarrow> reply = be_bytes err"
| "query_answers p (Entries_are files err) reply \<longleftrightarrow>
     (if neg_err err then files = []
      else map entry_view files = files \<and> length files < 2 ^ 64 \<and> (\<forall>v \<in> set files. string_ok p (fst v))) \<and>
     reply = readdir_reply files err"
| "query_answers p (Pong b) reply \<longleftrightarrow> b \<and> reply = be_bytes cmd_HEARTBEAT"

text \<open>The client's methods.\<close>

fun query_op :: "plat \<Rightarrow> query \<Rightarrow> server_connection \<Rightarrow> (query_result \<times> server_connection) option" where
  "query_op p (Stat_of path) c = (let ((st, err), c) = getattr p path c in Some (Stat_is st err, c))"
| "query_op p (May path m) c = (let (err, c) = access p path m c in Some (Status_is err, c))"
| "query_op p (Can_open path m) c = (let (err, c) = open_file p path m c in Some (Status_is err, c))"
| "query_op p (Entries_of path) c = do { ((files, err), c) \<leftarrow> readdir p path c; Some (Entries_are files err, c) }"
| "query_op p Ping c = (let c' = snd (heartbeat p c) in Some (Pong (connected c'), c'))"

section \<open>The client on an answer\<close>

lemma query_answered:
  assumes "healthy c" and "path_ok (query_path rq)" and "query_answers p r reply"
    and "query_do os mnt rq h = (r, h')"
  shows "query_op p rq (c\<lparr>rx := rx_push reply evs\<rparr>) =
           Some (r, c\<lparr>tx := tx c @ query_request rq, rx := evs\<rparr>)"
proof -
  let ?c = "c\<lparr>rx := rx_push reply evs\<rparr>"
  have c: "healthy ?c" using assms(1) by simp
  show ?thesis
  proof (cases rq)
    case (Stat_of path)
    then obtain st err where r: "r = Stat_is st err" using assms(4) by (auto split: prod.splits sum.splits)
    have reply: "reply = getattr_reply st err" "if neg_err err then st = zero_stat else stat_view st = st"
      using assms(3) r by simp_all
    have "getattr p path ?c = ((if neg_err err then zero_stat else stat_view st, err),
        ?c\<lparr>tx := tx ?c @ getattr_request path, rx := evs\<rparr>)"
      using getattr_answered [OF c, of path st err "[]" evs p] assms(2) Stat_of reply(1) by simp
    then show ?thesis
      using r reply(2) by (simp add: Stat_of upd_order split: if_splits)
  next
    case (May path m)
    then obtain err where r: "r = Status_is err" "reply = be_bytes err" using assms(3,4) by (auto split: prod.splits)
    have "access p path m ?c = (err, ?c\<lparr>tx := tx ?c @ access_request path m, rx := evs\<rparr>)"
      using access_answered [OF c, of path err "[]" evs p m] assms(2) May r(2) by simp
    then show ?thesis
      using r by (simp add: May upd_order)
  next
    case (Can_open path m)
    then obtain err where r: "r = Status_is err" "reply = be_bytes err"
      using assms(3,4) by (auto split: prod.splits sum.splits)
    have "open_file p path m ?c = (err, ?c\<lparr>tx := tx ?c @ open_request path m, rx := evs\<rparr>)"
      using open_answered [OF c, of path err "[]" evs p m] assms(2) Can_open r(2) by simp
    then show ?thesis
      using r by (simp add: Can_open upd_order)
  next
    case (Entries_of path)
    then obtain files err where r: "r = Entries_are files err"
      using assms(4) by (auto split: option.splits prod.splits)
    have reply: "reply = readdir_reply files err"
      "if neg_err err then files = [] else map entry_view files = files \<and> length files < 2 ^ 64 \<and>
         (\<forall>v \<in> set files. string_ok p (fst v))"
      using assms(3) unfolding r query_answers.simps by blast+
    have files: "length files < 2 ^ 64" "\<forall>v \<in> set files. string_ok p (fst v)"
      using reply(2) by (auto split: if_splits)
    have "readdir p path ?c = Some ((if neg_err err then [] else map entry_view files, err),
        ?c\<lparr>tx := tx ?c @ readdir_request path, rx := evs\<rparr>)"
      using readdir_answered [OF c _ files, of path err "[]" evs] assms(2) Entries_of reply(1) by simp
    then show ?thesis
      using r reply(2) by (simp add: Entries_of upd_order split: if_splits)
  next
    case Ping
    then have r: "r = Pong True" "reply = be_bytes cmd_HEARTBEAT" using assms(3,4) by auto
    have "connected c" using assms(1) by (simp add: healthy_def live_def connected_def)
    then show ?thesis
      using heartbeat_answered [OF c, of evs p] r by (simp add: Ping connected_def)
  qed
qed

section \<open>The server on a query\<close>

lemma entry_enc_view [simp]: "entry_enc (entry_view v) = entry_enc v"
  by (simp add: entry_enc_def entry_view_def)

lemma entry_view_enc [simp]: "concat (map entry_enc (map entry_view es)) = concat (map entry_enc es)"
  by (simp only: map_map comp_def entry_enc_view)

lemma entry_view_idem [simp]: "entry_view (entry_view v) = entry_view v"
  by (simp add: entry_view_def)

lemma getattr_reply_view: "getattr_reply (stat_view st) err = getattr_reply st err"
  by (simp add: getattr_reply_def)

lemma zero_errno: "0 < e \<Longrightarrow> e < 2 ^ 31 \<Longrightarrow> neg_err (word_of_int (- e))"
  using sint_neg_errno [of e] by simp

text \<open>What a turn leaves: the answer is sent, the system is as the query leaves it.\<close>

lemma turn_done:
  assumes "healthy s" and "request = be_bytes cmd @ args" and "cmd \<noteq> cmd_STOP"
    and "dispatch os q cmd (s\<lparr>rx := rx_push args evs\<rparr>) =
      Some (s\<lparr>rx := evs, errno := e, tx := tx s @ reply, cc_host := h\<rparr>)"
  shows "\<exists>s'. serve_step os q (s\<lparr>rx := rx_push request evs\<rparr>) = Some (True, s') \<and>
           tx s' = tx s @ reply \<and> rx s' = evs \<and> healthy s' \<and> cc_mountPoint s' = cc_mountPoint s \<and> cc_host s' = h"
  using serve_request [OF assms(1-3), of _ evs os q] assms(1,4)
  by (intro exI [of _ "s\<lparr>rx := evs, errno := e, tx := tx s @ reply, cc_host := h\<rparr>"]) simp

lemma errno_same: "s\<lparr>rx := evs, tx := t, cc_host := h\<rparr> = s\<lparr>rx := evs, errno := errno s, tx := t, cc_host := h\<rparr>"
  by (cases s) simp

lemma query_served:
  assumes "healthy s" and "query_ok os p q (cc_mountPoint s) rq (cc_host s)"
    and "query_do os (cc_mountPoint s) rq (cc_host s) = (r, h')"
  shows "\<exists>s' reply. serve_step os q (s\<lparr>rx := rx_push (query_request rq) evs\<rparr>) = Some (True, s') \<and>
           tx s' = tx s @ reply \<and> rx s' = evs \<and> query_answers p r reply \<and>
           healthy s' \<and> cc_mountPoint s' = cc_mountPoint s \<and> cc_host s' = h'"
proof -
  note req = requested_all [OF assms(1), where evs = evs]
  have str: "string_ok q (query_path rq)" using assms(2) by (simp add: query_ok.simps)
  have done': "\<exists>s' reply. serve_step os q (s\<lparr>rx := rx_push (query_request rq) evs\<rparr>) = Some (True, s') \<and>
           tx s' = tx s @ reply \<and> rx s' = evs \<and> query_answers p r reply \<and>
           healthy s' \<and> cc_mountPoint s' = cc_mountPoint s \<and> cc_host s' = h'"
    if "query_request rq = be_bytes cmd @ args" "cmd \<noteq> cmd_STOP" "query_answers p r reply"
      "dispatch os q cmd (s\<lparr>rx := rx_push args evs\<rparr>) =
        Some (s\<lparr>rx := evs, errno := e, tx := tx s @ reply, cc_host := h'\<rparr>)" for cmd args reply e
    using turn_done [OF assms(1) that(1,2,4)] that(3) by blast
  let ?dir = "path_append os (cc_mountPoint s) (query_path rq)"
  show ?thesis
  proof (cases rq)
    case (Stat_of path)
    obtain x h where l: "os_lstat os ?dir (cc_host s) = (x, h)" by fastforce
    show ?thesis
    proof (cases x)
      case (Inl e)
      then have e: "neg_err (word_of_int (- e))"
        using assms(2) l Stat_of by (intro zero_errno) (simp_all add: query_ok.simps)
      have r: "r = Stat_is zero_stat (word_of_int (- e))" "h' = h" using assms(3) l Inl Stat_of by simp_all
      show ?thesis
        using processGetAttr_failed [OF req, where p = q and path = path and os = os and e = e and h = h] str l Inl e r Stat_of
        by (intro done' [of cmd_GETATTR "string_enc path" "getattr_reply zero_stat (word_of_int (- e))" e])
           (simp_all add: getattr_request_def cmd_not_stop dispatch_cmd)
    next
      case (Inr st)
      have r: "r = Stat_is (stat_view st) 0" "h' = h" using assms(3) l Inr Stat_of by simp_all
      show ?thesis
        using processGetAttr_found [OF req, where p = q and path = path and os = os and st = st and h = h] str l Inr r Stat_of
        by (intro done' [of cmd_GETATTR "string_enc path" "getattr_reply st 0" "errno s"])
           (simp_all add: getattr_request_def cmd_not_stop dispatch_cmd getattr_reply_view errno_same [symmetric])
    qed
  next
    case (May path m)
    obtain x h where l: "os_access os ?dir m (cc_host s) = (x, h)" by fastforce
    let ?err = "case x of Inl e \<Rightarrow> (- 1 :: agerr_t) | Inr _ \<Rightarrow> 0"
    have r: "r = Status_is ?err" "h' = h" using assms(3) l May by simp_all
    show ?thesis
      using processAccess_answer [OF req, where p = q and path = path and m = m and os = os and r = x and h = h] str l r May
      by (intro done' [of cmd_ACCESS "string_enc path @ be_bytes m" "be_bytes ?err"
            "case x of Inl e \<Rightarrow> e | Inr _ \<Rightarrow> errno s"])
         (simp_all add: access_request_def cmd_not_stop dispatch_cmd cong: sum.case_cong)
  next
    case (Can_open path m)
    obtain x h where l: "os_open os ?dir m (cc_host s) = (x, h)" by fastforce
    show ?thesis
    proof (cases x)
      case (Inl e)
      have r: "r = Status_is (word_of_int (- e))" "h' = h" using assms(3) l Inl Can_open by simp_all
      show ?thesis
        using processOpen_failed [OF req, where p = q and path = path and m = m and os = os and e = e and h = h] str l Inl r Can_open
        by (intro done' [of cmd_OPEN "string_enc path @ be_bytes m" "be_bytes (word_of_int (- e) :: agerr_t)" EBADF])
           (simp_all add: open_request_def cmd_not_stop dispatch_cmd)
    next
      case (Inr fd)
      obtain y h1 where cl: "os_close os fd h = (y, h1)" by fastforce
      have fd: "0 \<le> fd" using assms(2) l Inr Can_open by (simp add: query_ok.simps)
      have r: "r = Status_is 0" "h' = h1" using assms(3) l cl Inr Can_open by simp_all
      show ?thesis
        using processOpen_opened [OF req, where p = q and path = path and m = m and os = os and fd = fd and h = h and r = y and h' = h1] str l Inr fd cl r Can_open
        by (intro done' [of cmd_OPEN "string_enc path @ be_bytes m" "be_bytes (0 :: agerr_t)"
              "case y of Inl e \<Rightarrow> e | Inr _ \<Rightarrow> errno s"])
           (simp_all add: open_request_def cmd_not_stop dispatch_cmd cong: sum.case_cong)
    qed
  next
    case (Entries_of path)
    obtain files err h where l: "list_dir os ?dir (cc_host s) = Some ((files, err), h)"
      and ok: "length files < 2 ^ 64" "\<forall>v \<in> set files. string_ok p (fst v)"
      using assms(2) Entries_of by (auto simp: query_ok.simps split: option.splits)
    have r: "r = Entries_are files err" "h' = h" using assms(3) l Entries_of by simp_all
    from l show ?thesis
    proof (cases rule: list_dir_cases)
      case (listed h1 h2 h3 h4 counted names es)
      have "map fst es = names" using stat_entries_names [of os ?dir names h4] listed(6) by simp
      moreover have fst_view: "fst (entry_view v) = fst v" for v by (simp add: entry_view_def)
      ultimately have names: "map fst files = names" using listed(7) by (simp add: comp_def)
      have small: "\<forall>name \<in> set names. length name \<le> MAX_RW"
        using ok(2) unfolding names [symmetric] by (simp add: string_ok_def)
      have len: "length counted = length es" "length files = length es"
        using names listed(4,7) by (metis length_map)+
      obtain e where "processReaddir os q (s\<lparr>rx := rx_push (string_enc path) evs\<rparr>) =
          Some (s\<lparr>rx := evs, errno := e, tx := tx s @ readdir_reply es 0, cc_host := h\<rparr>)"
        using processReaddir_listed [OF req, where p = q and path = path and dir = ?dir and os = os and ?h1.0 = h1 and ?h2.0 = h2
            and counted = counted and ?h3.0 = h3 and names = names and ?h4.0 = h4 and es = es and h = h] str listed(1-3,5,6)
          small len(1) Entries_of by (auto simp: readdir_reply_def)
      moreover have "readdir_reply files err = readdir_reply es 0"
        using listed(7,8) by (simp add: readdir_reply_def comp_def)
      moreover have "query_answers p r (readdir_reply files err)"
        using r(1) ok listed(7,8) by simp
      ultimately show ?thesis
        using r Entries_of
        by (intro done' [of cmd_READDIR "string_enc path" "readdir_reply files err" e])
           (simp_all add: readdir_request_def cmd_not_stop dispatch_cmd)
    next
      case (refused found h1)
      have err: "neg_err err" using refused(4) by (simp add: ENOTDIR_def)
      have "processReaddir os q (s\<lparr>rx := rx_push (string_enc path) evs\<rparr>) =
          Some (s\<lparr>rx := evs, tx := tx s @ be_bytes err, cc_host := h\<rparr>)"
        using processReaddir_refused [OF req, where p = q and path = path and dir = ?dir and os = os and found = found
            and ?h1.0 = h1 and ?h2.0 = h] str refused(1,2,4) Entries_of by simp
      moreover have "readdir_reply files err = be_bytes err"
        using err by (simp add: readdir_reply_def)
      ultimately show ?thesis
        using r err refused(3) Entries_of
        by (intro done' [of cmd_READDIR "string_enc path" "be_bytes err" "errno s"])
           (simp_all add: readdir_request_def cmd_not_stop dispatch_cmd errno_same [symmetric])
    qed
  next
    case Ping
    have r: "r = Pong True" "h' = cc_host s" using assms(3) Ping by simp_all
    show ?thesis
      using r assms(1) Ping
      by (intro done' [of cmd_HEARTBEAT "[]" "be_bytes cmd_HEARTBEAT" "errno s"])
         (simp_all add: cmd_not_stop dispatch_cmd processHeartbeat_def io_simps healthy_def upd_order)
  qed
qed

text \<open>The queries fulfil the contract of a conversation.\<close>

definition query_ready :: "string \<Rightarrow> 'h \<Rightarrow> 'h client_connection \<Rightarrow> bool" where
  "query_ready mnt h s \<longleftrightarrow> healthy s \<and> cc_mountPoint s = mnt \<and> cc_host s = h"

interpretation query_talk: conversation os q query_request "query_answers p" "query_op p" "query_do os mnt"
    "query_ready mnt" "query_ok os p q mnt" for os q p mnt
proof unfold_locales
  fix h h' s rq r evs
  assume a: "query_ready mnt h s" "query_ok os p q mnt rq h" "query_do os mnt rq h = (r, h')"
  have s: "healthy s" "cc_mountPoint s = mnt" "cc_host s = h" using a(1) by (simp_all add: query_ready_def)
  show "\<exists>s' reply. serve_step os q (s\<lparr>rx := rx_push (query_request rq) evs\<rparr>) = Some (True, s') \<and>
      tx s' = tx s @ reply \<and> rx s' = evs \<and> query_answers p r reply \<and> query_ready mnt h' s'"
    using query_served [OF s(1), of os p q rq r h' evs] a(2,3) s(2,3) unfolding query_ready_def by blast
next
  fix c :: server_connection and rq r h h' reply evs
  assume "healthy c" "query_ok os p q mnt rq h" "query_do os mnt rq h = (r, h')" "query_answers p r reply"
  then show "query_op p rq (c\<lparr>rx := rx_push reply evs\<rparr>) =
      Some (r, c\<lparr>tx := tx c @ query_request rq, rx := evs\<rparr>)"
    using query_answered [of c rq p r reply os mnt h h' evs] by (simp add: query_ok.simps)
qed (simp_all add: query_ready_def)

section \<open>Properties\<close>

text \<open>C8: The life of a connection that asks for metadata: when the key of the client is on the
  server's list, a conversation of the key, any history of \<^verbatim>\<open>getattr\<close>, \<^verbatim>\<open>access\<close>,
  \<^verbatim>\<open>open\<close>, \<^verbatim>\<open>readdir\<close> and heartbeats on any paths, and the stop makes the server's
  process log in, serve all and end; and on the bytes it sends, every call of the client
  returns what the system call (or the walk over the directory) on the mounted path returned
  on the server, errors included. Both ends have then read all that was sent to them, and the
  system is as these calls leave it.\<close>

theorem query_life:
  assumes "login os q key connfd s mnt h2" and "reaches net host port"
    and "all_ok (query_ok os p q mnt) (query_do os mnt) rqs h2"
    and "run_spec (query_do os mnt) rqs h2 = (rs, h3)"
    and "messages = [string_enc key] @ map query_request rqs @ [be_bytes cmd_STOP]"
  shows "\<exists>s1 s2 replies c c'.
    new_client_connection os q connfd (s\<lparr>rx := rx_pushes messages []\<rparr>) = Some s1 \<and>
    processCommands os q s1 = Some s2 \<and> \<not> sock_open s2 \<and> rx s2 = [] \<and>
    tx s2 = tx s @ be_bytes cmd_ACCEPT @ concat replies \<and> cc_host s2 = h3 \<and>
    c = new_server_connection p (delivering net (be_bytes cmd_ACCEPT # replies)) host port key \<and>
    connected c \<and> run_calls (query_op p) rqs c = Some (rs, c') \<and> rx c' = [] \<and>
    tx (snd (stop p c')) = concat messages \<and> \<not> sock_open (snd (stop p c'))"
proof -
  have "query_ready mnt h2 s1" if "healthy s1" "cc_mountPoint s1 = mnt" "cc_host s1 = h2" for s1 :: "'a client_connection"
    using that by (simp add: query_ready_def)
  then obtain s1 s2 s3 replies c c' where
    "new_client_connection os q connfd (s\<lparr>rx := rx_pushes messages []\<rparr>) = Some s1"
    "processCommands os q s1 = Some s2" "\<not> connected s2" "\<not> sock_open s2" "rx s2 = []"
    "tx s2 = tx s @ be_bytes cmd_ACCEPT @ concat replies" "cc_host s2 = cc_host s3" "query_ready mnt h3 s3"
    "c = new_server_connection p (delivering net (be_bytes cmd_ACCEPT # replies)) host port key"
    "connected c" "run_calls (query_op p) rqs c = Some (rs, c')" "rx c' = []"
    "tx (snd (stop p c')) = concat messages" "\<not> sock_open (snd (stop p c'))"
    using query_talk.life [OF assms(1,2) _ assms(3-5)] by blast
  then show ?thesis unfolding query_ready_def by metis
qed

theorem query_life_witness:
  "\<exists>s1 s2 net c'.
     new_client_connection file_os ppc 3 ((forked ''K'')\<lparr>rx := rx_pushes ([string_enc ''K''] @
       map query_request [Entries_of ''/'', May ''/f'' 4, Entries_of ''/f'', Ping] @ [be_bytes cmd_STOP]) []\<rparr>) = Some s1 \<and>
     processCommands file_os ppc s1 = Some s2 \<and> \<not> sock_open s2 \<and>
     run_calls (query_op x86) [Entries_of ''/'', May ''/f'' 4, Entries_of ''/f'', Ping]
       (new_server_connection x86 net ''h1'' ''80'' ''K'') =
       Some ([Entries_are [(''f'', zero_stat\<lparr>st_mode := 0x81A4, st_size := 4\<rparr>)] 0, Status_is 0,
              Entries_are [] (word_of_int (- ENOTDIR)), Pong True], c')"
proof -
  let ?rqs = "[Entries_of ''/'', May ''/f'' 4, Entries_of ''/f'', Ping]" and ?h = "cc_host (forked ''K'')"
  let ?rs = "[Entries_are [(''f'', zero_stat\<lparr>st_mode := 0x81A4, st_size := 4\<rparr>)] 0, Status_is 0,
              Entries_are [] (word_of_int (- ENOTDIR)), Pong True]"
  have h: "?h = ([10, 20, 30, 40], 0)" by (simp add: forked_def)
  have dirs: "list_dir file_os ''/m/'' ?h = Some (([(''f'', zero_stat\<lparr>st_mode := 0x81A4, st_size := 4\<rparr>)], 0), ?h)"
    "list_dir file_os ''/m/f'' ?h = Some (([], word_of_int (- ENOTDIR)), ?h)"
    by (simp_all add: list_dir_def entry_view_def stat_view_def zero_stat_def h)
  have ok: "all_ok (query_ok file_os x86 ppc ''/m'') (query_do file_os ''/m'') ?rqs ?h"
    using dirs by (simp add: query_ok.simps string_ok_def NUL_def MAX_RW_def path_ok_def)
  have run: "run_spec (query_do file_os ''/m'') ?rqs ?h = (?rs, ?h)"
    using dirs by simp
  show ?thesis
    using query_life [OF forked_login answering_reaches ok run refl] by blast
qed

end
