(* ===== verification/Disambiguater.thy ===== *)
theory Disambiguater
  imports Platform
begin

text \<open>
  \<^verbatim>\<open>disambiguater.cpp\<close>: the merge of the directory listings of several servers. A file that
  one server has is listed under its own name; a file that several have is listed once per
  server, as \<^verbatim>\<open>name{:server:}\<close>; a directory is listed once. \<^verbatim>\<open>ambiguate\<close> takes such a
  name apart again.
\<close>

section \<open>Strings\<close>

text \<open>\<^verbatim>\<open>std::string::find\<close>, with \<open>None\<close> for \<^verbatim>\<open>npos\<close>.\<close>

fun str_find :: "string \<Rightarrow> string \<Rightarrow> nat option" where
  "str_find pat [] = (if pat = [] then Some 0 else None)"
| "str_find pat (c # s) = (if prefix pat (c # s) then Some 0 else map_option Suc (str_find pat s))"

text \<open>\<^verbatim>\<open>std::string::substr\<close>, with \<open>None\<close> for the exception \<^verbatim>\<open>std::out_of_range\<close>.\<close>

definition substr :: "string \<Rightarrow> nat \<Rightarrow> nat \<Rightarrow> string option" where
  "substr s pos n = (if length s < pos then None else Some (take n (drop pos s)))"

text \<open>Subtraction of \<^verbatim>\<open>size_t\<close> values.\<close>

definition size_diff :: "nat \<Rightarrow> nat \<Rightarrow> nat" where
  "size_diff a b = unat (word_of_nat a - word_of_nat b :: 64 word)"

lemma size_diff_le: "b \<le> a \<Longrightarrow> a < 2 ^ 64 \<Longrightarrow> size_diff a b = a - b"
  by (simp add: size_diff_def unat_sub_if_size unat_of_nat word_size)

lemma str_find_bound: "str_find pat s = Some i \<Longrightarrow> i + length pat \<le> length s"
  by (induction pat s arbitrary: i rule: str_find.induct)
     (auto split: if_splits dest: prefix_length_le)

lemma str_find_two:
  "a \<noteq> b \<Longrightarrow> str_find [a, b] f = None \<Longrightarrow> str_find [a, b] (f @ a # b # g) = Some (length f)"
proof (induction f)
  case Nil
  then show ?case by simp
next
  case (Cons c f)
  then show ?case by (cases f) (auto split: if_splits)
qed

lemma str_find_two_append:
  "str_find [a, b] f = None \<Longrightarrow> c \<noteq> b \<Longrightarrow> str_find [a, b] (c # g) = None \<Longrightarrow>
     str_find [a, b] (f @ c # g) = None"
proof (induction f)
  case Nil
  then show ?case by simp
next
  case (Cons d f)
  then show ?case by (cases f) (auto split: if_splits)
qed

section \<open>State\<close>

definition BEGIN_BRACE :: string where
  "BEGIN_BRACE = ''{:''"

definition END_BRACE :: string where
  "END_BRACE = '':}''"

record disambiguater =
  filemap :: "(string, (string \<times> stat) list) std_map"
  directorymap :: "(string, stat) std_map"

definition new_disambiguater :: disambiguater where
  "new_disambiguater = \<lparr>filemap = [], directorymap = []\<rparr>"

section \<open>Adding files\<close>

text \<open>
  \<^verbatim>\<open>filemap_[path]\<close> creates an empty entry where there is none, and the loop over it looks
  for the server.
\<close>

definition addFilepath_stat ::
  "string \<times> stat \<Rightarrow> string \<Rightarrow> disambiguater \<Rightarrow> agerr_t \<times> disambiguater" where
  "addFilepath_stat value server d =
     (let path = fst value; stbuf = snd value in
      if S_ISDIR (st_mode stbuf)
      then (0, d\<lparr>directorymap := map_put path stbuf (directorymap d)\<rparr>)
      else
        (let d = d\<lparr>filemap := map_insert path [] (filemap d)\<rparr>;
             servers = map_at [] (filemap d) path in
         if list_ex (\<lambda>e. fst e = server) servers then (word_of_int (- EEXIST), d)
         else (0, d\<lparr>filemap := map_put path (servers @ [(server, stbuf)]) (filemap d)\<rparr>)))"

definition addFilepath_name :: "string \<Rightarrow> string \<Rightarrow> disambiguater \<Rightarrow> agerr_t \<times> disambiguater" where
  "addFilepath_name path server d =
     (let stbuf = zero_stat;
          value = (server, stbuf);
          d = d\<lparr>filemap := map_insert path [] (filemap d)\<rparr>;
          servers = map_at [] (filemap d) path in
      if list_ex (\<lambda>e. fst e = server) servers then (word_of_int (- EEXIST), d)
      else (0, d\<lparr>filemap := map_put path (servers @ [value]) (filemap d)\<rparr>))"

text \<open>The loops stop at the first error.\<close>

fun addFilepaths_stat_loop ::
  "agerr_t \<Rightarrow> (string \<times> stat) list \<Rightarrow> string \<Rightarrow> disambiguater \<Rightarrow> agerr_t \<times> disambiguater" where
  "addFilepaths_stat_loop error [] server d = (error, d)"
| "addFilepaths_stat_loop error (path # paths) server d =
     (let (error, d) = addFilepath_stat path server d in
      if neg_err error then (error, d) else addFilepaths_stat_loop error paths server d)"

definition addFilepaths_stat ::
  "(string \<times> stat) list \<Rightarrow> string \<Rightarrow> disambiguater \<Rightarrow> agerr_t \<times> disambiguater" where
  "addFilepaths_stat paths server d = addFilepaths_stat_loop 0 paths server d"

fun addFilepaths_name_loop ::
  "agerr_t \<Rightarrow> string list \<Rightarrow> string \<Rightarrow> disambiguater \<Rightarrow> agerr_t \<times> disambiguater" where
  "addFilepaths_name_loop error [] server d = (error, d)"
| "addFilepaths_name_loop error (path # paths) server d =
     (let (error, d) = addFilepath_name path server d in
      if neg_err error then (error, d) else addFilepaths_name_loop error paths server d)"

definition addFilepaths_name ::
  "string list \<Rightarrow> string \<Rightarrow> disambiguater \<Rightarrow> agerr_t \<times> disambiguater" where
  "addFilepaths_name paths server d = addFilepaths_name_loop 0 paths server d"

section \<open>Listing\<close>

definition listed_name :: "string \<Rightarrow> string \<Rightarrow> string" where
  "listed_name filepath server = filepath @ BEGIN_BRACE @ server @ END_BRACE"

definition disambiguatedFilepaths :: "disambiguater \<Rightarrow> string list" where
  "disambiguatedFilepaths d =
     concat (map (\<lambda>(filepath, servers).
               if length servers = 1 then [filepath]
               else map (\<lambda>server. listed_name filepath (fst server)) servers) (filemap d))
     @ map fst (directorymap d)"

definition disambiguatedFilepathsWithStats :: "disambiguater \<Rightarrow> (string \<times> stat) list" where
  "disambiguatedFilepathsWithStats d =
     concat (map (\<lambda>(filepath, servers).
               if length servers = 1 then [(filepath, snd (servers ! 0))]
               else map (\<lambda>server. (listed_name filepath (fst server), snd server)) servers) (filemap d))
     @ directorymap d"

definition clearPaths :: "disambiguater \<Rightarrow> disambiguater" where
  "clearPaths d = d\<lparr>filemap := [], directorymap := []\<rparr>"

section \<open>Taking a name apart\<close>

definition ambiguate :: "string \<Rightarrow> (string \<times> string) option" where
  "ambiguate path =
     (case (str_find BEGIN_BRACE path, str_find END_BRACE path) of
        (Some begin_position, Some end_position) \<Rightarrow> do {
          let serverLoc = begin_position + length BEGIN_BRACE;
          server \<leftarrow> substr path serverLoc (size_diff end_position serverLoc);
          filepath \<leftarrow> substr path 0 begin_position;
          rest \<leftarrow> substr path (end_position + length END_BRACE) (length path);
          Some (server, filepath @ rest) }
      | _ \<Rightarrow> Some ('''', path))"

section \<open>What the names mean\<close>

text \<open>
  A name without braces, and a server name that does not end a tag: the conditions under which
  a listed name can be taken apart. Host names never contain a colon.
\<close>

definition clean_name :: "string \<Rightarrow> bool" where
  "clean_name f \<longleftrightarrow> str_find BEGIN_BRACE f = None \<and> str_find END_BRACE f = None"

definition clean_server :: "string \<Rightarrow> bool" where
  "clean_server server \<longleftrightarrow> str_find END_BRACE (CHR '':'' # server) = None"

lemma ambiguate_clean: "clean_name path \<Longrightarrow> ambiguate path = Some ('''', path)"
  by (simp add: clean_name_def ambiguate_def)

lemma find_in_tagged:
  assumes "clean_name f" and "clean_server server"
  shows "str_find BEGIN_BRACE (f @ BEGIN_BRACE @ server @ END_BRACE @ g) = Some (length f)"
    and "str_find END_BRACE (f @ BEGIN_BRACE @ server @ END_BRACE @ g) =
           Some (length f + 2 + length server)"
proof -
  show "str_find BEGIN_BRACE (f @ BEGIN_BRACE @ server @ END_BRACE @ g) = Some (length f)"
    using assms(1) str_find_two [of "CHR ''{''" "CHR '':''" f "server @ END_BRACE @ g"]
    by (simp add: clean_name_def BEGIN_BRACE_def)
  have "str_find END_BRACE (CHR ''{'' # CHR '':'' # server) = None"
    using assms(2) by (simp add: clean_server_def END_BRACE_def)
  then have "str_find END_BRACE (f @ BEGIN_BRACE @ server) = None"
    using assms(1) str_find_two_append [of "CHR '':''" "CHR ''}''" f "CHR ''{''" "CHR '':'' # server"]
    by (simp add: clean_name_def BEGIN_BRACE_def END_BRACE_def)
  then show "str_find END_BRACE (f @ BEGIN_BRACE @ server @ END_BRACE @ g) =
      Some (length f + 2 + length server)"
    using str_find_two [of "CHR '':''" "CHR ''}''" "f @ BEGIN_BRACE @ server" g]
    by (simp add: BEGIN_BRACE_def END_BRACE_def)
qed

lemma ambiguate_tagged:
  assumes "clean_name f" and "clean_server server"
    and "length f + length server + 4 + length g < 2 ^ 64"
  shows "ambiguate (f @ BEGIN_BRACE @ server @ END_BRACE @ g) = Some (server, f @ g)"
proof -
  have "size_diff (length f + 2 + length server) (length f + 2) = length server"
    using assms(3) by (simp add: size_diff_le)
  then show ?thesis
    using find_in_tagged [OF assms(1,2), of g]
    by (simp add: ambiguate_def substr_def BEGIN_BRACE_def END_BRACE_def numeral_eq_Suc)
qed

lemma ambiguate_listed:
  assumes "clean_name f" and "clean_server server" and "length f + length server + 4 < 2 ^ 64"
  shows "ambiguate (listed_name f server) = Some (server, f)"
  using ambiguate_tagged [of f server "[]"] assms by (simp add: listed_name_def)

lemma ambiguate_returns: "ambiguate path \<noteq> None"
proof (cases "str_find BEGIN_BRACE path")
  case None
  then show ?thesis by (simp add: ambiguate_def)
next
  case b: (Some b)
  show ?thesis
  proof (cases "str_find END_BRACE path")
    case None
    with b show ?thesis by (simp add: ambiguate_def)
  next
    case (Some e)
    with b str_find_bound [OF b] str_find_bound [OF Some] show ?thesis
      by (simp add: ambiguate_def substr_def BEGIN_BRACE_def END_BRACE_def)
  qed
qed

section \<open>The contents of a disambiguater\<close>

definition files_of :: "disambiguater \<Rightarrow> string \<Rightarrow> (string \<times> stat) list" where
  "files_of d path = map_at [] (filemap d) path"

definition dir_of :: "disambiguater \<Rightarrow> string \<Rightarrow> stat option" where
  "dir_of d path = map_find (directorymap d) path"

text \<open>
  Both maps are sorted, every file has a server, and no server appears twice under one file.
\<close>

definition disam_ok :: "disambiguater \<Rightarrow> bool" where
  "disam_ok d \<longleftrightarrow> map_ok (filemap d) \<and> map_ok (directorymap d) \<and>
     (\<forall>(path, servers) \<in> set (filemap d). servers \<noteq> [] \<and> distinct (map fst servers))"

lemma eexist_neg [simp]: "neg_err (word_of_int (- EEXIST))"
  by (simp add: EEXIST_def)

lemma list_ex_server: "list_ex (\<lambda>e. fst e = server) servers \<longleftrightarrow> server \<in> fst ` set servers"
  by (auto simp: list_ex_iff)

lemma insert_found [simp]: "map_find m k = Some v \<Longrightarrow> map_insert k w m = m"
  by (simp add: map_insert_def)

lemma put_after_insert: "map_ok m \<Longrightarrow> map_put k v (map_insert k w m) = map_put k v m"
  by (rule smap.entries_ext) (simp_all add: map_ok_put map_ok_insert map_find_put map_find_insert)

lemma map_at_insert [simp]: "map_at d (map_insert k d m) k' = map_at d m k'"
  by (auto simp: map_at_def map_find_insert split: option.split)

text \<open>The three outcomes of adding one entry of a listing.\<close>

lemma addFilepath_stat_dir:
  "S_ISDIR (st_mode st) \<Longrightarrow> addFilepath_stat (path, st) server d =
     (0, d\<lparr>directorymap := map_put path st (directorymap d)\<rparr>)"
  by (simp add: addFilepath_stat_def)

lemma addFilepath_stat_new:
  "disam_ok d \<Longrightarrow> \<not> S_ISDIR (st_mode st) \<Longrightarrow> server \<notin> fst ` set (files_of d path) \<Longrightarrow>
     addFilepath_stat (path, st) server d =
       (0, d\<lparr>filemap := map_put path (files_of d path @ [(server, st)]) (filemap d)\<rparr>)"
  by (simp add: addFilepath_stat_def files_of_def list_ex_server put_after_insert disam_ok_def)

lemma known_file: "server \<in> fst ` set (files_of d path) \<Longrightarrow> map_find (filemap d) path \<noteq> None"
  by (cases "map_find (filemap d) path") (simp_all add: files_of_def map_at_def)

lemma addFilepath_stat_dup:
  assumes "\<not> S_ISDIR (st_mode st)" and "server \<in> fst ` set (files_of d path)"
  shows "addFilepath_stat (path, st) server d = (word_of_int (- EEXIST), d)"
  using assms known_file [OF assms(2)]
  by (auto simp: addFilepath_stat_def files_of_def list_ex_server)

lemmas addFilepath_stat_cases = addFilepath_stat_dir addFilepath_stat_new addFilepath_stat_dup

lemma addFilepath_name_eq:
  assumes "disam_ok d"
  shows "addFilepath_name path server d =
     (if server \<in> fst ` set (files_of d path) then (word_of_int (- EEXIST), d)
      else (0, d\<lparr>filemap := map_put path (files_of d path @ [(server, zero_stat)]) (filemap d)\<rparr>))"
proof (cases "server \<in> fst ` set (files_of d path)")
  case True
  with known_file [OF True] show ?thesis
    by (auto simp: addFilepath_name_def files_of_def list_ex_server)
next
  case False
  with assms show ?thesis
    by (simp add: addFilepath_name_def files_of_def list_ex_server put_after_insert disam_ok_def)
qed

section \<open>The invariant\<close>

lemma disam_ok_maps: "disam_ok d \<Longrightarrow> map_ok (filemap d)" "disam_ok d \<Longrightarrow> map_ok (directorymap d)"
  by (simp_all add: disam_ok_def)

lemma disam_ok_files:
  "disam_ok d \<Longrightarrow> map_find (filemap d) path = Some servers \<Longrightarrow>
     servers \<noteq> [] \<and> distinct (map fst servers)"
  by (auto simp: disam_ok_def dest!: map_find_in)

lemma files_of_in: "disam_ok d \<Longrightarrow> (path, servers) \<in> set (filemap d) \<Longrightarrow> files_of d path = servers"
  by (simp add: disam_ok_def map_find_sorted files_of_def map_at_def)

lemma in_files_of:
  "v \<in> set (files_of d path) \<Longrightarrow> (path, files_of d path) \<in> set (filemap d)"
  by (cases "map_find (filemap d) path") (auto simp: files_of_def map_at_def dest: map_find_in)

lemma files_of_distinct: "disam_ok d \<Longrightarrow> distinct (map fst (files_of d path))"
  by (cases "map_find (filemap d) path") (auto simp: files_of_def map_at_def disam_ok_files)

lemma disam_ok_new: "disam_ok new_disambiguater"
  by (simp add: disam_ok_def new_disambiguater_def)

lemma disam_ok_clear: "disam_ok (clearPaths d)"
  by (simp add: disam_ok_def clearPaths_def)

lemma disam_ok_put_dir:
  "disam_ok d \<Longrightarrow> disam_ok (d\<lparr>directorymap := map_put path st (directorymap d)\<rparr>)"
  by (simp add: disam_ok_def map_ok_put)

lemma disam_ok_put_file:
  assumes "disam_ok d" and "servers \<noteq> []" and "distinct (map fst servers)"
  shows "disam_ok (d\<lparr>filemap := map_put path servers (filemap d)\<rparr>)"
proof -
  have ok: "map_ok (filemap d)" using assms(1) by (rule disam_ok_maps)
  have "servers' \<noteq> [] \<and> distinct (map fst servers')"
    if "(path', servers') \<in> set (map_put path servers (filemap d))" for path' servers'
  proof -
    have "map_find (map_put path servers (filemap d)) path' = Some servers'"
      using that ok by (simp add: map_ok_put map_find_sorted)
    then show ?thesis
      using assms by (auto simp: map_find_put disam_ok_files split: if_splits)
  qed
  then show ?thesis
    using assms(1) ok by (auto simp: disam_ok_def map_ok_put)
qed

lemma disam_ok_append:
  "disam_ok d \<Longrightarrow> server \<notin> fst ` set (files_of d path) \<Longrightarrow>
     disam_ok (d\<lparr>filemap := map_put path (files_of d path @ [(server, st)]) (filemap d)\<rparr>)"
  by (rule disam_ok_put_file) (auto simp: files_of_distinct)

lemma disam_ok_addFilepath_stat:
  assumes "disam_ok d"
  shows "disam_ok (snd (addFilepath_stat value server d))"
proof (cases "value")
  case (Pair path st)
  consider "S_ISDIR (st_mode st)"
    | "\<not> S_ISDIR (st_mode st)" "server \<in> fst ` set (files_of d path)"
    | "\<not> S_ISDIR (st_mode st)" "server \<notin> fst ` set (files_of d path)"
    by blast
  then show ?thesis
    by cases (simp_all add: Pair assms addFilepath_stat_cases disam_ok_put_dir disam_ok_append)
qed

lemma disam_ok_addFilepath_name:
  "disam_ok d \<Longrightarrow> disam_ok (snd (addFilepath_name path server d))"
  by (simp add: addFilepath_name_eq disam_ok_append)

lemma disam_ok_stat_loop:
  "disam_ok d \<Longrightarrow> disam_ok (snd (addFilepaths_stat_loop error paths server d))"
proof (induction paths arbitrary: error d)
  case (Cons v vs)
  then show ?case
    using disam_ok_addFilepath_stat [OF Cons.prems, of v server] by (simp add: split_beta)
qed simp

lemma disam_ok_name_loop:
  "disam_ok d \<Longrightarrow> disam_ok (snd (addFilepaths_name_loop error paths server d))"
proof (induction paths arbitrary: error d)
  case (Cons path paths)
  then show ?case
    using disam_ok_addFilepath_name [OF Cons.prems, of path server] by (simp add: split_beta)
qed simp

lemmas disam_ok_ops = disam_ok_new disam_ok_clear disam_ok_addFilepath_stat
  disam_ok_addFilepath_name disam_ok_stat_loop disam_ok_name_loop

section \<open>Adding the listing of a server\<close>

text \<open>What the listing \<open>vs\<close> of a server says about one path.\<close>

definition is_dir_entry :: "string \<times> stat \<Rightarrow> bool" where
  "is_dir_entry v = S_ISDIR (st_mode (snd v))"

definition listed_files :: "string \<Rightarrow> (string \<times> stat) list \<Rightarrow> string \<Rightarrow> (string \<times> stat) list" where
  "listed_files server vs path =
     map (\<lambda>v. (server, snd v)) (filter (\<lambda>v. fst v = path \<and> \<not> is_dir_entry v) vs)"

definition listed_dir :: "(string \<times> stat) list \<Rightarrow> string \<Rightarrow> stat option" where
  "listed_dir vs path = map_of (rev (filter is_dir_entry vs)) path"

lemma listed_files_Cons:
  "listed_files server (v # vs) path =
     (if fst v = path \<and> \<not> is_dir_entry v then [(server, snd v)] else []) @ listed_files server vs path"
  by (simp add: listed_files_def)

lemma files_of_put [simp]:
  "files_of (d\<lparr>filemap := map_put path servers (filemap d)\<rparr>) path' =
     (if path' = path then servers else files_of d path')"
  "files_of (d\<lparr>directorymap := m\<rparr>) path' = files_of d path'"
  by (simp_all add: files_of_def map_at_def map_find_put)

lemma dir_of_put [simp]:
  "dir_of (d\<lparr>directorymap := map_put path st (directorymap d)\<rparr>) path' =
     (if path' = path then Some st else dir_of d path')"
  "dir_of (d\<lparr>filemap := m\<rparr>) path' = dir_of d path'"
  by (simp_all add: dir_of_def map_find_put)

text \<open>
  The listing of a server that has not been added yet, with distinct names, goes in whole:
  every file gains the server at the end of its list, every directory gets the new metadata.
\<close>

lemma addFilepaths_fresh:
  assumes "disam_ok d"
    and "distinct (map fst (filter (\<lambda>v. \<not> is_dir_entry v) vs))"
    and "\<forall>v \<in> set vs. \<not> is_dir_entry v \<longrightarrow> server \<notin> fst ` set (files_of d (fst v))"
  shows "\<exists>d'. addFilepaths_stat_loop 0 vs server d = (0, d') \<and>
           (\<forall>path. files_of d' path = files_of d path @ listed_files server vs path) \<and>
           (\<forall>path. dir_of d' path =
              (case listed_dir vs path of None \<Rightarrow> dir_of d path | Some st \<Rightarrow> Some st))"
  using assms
proof (induction vs arbitrary: d)
  case Nil
  then show ?case by (simp add: listed_files_def listed_dir_def)
next
  case (Cons v vs)
  obtain path st where v: "v = (path, st)" by fastforce
  define d1 where "d1 = (if is_dir_entry v
      then d\<lparr>directorymap := map_put path st (directorymap d)\<rparr>
      else d\<lparr>filemap := map_put path (files_of d path @ [(server, st)]) (filemap d)\<rparr>)"
  have add: "addFilepath_stat v server d = (0, d1)"
    using Cons.prems v by (auto simp: d1_def is_dir_entry_def addFilepath_stat_cases)
  have "disam_ok d1"
    using disam_ok_addFilepath_stat [OF Cons.prems(1), of v server] add by simp
  moreover have "\<forall>w \<in> set vs. \<not> is_dir_entry w \<longrightarrow> server \<notin> fst ` set (files_of d1 (fst w))"
  proof (intro ballI impI)
    fix w
    assume w: "w \<in> set vs" "\<not> is_dir_entry w"
    have "\<not> is_dir_entry v \<Longrightarrow> fst w \<noteq> path"
      using Cons.prems(2) w v by (cases w) (auto simp: image_iff)
    then have "files_of d1 (fst w) = files_of d (fst w)"
      by (simp add: d1_def)
    then show "server \<notin> fst ` set (files_of d1 (fst w))"
      using Cons.prems(3) w by simp
  qed
  moreover have "distinct (map fst (filter (\<lambda>v. \<not> is_dir_entry v) vs))"
    using Cons.prems(2) by (simp split: if_splits)
  ultimately obtain d' where d': "addFilepaths_stat_loop 0 vs server d1 = (0, d')"
      "\<And>p. files_of d' p = files_of d1 p @ listed_files server vs p"
      "\<And>p. dir_of d' p = (case listed_dir vs p of None \<Rightarrow> dir_of d1 p | Some st \<Rightarrow> Some st)"
    using Cons.IH [of d1] by blast
  have "files_of d' p = files_of d p @ listed_files server (v # vs) p" for p
    by (auto simp: d'(2) d1_def listed_files_Cons v)
  moreover have "dir_of d' p =
      (case listed_dir (v # vs) p of None \<Rightarrow> dir_of d p | Some st \<Rightarrow> Some st)" for p
    by (auto simp: d'(3) d1_def listed_dir_def map_add_def v split: option.split)
  ultimately show ?case
    using add d'(1) by simp
qed

section \<open>Reading the listing back\<close>

text \<open>
  \<open>origins d\<close>: for every line of the listing, in order, the server (empty when the name
  carries none) and the path it stands for.
\<close>

definition origin :: "string \<times> (string \<times> stat) list \<Rightarrow> (string \<times> string) list" where
  "origin f = (case f of (path, servers) \<Rightarrow>
     if length servers = 1 then [('''', path)] else map (\<lambda>server. (fst server, path)) servers)"

definition origins :: "disambiguater \<Rightarrow> (string \<times> string) list" where
  "origins d = concat (map origin (filemap d)) @ map (\<lambda>v. ('''', fst v)) (directorymap d)"

definition names_clean :: "disambiguater \<Rightarrow> bool" where
  "names_clean d \<longleftrightarrow>
     (\<forall>(path, servers) \<in> set (filemap d). clean_name path \<and>
        (\<forall>server \<in> set servers. clean_server (fst server) \<and>
           length path + length (fst server) + 4 < 2 ^ 64)) \<and>
     (\<forall>v \<in> set (directorymap d). clean_name (fst v))"

lemma ambiguate_listing:
  assumes "names_clean d"
  shows "map (\<lambda>v. ambiguate (fst v)) (disambiguatedFilepathsWithStats d) = map Some (origins d)"
proof -
  have "map (\<lambda>v. ambiguate (fst v)) (case f of (filepath, servers) \<Rightarrow>
            if length servers = 1 then [(filepath, snd (servers ! 0))]
            else map (\<lambda>server. (listed_name filepath (fst server), snd server)) servers)
        = map Some (origin f)" if "f \<in> set (filemap d)" for f
    using assms that
    by (auto simp: names_clean_def origin_def ambiguate_clean ambiguate_listed split: prod.splits)
  then have "map (\<lambda>v. ambiguate (fst v)) (concat (map (\<lambda>(filepath, servers).
               if length servers = 1 then [(filepath, snd (servers ! 0))]
               else map (\<lambda>server. (listed_name filepath (fst server), snd server)) servers) (filemap d)))
      = map Some (concat (map origin (filemap d)))"
    by (simp add: map_concat comp_def cong: map_cong)
  moreover have "map (\<lambda>v. ambiguate (fst v)) (directorymap d)
      = map Some (map (\<lambda>v. ('''', fst v)) (directorymap d))"
    using assms by (auto simp: names_clean_def ambiguate_clean)
  ultimately show ?thesis
    by (simp add: disambiguatedFilepathsWithStats_def origins_def)
qed

lemma origin_paths: "x \<in> set (origin f) \<Longrightarrow> snd x = fst f"
  by (auto simp: origin_def split: prod.splits if_splits)

lemma distinct_concat_origin:
  assumes "map_ok m" and "\<forall>(path, servers) \<in> set m. distinct (map fst servers)"
  shows "distinct (concat (map origin m))"
  using assms
proof (induction m)
  case Nil
  then show ?case by simp
next
  case (Cons f m)
  obtain path servers where f: "f = (path, servers)" by fastforce
  have "distinct (origin f)"
    using Cons.prems(2) by (auto simp: f origin_def distinct_map inj_on_def)
  moreover have "set (origin f) \<inter> set (concat (map origin m)) = {}"
    using Cons.prems(1) by (fastforce simp: f map_ok_Cons dest: origin_paths)
  ultimately show ?case
    using Cons by (simp add: f map_ok_Cons)
qed

lemma distinct_origins:
  assumes "disam_ok d" and "fst ` set (filemap d) \<inter> fst ` set (directorymap d) = {}"
  shows "distinct (origins d)"
proof -
  have "distinct (concat (map origin (filemap d)))"
    using assms(1) by (intro distinct_concat_origin) (auto simp: disam_ok_def)
  moreover have "distinct (map (\<lambda>v. ('''', fst v)) (directorymap d))"
    using smap.entries_distinct [OF disam_ok_maps(2) [OF assms(1)]]
    by (auto simp: distinct_map inj_on_def)
  moreover have "set (concat (map origin (filemap d))) \<inter>
      set (map (\<lambda>v. ('''', fst v)) (directorymap d)) = {}" (is "?A \<inter> ?B = {}")
  proof (rule equals0I)
    fix x
    assume x: "x \<in> ?A \<inter> ?B"
    have "snd x \<in> fst ` set (filemap d)"
      using x by (auto dest!: origin_paths)
    moreover have "snd x \<in> fst ` set (directorymap d)"
      using x by (auto intro: rev_image_eqI)
    ultimately show False using assms(2) by blast
  qed
  ultimately show ?thesis by (simp add: origins_def)
qed

lemma listing_distinct:
  assumes "disam_ok d" and "names_clean d"
    and "fst ` set (filemap d) \<inter> fst ` set (directorymap d) = {}"
  shows "distinct (map fst (disambiguatedFilepathsWithStats d))"
proof -
  have "distinct (map Some (origins d))"
    using distinct_origins [OF assms(1,3)] by (simp add: distinct_map)
  then have "distinct (map ambiguate (map fst (disambiguatedFilepathsWithStats d)))"
    using ambiguate_listing [OF assms(2)] by (simp add: comp_def)
  then show ?thesis by (rule distinct_map [THEN iffD1, THEN conjunct1])
qed

lemma listing_names:
  "map fst (disambiguatedFilepathsWithStats d) = disambiguatedFilepaths d"
proof -
  have "map fst (case f of (filepath, servers) \<Rightarrow>
            if length servers = 1 then [(filepath, snd (servers ! 0))]
            else map (\<lambda>server. (listed_name filepath (fst server), snd server)) servers)
        = (case f of (filepath, servers) \<Rightarrow>
            if length servers = 1 then [filepath]
            else map (\<lambda>server. listed_name filepath (fst server)) servers)"
    for f :: "string \<times> (string \<times> stat) list"
    by (auto split: prod.split)
  then show ?thesis
    by (simp add: disambiguatedFilepaths_def disambiguatedFilepathsWithStats_def map_concat comp_def)
qed

text \<open>The lines that one file contributes.\<close>

lemma listing_file_iff:
  assumes "disam_ok d"
  shows "(name, st) \<in> set (disambiguatedFilepathsWithStats d) \<longleftrightarrow>
     (\<exists>path server. (server, st) \<in> set (files_of d path) \<and>
        name = (if length (files_of d path) = 1 then path else listed_name path server))
     \<or> dir_of d name = Some st"
    (is "?l \<longleftrightarrow> ?f \<or> ?d")
proof -
  let ?lines = "\<lambda>filepath servers. if length servers = 1 then [(filepath, snd (servers ! 0))]
      else map (\<lambda>server. (listed_name filepath (fst server), snd server)) servers"
  have one: "(name, st) \<in> set (?lines path servers) \<longleftrightarrow>
      (\<exists>server. (server, st) \<in> set servers \<and>
         name = (if length servers = 1 then path else listed_name path server))"
    for path and servers :: "(string \<times> stat) list"
  proof (cases "length servers = 1")
    case True
    then obtain sv where "servers = [sv]" by (auto simp: length_Suc_conv)
    then show ?thesis by (cases sv) auto
  next
    case False
    then show ?thesis by force
  qed
  have files: "(path, servers) \<in> set (filemap d) \<longleftrightarrow> files_of d path = servers \<and> servers \<noteq> []"
    for path servers
    using assms in_files_of [of "hd servers" d path] files_of_in [OF assms, of path servers]
    by (cases servers) (auto simp: disam_ok_def)
  have "?l \<longleftrightarrow> (\<exists>(path, servers) \<in> set (filemap d). (name, st) \<in> set (?lines path servers)) \<or>
      (name, st) \<in> set (directorymap d)"
    by (auto simp: disambiguatedFilepathsWithStats_def)
  also have "(name, st) \<in> set (directorymap d) \<longleftrightarrow> ?d"
    using assms by (simp add: dir_of_def disam_ok_def map_find_sorted)
  also have "(\<exists>(path, servers) \<in> set (filemap d). (name, st) \<in> set (?lines path servers)) \<longleftrightarrow>
      (\<exists>path. files_of d path \<noteq> [] \<and> (name, st) \<in> set (?lines path (files_of d path)))"
    by (simp add: Bex_def files del: One_nat_def)
  also have "\<dots> \<longleftrightarrow> ?f"
    unfolding one by (intro iff_exI) auto
  finally show ?thesis .
qed

section \<open>Properties\<close>

text \<open>Two servers that both have a file \<open>a\<close>.\<close>

definition two_servers :: disambiguater where
  "two_servers = \<lparr>filemap = [(''a'', [(''h1'', zero_stat), (''h2'', zero_stat\<lparr>st_size := 3\<rparr>)])],
     directorymap = []\<rparr>"

lemma two_servers_ok: "disam_ok two_servers" "names_clean two_servers"
  by (simp_all add: two_servers_def disam_ok_def map_ok_def names_clean_def clean_name_def clean_server_def
        BEGIN_BRACE_def END_BRACE_def)

lemma two_servers_files:
  "files_of two_servers path =
     (if path = ''a'' then [(''h1'', zero_stat), (''h2'', zero_stat\<lparr>st_size := 3\<rparr>)] else [])"
  by (simp add: two_servers_def files_of_def map_at_def)

text \<open>C28: Every operation of the disambiguater keeps its invariant: both maps stay sorted without
  duplicates, no file is without a server, and no server is listed twice under one file, also
  when an addition fails because the server already is there.\<close>

theorem disambiguater_invariant:
  assumes "disam_ok d"
  shows "disam_ok (snd (addFilepath_stat v server d)) \<and>
         disam_ok (snd (addFilepath_name path server d)) \<and>
         disam_ok (snd (addFilepaths_stat vs server d)) \<and>
         disam_ok (snd (addFilepaths_name paths server d)) \<and>
         disam_ok (clearPaths d) \<and> disam_ok new_disambiguater"
  using assms by (simp add: disam_ok_ops addFilepaths_stat_def addFilepaths_name_def)

theorem disambiguater_invariant_witness:
  "disam_ok (snd (addFilepaths_stat [(''a'', zero_stat), (''b'', zero_stat)] ''h1'' two_servers))"
  using disambiguater_invariant [OF two_servers_ok(1)] by blast

text \<open>The listing of a server that has not been added yet goes into the disambiguater whole
  and without an error: every file gains the server at the end of its list, every directory
  gets the metadata that was listed last, and nothing else changes.\<close>

theorem listing_added:
  assumes "disam_ok d"
    and "distinct (map fst (filter (\<lambda>v. \<not> is_dir_entry v) vs))"
    and "\<forall>v \<in> set vs. \<not> is_dir_entry v \<longrightarrow> server \<notin> fst ` set (files_of d (fst v))"
  shows "\<exists>d'. addFilepaths_stat vs server d = (0, d') \<and>
           (\<forall>path. files_of d' path = files_of d path @ listed_files server vs path) \<and>
           (\<forall>path. dir_of d' path =
              (case listed_dir vs path of None \<Rightarrow> dir_of d path | Some st \<Rightarrow> Some st))"
  unfolding addFilepaths_stat_def using assms by (rule addFilepaths_fresh)

theorem listing_added_witness:
  "\<exists>d'. addFilepaths_stat [(''a'', zero_stat), (''b'', zero_stat)] ''h3'' two_servers = (0, d') \<and>
     (\<forall>path. files_of d' path =
        files_of two_servers path @ listed_files ''h3'' [(''a'', zero_stat), (''b'', zero_stat)] path) \<and>
     (\<forall>path. dir_of d' path =
        (case listed_dir [(''a'', zero_stat), (''b'', zero_stat)] path of
           None \<Rightarrow> dir_of two_servers path | Some st \<Rightarrow> Some st))"
  by (rule listing_added [OF two_servers_ok(1)])
     (auto simp: two_servers_files is_dir_entry_def S_ISDIR_def)

text \<open>Adding a file that its server has already listed is refused with \<^verbatim>\<open>EEXIST\<close> and
  changes nothing; a directory is never refused.\<close>

theorem duplicate_refused:
  assumes "server \<in> fst ` set (files_of d path)"
  shows "addFilepath_stat (path, st) server d =
           (if S_ISDIR (st_mode st) then (0, d\<lparr>directorymap := map_put path st (directorymap d)\<rparr>)
            else (word_of_int (- EEXIST), d)) \<and>
         addFilepath_name path server d = (word_of_int (- EEXIST), d)"
  using assms known_file [OF assms]
  by (auto simp: addFilepath_stat_dir addFilepath_stat_dup addFilepath_name_def files_of_def list_ex_server)

theorem duplicate_refused_witness:
  "addFilepath_stat (''a'', zero_stat) ''h2'' two_servers = (word_of_int (- EEXIST), two_servers)"
  using duplicate_refused [of "''h2''" two_servers "''a''" zero_stat]
  by (simp add: two_servers_files S_ISDIR_def)

text \<open>C29: The merged listing holds exactly these lines: for every file and each server that has
  it, the server's metadata under the plain name if it is the only server, under
  \<^verbatim>\<open>name{:server:}\<close> otherwise; and every directory once.\<close>

theorem listing_exact:
  assumes "disam_ok d"
  shows "(name, st) \<in> set (disambiguatedFilepathsWithStats d) \<longleftrightarrow>
     (\<exists>path server. (server, st) \<in> set (files_of d path) \<and>
        name = (if length (files_of d path) = 1 then path
                else path @ ''{:'' @ server @ '':}''))
     \<or> dir_of d name = Some st"
  using listing_file_iff [OF assms, of name st]
  by (simp add: listed_name_def BEGIN_BRACE_def END_BRACE_def)

theorem listing_exact_witness:
  "(''a{:h2:}'', zero_stat\<lparr>st_size := 3\<rparr>) \<in> set (disambiguatedFilepathsWithStats two_servers)"
  by (subst listing_exact [OF two_servers_ok(1)])
     (intro disjI1 exI [of _ "''a''"] exI [of _ "''h2''"], simp add: two_servers_files)

text \<open>C30: When no name or server holds the brackets of a tag and no file has the name of a
  directory, the names of the listing are pairwise different, and \<^verbatim>\<open>ambiguate\<close> takes each of
  them apart into the server (none for an untagged line) and the file it stands for.\<close>

theorem listing_readable:
  assumes "disam_ok d" and "names_clean d"
    and "fst ` set (filemap d) \<inter> fst ` set (directorymap d) = {}"
  shows "distinct (map fst (disambiguatedFilepathsWithStats d)) \<and>
         map (\<lambda>v. ambiguate (fst v)) (disambiguatedFilepathsWithStats d) = map Some (origins d) \<and>
         disambiguatedFilepaths d = map fst (disambiguatedFilepathsWithStats d)"
  using listing_distinct [OF assms] ambiguate_listing [OF assms(2)] listing_names by simp

theorem listing_readable_witness:
  "map (\<lambda>v. ambiguate (fst v)) (disambiguatedFilepathsWithStats two_servers) =
     [Some (''h1'', ''a''), Some (''h2'', ''a'')]"
  using listing_readable [OF two_servers_ok]
  by (simp add: two_servers_def origins_def origin_def)

text \<open>\<^verbatim>\<open>ambiguate\<close> returns for every name whatever, with the positions of its brackets in
  any order: the substring calls never throw. A name without both brackets is returned whole,
  with no server.\<close>

theorem ambiguate_total:
  "ambiguate path \<noteq> None \<and>
   ((str_find ''{:'' path = None \<or> str_find '':}'' path = None) \<longrightarrow> ambiguate path = Some ('''', path))"
  using ambiguate_returns [of path]
  by (auto simp: ambiguate_def BEGIN_BRACE_def END_BRACE_def split: option.splits)

theorem ambiguate_total_witness:
  "ambiguate '':}x{:'' \<noteq> None \<and> ambiguate ''a{:b'' = Some ('''', ''a{:b'')"
  using ambiguate_total [of "'':}x{:''"] ambiguate_total [of "''a{:b''"] by simp

text \<open>The tag of a name may stand anywhere in a path: when what comes before it holds no
  bracket and the server's name does not end the tag early, \<^verbatim>\<open>ambiguate\<close> returns the server
  and the path without the tag.\<close>

theorem tag_removed:
  assumes "clean_name before" and "clean_server server"
    and "length before + length server + 4 + length after < 2 ^ 64"
  shows "ambiguate (before @ ''{:'' @ server @ '':}'' @ after) = Some (server, before @ after)"
  using ambiguate_tagged [OF assms] by (simp add: BEGIN_BRACE_def END_BRACE_def)

theorem tag_removed_witness: "ambiguate ''/d/a{:h1:}.txt'' = Some (''h1'', ''/d/a.txt'')"
proof -
  have "clean_name ''/d/a''" and "clean_server ''h1''"
    by (simp_all add: clean_name_def clean_server_def BEGIN_BRACE_def END_BRACE_def)
  from tag_removed [OF this, of "''.txt''"] show ?thesis by simp
qed

end
