(* ===== verification/AgfsFuse.thy ===== *)
theory AgfsFuse
  imports ClientLife Disambiguater
begin

text \<open>
  \<^verbatim>\<open>agfs.cpp\<close>: the file operations that the mounted file system answers by asking the
  servers. The state is the table of connections and the heap of the file handles that are
  open; a handle is an address, 0 the null pointer. An operation returns \<open>None\<close> when its
  behaviour is not defined (an invalid handle, a copy beyond the caller's buffer) or the
  process ends.
\<close>

record file_handle =
  fh_server :: string
  fh_file :: string

type_synonym connection_map = "(string, server_connection) std_map"

record fuse =
  connections :: connection_map
  handles :: "file_handle option list"

text \<open>The conversion of a result to the \<^verbatim>\<open>int\<close> that FUSE takes.\<close>

definition int_of_err :: "agerr_t \<Rightarrow> int" where
  "int_of_err err = sint (ucast err :: 32 word)"

definition F_OK :: agmask_t where "F_OK = 0"

lemma int_of_err_nat:
  assumes "n < 2 ^ 31"
  shows "int_of_err (word_of_nat n) = int n"
proof -
  have "(ucast (word_of_nat n :: 64 word) :: 32 word) = word_of_int (int n)"
    using assms by (simp add: unsigned_of_nat take_bit_nat_eq_self)
  moreover have "sint (word_of_int (int n) :: 32 word) = int n"
    using assms by (simp only: sint_sbintrunc') (intro signed_take_bit_int_eq_self; simp)
  ultimately show ?thesis by (simp add: int_of_err_def)
qed

section \<open>Asking the servers\<close>

fun existance_loop :: "plat \<Rightarrow> string \<Rightarrow> connection_map \<Rightarrow> string list \<times> connection_map" where
  "existance_loop p path [] = ([], [])"
| "existance_loop p path ((k, c) # conns) =
     (let (error, c) = access p path F_OK c;
          (found, conns) = existance_loop p path conns
      in (if \<not> neg_err error then k # found else found, (k, c) # conns))"

definition checkExistance :: "plat \<Rightarrow> string \<Rightarrow> 'a fuse_scheme \<Rightarrow> string list \<times> 'a fuse_scheme" where
  "checkExistance p path st =
     (let (found, conns) = existance_loop p path (connections st)
      in (found, st\<lparr>connections := conns\<rparr>))"

fun getattr_loop ::
  "plat \<Rightarrow> string \<Rightarrow> stat \<times> agerr_t \<Rightarrow> connection_map \<Rightarrow> (stat \<times> agerr_t) \<times> connection_map" where
  "getattr_loop p file retVal [] = (retVal, [])"
| "getattr_loop p file retVal ((k, c) # conns) =
     (if connected c then
        (let (retVal, c) = getattr p file c
         in if \<not> neg_err (snd retVal) then (retVal, (k, c) # conns)
            else (let (retVal, conns) = getattr_loop p file retVal conns
                  in (retVal, (k, c) # conns)))
      else (let (retVal, conns) = getattr_loop p file retVal conns
            in (retVal, (k, c) # conns)))"

text \<open>The pair that the loop fills in is value-initialised.\<close>

definition agfs_getattr ::
  "plat \<Rightarrow> string \<Rightarrow> 'a fuse_scheme \<Rightarrow> ((int \<times> stat) \<times> 'a fuse_scheme) option" where
  "agfs_getattr p path st = do {
     (server, file) \<leftarrow> ambiguate (c_string path);
     let retVal = (zero_stat, 0);
     let (retVal, conns) =
       (case map_find (connections st) server of
          Some c \<Rightarrow>
            (if connected c then
               (let (retVal, c) = getattr p file c
                in (retVal, map_put server c (connections st)))
             else getattr_loop p file retVal (connections st))
        | None \<Rightarrow> getattr_loop p file retVal (connections st));
     let error = snd retVal;
     let stbuf = (if \<not> neg_err error then fst retVal else zero_stat);
     Some ((int_of_err error, stbuf), st\<lparr>connections := conns\<rparr>) }"

fun access_loop ::
  "plat \<Rightarrow> string \<Rightarrow> agmask_t \<Rightarrow> agerr_t \<Rightarrow> connection_map \<Rightarrow> agerr_t \<times> connection_map" where
  "access_loop p file m res [] = (res, [])"
| "access_loop p file m res ((k, c) # conns) =
     (let (res, c) = access p file m c
      in if \<not> neg_err res then (res, (k, c) # conns)
         else (let (res, conns) = access_loop p file m res conns
               in (res, (k, c) # conns)))"

definition agfs_access ::
  "plat \<Rightarrow> string \<Rightarrow> agmask_t \<Rightarrow> 'a fuse_scheme \<Rightarrow> (int \<times> 'a fuse_scheme) option" where
  "agfs_access p path m st = do {
     (server, file) \<leftarrow> ambiguate (c_string path);
     let (res, conns) =
       (case map_find (connections st) server of
          Some c \<Rightarrow>
            (let (res, c) = access p file m c in (res, map_put server c (connections st)))
        | None \<Rightarrow> access_loop p file m 0 (connections st));
     Some (int_of_err res, st\<lparr>connections := conns\<rparr>) }"

text \<open>The listing of one server goes into the disambiguater; its result is ignored.\<close>

definition readdir_one ::
  "plat \<Rightarrow> string \<Rightarrow> string \<Rightarrow> server_connection \<Rightarrow> agerr_t \<Rightarrow> disambiguater \<Rightarrow>
     (agerr_t \<times> disambiguater \<times> server_connection) option" where
  "readdir_one p file k c err disam = do {
     ((files, temp), c) \<leftarrow> readdir p file c;
     Some (if \<not> neg_err temp then (temp, snd (addFilepaths_stat files k disam), c)
           else (err, disam, c)) }"

fun readdir_all ::
  "plat \<Rightarrow> string \<Rightarrow> agerr_t \<Rightarrow> disambiguater \<Rightarrow> connection_map \<Rightarrow>
     (agerr_t \<times> disambiguater \<times> connection_map) option" where
  "readdir_all p file err disam [] = Some (err, disam, [])"
| "readdir_all p file err disam ((k, c) # conns) = do {
     (err, disam, c) \<leftarrow> readdir_one p file k c err disam;
     (err, disam, conns) \<leftarrow> readdir_all p file err disam conns;
     Some (err, disam, (k, c) # conns) }"

text \<open>
  What is handed to \<^verbatim>\<open>filler\<close>, in order: names, with metadata unless the pointer is null.
\<close>

definition filled :: "disambiguater \<Rightarrow> (string \<times> stat option) list" where
  "filled disam = [(''.'', None), (''..'', None)] @
     map (\<lambda>(name, stbuf). (c_string name, Some stbuf)) (disambiguatedFilepathsWithStats disam)"

definition agfs_readdir ::
  "plat \<Rightarrow> string \<Rightarrow> 'a fuse_scheme \<Rightarrow>
     ((int \<times> (string \<times> stat option) list) \<times> 'a fuse_scheme) option" where
  "agfs_readdir p path st = do {
     (server, file) \<leftarrow> ambiguate (c_string path);
     let err = word_of_int (- ENOTDIR);
     let disam = new_disambiguater;
     (err, disam, conns) \<leftarrow>
       (case map_find (connections st) server of
          Some c \<Rightarrow> do {
            (err, disam, c) \<leftarrow> readdir_one p file server c err disam;
            Some (err, disam, map_put server c (connections st)) }
        | None \<Rightarrow> readdir_all p file err disam (connections st));
     Some ((int_of_err err, filled disam), st\<lparr>connections := conns\<rparr>) }"

section \<open>Open files\<close>

definition handle_at :: "'a fuse_scheme \<Rightarrow> nat \<Rightarrow> file_handle option" where
  "handle_at st fh = (if fh = 0 \<or> length (handles st) < fh then None else handles st ! (fh - 1))"

text \<open>\<^verbatim>\<open>new file_handle_t{}\<close>: an address that no handle has had.\<close>

definition new_handle :: "file_handle \<Rightarrow> 'a fuse_scheme \<Rightarrow> nat \<times> 'a fuse_scheme" where
  "new_handle h st = (Suc (length (handles st)), st\<lparr>handles := handles st @ [Some h]\<rparr>)"

text \<open>
  \<open>fh\<close> is the value of \<^verbatim>\<open>fi->fh\<close> before the call; the new one is returned.
  \<open>open_on\<close> is the second half of the function, when the server is known.
\<close>

definition open_on ::
  "plat \<Rightarrow> string \<Rightarrow> string \<Rightarrow> agmask_t \<Rightarrow> nat \<Rightarrow> 'a fuse_scheme \<Rightarrow> (int \<times> nat) \<times> 'a fuse_scheme" where
  "open_on p server file flags fh st =
     (case map_find (connections st) server of
        Some c \<Rightarrow>
          (if connected c then
             (let (error, c) = open_file p file flags c;
                  st = st\<lparr>connections := map_put server c (connections st)\<rparr>
              in if \<not> neg_err error
                 then (let (fh, st) = new_handle \<lparr>fh_server = server, fh_file = file\<rparr> st
                       in ((int_of_err error, fh), st))
                 else ((int_of_err error, fh), st))
           else ((- ENOENT, fh), st))
      | None \<Rightarrow> ((- ENOENT, fh), st))"

definition agfs_open ::
  "plat \<Rightarrow> string \<Rightarrow> agmask_t \<Rightarrow> nat \<Rightarrow> 'a fuse_scheme \<Rightarrow> ((int \<times> nat) \<times> 'a fuse_scheme) option" where
  "agfs_open p path flags fh st = do {
     (server, file) \<leftarrow> ambiguate (c_string path);
     if length server = 0 then do {
       let (servers, st) = checkExistance p path st;
       Some (if length servers \<noteq> 1 then ((- ENOENT, fh), st)
             else open_on p (servers ! 0) file flags fh st) }
     else Some (open_on p server file flags fh st) }"

text \<open>\<open>buf\<close> is the caller's buffer, of the size that is asked for.\<close>

definition agfs_read ::
  "plat \<Rightarrow> byte list \<Rightarrow> agsize_t \<Rightarrow> nat \<Rightarrow> 'a fuse_scheme \<Rightarrow>
     ((int \<times> byte list) \<times> 'a fuse_scheme) option" where
  "agfs_read p buf offset fh st = do {
     fileHandle \<leftarrow> handle_at st fh;
     let file = fh_file fileHandle;
     let server = fh_server fileHandle;
     case map_find (connections st) server of
       Some c \<Rightarrow>
         (if connected c then do {
            ((data, err), c) \<leftarrow> readFile p file (word_of_nat (length buf)) offset c;
            let st = st\<lparr>connections := map_put server c (connections st)\<rparr>;
            if neg_err err then Some ((int_of_err err, buf), st)
            else if length buf < length data then None
            else Some ((int_of_err (word_of_nat (length data)), overlay data buf), st) }
          else Some ((- ENOENT, buf), st))
     | None \<Rightarrow> Some ((- ENOENT, buf), st) }"

definition agfs_write ::
  "plat \<Rightarrow> byte list \<Rightarrow> agsize_t \<Rightarrow> nat \<Rightarrow> 'a fuse_scheme \<Rightarrow> (int \<times> 'a fuse_scheme) option" where
  "agfs_write p buf offset fh st = do {
     fileHandle \<leftarrow> handle_at st fh;
     let file = fh_file fileHandle;
     let server = fh_server fileHandle;
     case map_find (connections st) server of
       Some c \<Rightarrow>
         (if connected c then
            (let ((n, err), c) = writeFile p file offset buf c;
                 st = st\<lparr>connections := map_put server c (connections st)\<rparr>
             in Some (if \<not> neg_err err then int_of_err n else int_of_err err, st))
          else Some (- ENOENT, st))
     | None \<Rightarrow> Some (- ENOENT, st) }"

text \<open>\<^verbatim>\<open>delete\<close> of a handle that is null does nothing; of one that is not there it is undefined.\<close>

definition agfs_release :: "nat \<Rightarrow> 'a fuse_scheme \<Rightarrow> (int \<times> 'a fuse_scheme) option" where
  "agfs_release fh st =
     (if fh = 0 then Some (0, st)
      else do {
        h \<leftarrow> handle_at st fh;
        Some (0, st\<lparr>handles := (handles st)[fh - 1 := None]\<rparr>) })"

definition agfs_destroy :: "plat \<Rightarrow> 'a fuse_scheme \<Rightarrow> 'a fuse_scheme" where
  "agfs_destroy p st =
     st\<lparr>connections := map (\<lambda>(k, c). (k, snd (stop p c))) (connections st)\<rparr>"

text \<open>The operations that only report success.\<close>

definition agfs_opendir :: "string \<Rightarrow> int" where "agfs_opendir path = 0"
definition agfs_releasedir :: "string \<Rightarrow> int" where "agfs_releasedir path = 0"
definition agfs_fsync :: "string \<Rightarrow> int \<Rightarrow> int" where "agfs_fsync path isdatasync = 0"

section \<open>What the operations keep\<close>

text \<open>
  \<open>served m m'\<close>: the same servers, and to each connection nothing happened but reads and
  writes on its socket.
\<close>

definition served :: "connection_map \<Rightarrow> connection_map \<Rightarrow> bool" where
  "served m m' \<longleftrightarrow> list_all2 (\<lambda>e e'. fst e' = fst e \<and> io_frame (snd e) (snd e')) m m'"

lemma served_Nil [simp]: "served [] []"
  by (simp add: served_def)

lemma served_Cons [simp]:
  "served ((k, c) # m) ((k', c') # m') \<longleftrightarrow> k' = k \<and> io_frame c c' \<and> served m m'"
  by (auto simp: served_def)

lemma served_refl [simp]: "served m m"
  by (simp add: served_def list_all2_refl)

lemma served_trans: "served m m1 \<Longrightarrow> served m1 m2 \<Longrightarrow> served m m2"
  unfolding served_def
  by (rule list_all2_trans [where bs = m1 and ?P1.0 = "\<lambda>e e'. fst e' = fst e \<and> io_frame (snd e) (snd e')"
        and ?P2.0 = "\<lambda>e e'. fst e' = fst e \<and> io_frame (snd e) (snd e')"])
     (auto intro: io_frame_trans)

lemma served_keys: "served m m' \<Longrightarrow> map fst m' = map fst m"
  unfolding served_def by (induction m m' rule: list_all2_induct) auto

lemma served_put:
  "map_find m k = Some c \<Longrightarrow> map_ok m \<Longrightarrow> io_frame c c' \<Longrightarrow> served m (map_put k c' m)"
  by (induction k c' m rule: map_put.induct)
     (auto simp: map_ok_Cons dest!: map_find_in split: if_splits)

lemma served_find:
  assumes "served m m'"
  shows "rel_option io_frame (map_find m k) (map_find m' k)"
  using assms unfolding served_def
  by (induction m m' rule: list_all2_induct) auto

lemma served_existance: "served m (snd (existance_loop p path m))"
proof (induction m)
  case (Cons e m)
  then show ?case
    using io_frame_access [of "snd e" p path F_OK] by (cases e) (auto simp: split_beta Let_def)
qed simp

lemma served_getattr_loop: "served m (snd (getattr_loop p file r m))"
proof (induction m arbitrary: r)
  case (Cons e m)
  obtain k c where e: "e = (k, c)" by fastforce
  obtain r' c' where g: "getattr p file c = (r', c')" by fastforce
  have "io_frame c c'" using io_frame_getattr [of c p "file"] g by simp
  with Cons [of r'] Cons [of r] show ?case
    by (auto simp: e g split_beta Let_def)
qed simp

lemma served_access_loop: "served m (snd (access_loop p file a r m))"
proof (induction m arbitrary: r)
  case (Cons e m)
  obtain k c where e: "e = (k, c)" by fastforce
  obtain r' c' where g: "access p file a c = (r', c')" by fastforce
  have "io_frame c c'" using io_frame_access [of c p "file" a] g by simp
  with Cons [of r'] show ?case
    by (auto simp: e g split_beta Let_def)
qed simp

lemma io_frame_readdir_one:
  "readdir_one p file k c err d = Some (err', d', c') \<Longrightarrow> io_frame c c'"
  by (auto simp: readdir_one_def bind_eq_Some_conv split_beta split: if_splits intro: io_frame_readdir)

lemma served_readdir_all:
  "readdir_all p file err d m = Some (err', d', m') \<Longrightarrow> served m m'"
proof (induction m arbitrary: err d m')
  case (Cons e m)
  then show ?case
    by (cases e) (auto simp: bind_eq_Some_conv dest: io_frame_readdir_one)
qed simp

lemma served_check: "served (connections st) (connections (snd (checkExistance p path st)))"
  using served_existance [of "connections st" p path] by (simp add: checkExistance_def split_beta)

lemma served_agfs_getattr:
  assumes "agfs_getattr p path st = Some (r, st')" and "map_ok (connections st)"
  shows "served (connections st) (connections st')"
  using assms served_put io_frame_getattr served_getattr_loop
  by (auto simp: agfs_getattr_def bind_eq_Some_conv split_beta Let_def split: option.splits if_splits)

lemma served_agfs_access:
  assumes "agfs_access p path a st = Some (r, st')" and "map_ok (connections st)"
  shows "served (connections st) (connections st')"
  using assms served_put io_frame_access served_access_loop
  by (auto simp: agfs_access_def bind_eq_Some_conv split_beta Let_def split: option.splits)

lemma served_agfs_readdir:
  assumes "agfs_readdir p path st = Some (r, st')" and "map_ok (connections st)"
  shows "served (connections st) (connections st')"
  using assms served_put io_frame_readdir_one served_readdir_all
  by (auto simp: agfs_readdir_def bind_eq_Some_conv split_beta Let_def split: option.splits)

lemma served_agfs_read:
  assumes "agfs_read p buf off fh st = Some (r, st')" and "map_ok (connections st)"
  shows "served (connections st) (connections st')"
  using assms served_put io_frame_readFile
  by (auto simp: agfs_read_def bind_eq_Some_conv split_beta Let_def split: option.splits if_splits)

lemma served_agfs_write:
  assumes "agfs_write p buf off fh st = Some (r, st')" and "map_ok (connections st)"
  shows "served (connections st) (connections st')"
  using assms served_put io_frame_writeFile
  by (auto simp: agfs_write_def bind_eq_Some_conv split_beta Let_def split: option.splits if_splits)

lemma served_agfs_release:
  "agfs_release fh st = Some (r, st') \<Longrightarrow> connections st' = connections st"
  by (auto simp: agfs_release_def bind_eq_Some_conv split: if_splits)

lemma served_open_on:
  assumes "map_ok (connections st)"
  shows "served (connections st) (connections (snd (open_on p server file flags fh st)))"
  using assms served_put io_frame_open_file
  by (auto simp: open_on_def new_handle_def split_beta Let_def split: option.splits)

lemma served_agfs_open:
  assumes "agfs_open p path flags fh st = Some (r, st')" and "map_ok (connections st)"
  shows "served (connections st) (connections st')"
proof -
  obtain server f where a: "ambiguate (c_string path) = Some (server, f)"
    using ambiguate_returns by (metis option.exhaust prod.exhaust)
  let ?st = "snd (checkExistance p path st)"
  have st: "served (connections st) (connections ?st)" by (rule served_check)
  then have ok: "map_ok (connections ?st)"
    using assms(2) map_ok_keys [OF served_keys [OF st]] by simp
  have "st' = ?st \<or> (\<exists>s. (r, st') = open_on p s f flags fh ?st) \<or> (r, st') = open_on p server f flags fh st"
    using assms(1) a by (auto simp: agfs_open_def split_beta Let_def split: if_splits) metis
  then show ?thesis
    using served_open_on [OF ok, of p] served_open_on [OF assms(2), of p] served_trans [OF st] st
    by (metis snd_conv)
qed

section \<open>The table of connections\<close>

text \<open>
  The table is sorted, every descriptor in it is valid exactly while its socket is open, and a
  connection is filed under its host name.
\<close>

definition table_ok :: "connection_map \<Rightarrow> bool" where
  "table_ok m \<longleftrightarrow> map_ok m \<and> (\<forall>(k, c) \<in> set m. conn_ok c \<and> sc_hostname c = k)"

lemma io_frame_members:
  assumes "io_frame c (c' :: server_connection)"
  shows "sc_hostname c' = sc_hostname c" "sc_closed c' = sc_closed c"
    "sc_connectionStopped c' = sc_connectionStopped c"
  using io_frame_connection_more [OF assms] by (cases c; cases c'; simp)+

lemma served_table_ok:
  assumes "served m m'" and "table_ok m"
  shows "table_ok m'"
proof -
  have "\<forall>(k, c) \<in> set m'. conn_ok c \<and> sc_hostname c = k"
    if "\<forall>(k, c) \<in> set m. conn_ok c \<and> sc_hostname c = k"
    using assms(1) that unfolding served_def
    by (induction m m' rule: list_all2_induct) (auto simp: io_frame_conn_ok io_frame_members)
  then show ?thesis
    using assms map_ok_keys [OF served_keys [OF assms(1)]] by (simp add: table_ok_def)
qed

lemma served_connected:
  assumes "served m m'"
  shows "map_option connected (map_find m' k) = map_option connected (map_find m k)"
    and "map_option closed (map_find m' k) = map_option closed (map_find m k)"
  using served_find [OF assms, of k]
  by (cases "map_find m k"; cases "map_find m' k";
      simp add: io_frame_connected closed_def io_frame_members)+

text \<open>Every operation of the mounted file system keeps the table in order.\<close>

lemmas served_ops = served_agfs_getattr served_agfs_access served_agfs_readdir
  served_agfs_read served_agfs_write served_agfs_open

lemma table_ok_ops:
  assumes "table_ok (connections st)"
  shows "agfs_getattr p path st = Some (r1, st') \<Longrightarrow> table_ok (connections st')"
    and "agfs_access p path a st = Some (r2, st') \<Longrightarrow> table_ok (connections st')"
    and "agfs_readdir p path st = Some (r3, st') \<Longrightarrow> table_ok (connections st')"
    and "agfs_read p buf off fh st = Some (r4, st') \<Longrightarrow> table_ok (connections st')"
    and "agfs_write p buf off fh st = Some (r5, st') \<Longrightarrow> table_ok (connections st')"
    and "agfs_open p path flags fh st = Some (r6, st') \<Longrightarrow> table_ok (connections st')"
    and "agfs_release fh st = Some (r7, st') \<Longrightarrow> table_ok (connections st')"
proof -
  have ok: "map_ok (connections st)" using assms by (simp add: table_ok_def)
  note keep = served_table_ok [OF _ assms]
  show "agfs_getattr p path st = Some (r1, st') \<Longrightarrow> table_ok (connections st')"
    and "agfs_access p path a st = Some (r2, st') \<Longrightarrow> table_ok (connections st')"
    and "agfs_readdir p path st = Some (r3, st') \<Longrightarrow> table_ok (connections st')"
    and "agfs_read p buf off fh st = Some (r4, st') \<Longrightarrow> table_ok (connections st')"
    and "agfs_write p buf off fh st = Some (r5, st') \<Longrightarrow> table_ok (connections st')"
    and "agfs_open p path flags fh st = Some (r6, st') \<Longrightarrow> table_ok (connections st')"
    by (rule keep, erule served_ops [OF _ ok])+
  show "agfs_release fh st = Some (r7, st') \<Longrightarrow> table_ok (connections st')"
    using assms by (simp add: served_agfs_release)
qed

lemma destroy_find:
  "map_find (connections (agfs_destroy p st)) k =
     map_option (\<lambda>c. snd (stop p c)) (map_find (connections st) k)"
proof -
  have "map_find (map (\<lambda>(k, c). (k, f c)) m) k = map_option f (map_find m k)"
    for f and m :: connection_map
    by (induction m k rule: map_find.induct) auto
  then show ?thesis by (simp add: agfs_destroy_def)
qed

lemma stop_members: "sc_hostname (snd (stop p c)) = sc_hostname c"
proof -
  have "sc_hostname (snd (close_socket c1)) = sc_hostname c1" for c1 :: server_connection
    by (simp add: close_socket_def sys_close_def)
  moreover have "sc_hostname (snd (agfs_write_cmd p fd x c)) = sc_hostname c" for fd x
    by (intro io_frame_members io_frame_write_int)
  ultimately show ?thesis by (simp add: stop_def split_beta)
qed

lemma destroy_table_ok:
  assumes "table_ok (connections st)"
  shows "table_ok (connections (agfs_destroy p st))"
    and "\<forall>(k, c) \<in> set (connections (agfs_destroy p st)). closed c \<and> \<not> connected c \<and> \<not> sock_open c"
proof -
  have "map fst (connections (agfs_destroy p st)) = map fst (connections st)"
    by (simp add: agfs_destroy_def comp_def split_beta)
  then have "map_ok (connections (agfs_destroy p st))"
    using assms map_ok_keys by (metis table_ok_def)
  then show "table_ok (connections (agfs_destroy p st))"
    using assms by (auto simp: table_ok_def agfs_destroy_def stop_closed stop_members)
  show "\<forall>(k, c) \<in> set (connections (agfs_destroy p st)). closed c \<and> \<not> connected c \<and> \<not> sock_open c"
    using assms stop_closed by (fastforce simp: table_ok_def agfs_destroy_def conn_ok_def)
qed

section \<open>The first server that answers\<close>

text \<open>
  The result of a loop that stops at the first success: the first result that is not an error,
  or the last one.
\<close>

definition first_ok :: "('r \<Rightarrow> agerr_t) \<Rightarrow> 'r \<Rightarrow> 'r list \<Rightarrow> 'r" where
  "first_ok err r rs = (case find (\<lambda>r. \<not> neg_err (err r)) rs of Some r \<Rightarrow> r | None \<Rightarrow> last (r # rs))"

lemma first_ok_Cons:
  "first_ok err r (x # xs) = (if \<not> neg_err (err x) then x else first_ok err x xs)"
  by (simp add: first_ok_def split: option.split)

lemma first_ok_Nil [simp]: "first_ok err r [] = r"
  by (simp add: first_ok_def)

lemma getattr_loop_result:
  "fst (getattr_loop p file r m) =
     first_ok snd r (map (\<lambda>e. fst (getattr p file (snd e))) (filter (\<lambda>e. connected (snd e)) m))"
proof (induction m arbitrary: r)
  case (Cons e m)
  show ?case by (cases e) (simp add: first_ok_Cons split_beta Let_def Cons)
qed simp

lemma access_loop_result:
  "fst (access_loop p file a r m) =
     first_ok (\<lambda>err. err) r (map (\<lambda>e. fst (access p file a (snd e))) m)"
  by (induction m arbitrary: r) (auto simp: first_ok_Cons split_beta Let_def)

lemma existance_result:
  "fst (existance_loop p path m) =
     map fst (filter (\<lambda>e. \<not> neg_err (fst (access p path F_OK (snd e)))) m)"
  by (induction m) (auto simp: split_beta Let_def)

lemma first_ok_in: "first_ok err r rs \<in> set (r # rs)"
  by (induction rs arbitrary: r) (auto simp: first_ok_Cons)

lemma first_ok_success:
  "\<exists>x \<in> set rs. \<not> neg_err (err x) \<Longrightarrow> \<not> neg_err (err (first_ok err r rs))"
  by (induction rs arbitrary: r) (auto simp: first_ok_Cons)

section \<open>Merging the listings\<close>

text \<open>
  What the servers say: \<open>files k\<close> and \<open>err k\<close> are the listing and the result of the server
  \<open>k\<close>. A server with an error contributes nothing.
\<close>

definition merged_files ::
  "(string \<Rightarrow> (string \<times> stat) list) \<Rightarrow> (string \<Rightarrow> agerr_t) \<Rightarrow> string list \<Rightarrow> string \<Rightarrow> (string \<times> stat) list" where
  "merged_files files err ks path =
     concat (map (\<lambda>k. if neg_err (err k) then [] else listed_files k (files k) path) ks)"

definition merged_dir ::
  "(string \<Rightarrow> (string \<times> stat) list) \<Rightarrow> (string \<Rightarrow> agerr_t) \<Rightarrow> string list \<Rightarrow> string \<Rightarrow>
     stat option \<Rightarrow> stat option" where
  "merged_dir files err ks path =
     fold (\<lambda>k st. if neg_err (err k) then st
                  else (case listed_dir (files k) path of None \<Rightarrow> st | Some st' \<Rightarrow> Some st')) ks"

definition lists :: "plat \<Rightarrow> string \<Rightarrow> connection_map \<Rightarrow>
    (string \<Rightarrow> (string \<times> stat) list) \<Rightarrow> (string \<Rightarrow> agerr_t) \<Rightarrow> bool" where
  "lists p file m files err \<longleftrightarrow>
     (\<forall>(k, c) \<in> set m. \<exists>c'. readdir p file c = Some ((files k, err k), c') \<and>
        distinct (map fst (filter (\<lambda>v. \<not> is_dir_entry v) (files k))))"

lemma listed_files_server: "v \<in> set (listed_files k vs path) \<Longrightarrow> fst v = k"
  by (auto simp: listed_files_def)

lemma readdir_all_merge:
  assumes "disam_ok d" and "distinct (map fst m)" and "lists p file m files err"
    and "\<forall>k \<in> fst ` set m. \<forall>path. k \<notin> fst ` set (files_of d path)"
  shows "\<exists>e' d' m'. readdir_all p file e d m = Some (e', d', m') \<and> disam_ok d' \<and>
           (\<forall>path. files_of d' path = files_of d path @ merged_files files err (map fst m) path) \<and>
           (\<forall>path. dir_of d' path = merged_dir files err (map fst m) path (dir_of d path)) \<and>
           (if \<forall>k \<in> fst ` set m. neg_err (err k) then e' = e else \<not> neg_err e')"
  using assms
proof (induction m arbitrary: d e)
  case Nil
  then show ?case by (simp add: merged_files_def merged_dir_def)
next
  case (Cons x m)
  obtain k c where x: "x = (k, c)" by fastforce
  obtain c' where r: "readdir p file c = Some ((files k, err k), c')"
    and dist: "distinct (map fst (filter (\<lambda>v. \<not> is_dir_entry v) (files k)))"
    using Cons.prems(3) x by (auto simp: lists_def)
  have rest: "lists p file m files err" using Cons.prems(3) by (simp add: lists_def)
  show ?case
  proof (cases "neg_err (err k)")
    case True
    then have one: "readdir_one p file k c e d = Some (e, d, c')"
      using r by (simp add: readdir_one_def)
    obtain e' d' m' where "readdir_all p file e d m = Some (e', d', m')" "disam_ok d'"
      "\<forall>path. files_of d' path = files_of d path @ merged_files files err (map fst m) path"
      "\<forall>path. dir_of d' path = merged_dir files err (map fst m) path (dir_of d path)"
      "if \<forall>k \<in> fst ` set m. neg_err (err k) then e' = e else \<not> neg_err e'"
      using Cons.IH [OF Cons.prems(1) _ rest, of e] Cons.prems(2,4) x by auto
    with one True x show ?thesis
      by (intro exI [of _ e'] exI [of _ d'] exI [of _ "(k, c') # m'"])
         (simp add: merged_files_def merged_dir_def)
  next
    case False
    obtain d1 where d1: "addFilepaths_stat_loop 0 (files k) k d = (0, d1)"
      "\<And>path. files_of d1 path = files_of d path @ listed_files k (files k) path"
      "\<And>path. dir_of d1 path = (case listed_dir (files k) path of None \<Rightarrow> dir_of d path | Some st \<Rightarrow> Some st)"
      using addFilepaths_fresh [OF Cons.prems(1) dist, of k] Cons.prems(4) x by auto
    have one: "readdir_one p file k c e d = Some (err k, d1, c')"
      using r False d1(1) by (simp add: readdir_one_def addFilepaths_stat_def)
    have ok: "disam_ok d1"
      using disam_ok_stat_loop [OF Cons.prems(1), of 0 "files k" k] d1(1) by simp
    have fresh: "\<forall>k' \<in> fst ` set m. \<forall>path. k' \<notin> fst ` set (files_of d1 path)"
    proof (intro ballI allI)
      fix k' f
      assume k': "k' \<in> fst ` set m"
      have "k' \<noteq> k" using Cons.prems(2) x k' by auto
      moreover have "k' \<notin> fst ` set (files_of d f)"
        using bspec [OF Cons.prems(4), of k'] k' by simp
      ultimately show "k' \<notin> fst ` set (files_of d1 f)"
        by (auto simp: d1(2) dest!: listed_files_server)
    qed
    obtain e' d' m' where ih: "readdir_all p file (err k) d1 m = Some (e', d', m')" "disam_ok d'"
      "\<And>path. files_of d' path = files_of d1 path @ merged_files files err (map fst m) path"
      "\<And>path. dir_of d' path = merged_dir files err (map fst m) path (dir_of d1 path)"
      "if \<forall>k \<in> fst ` set m. neg_err (err k) then e' = err k else \<not> neg_err e'"
      using Cons.IH [OF ok _ rest fresh, of "err k"] Cons.prems(2) x by auto
    have "\<not> neg_err e'" using ih(5) False by (auto split: if_splits)
    then show ?thesis
      using one ih(1-4) d1(2,3) False x
      by (auto simp: merged_files_def merged_dir_def)
  qed
qed

lemma files_of_new [simp]: "files_of new_disambiguater path = []" "dir_of new_disambiguater path = None"
  by (simp_all add: files_of_def dir_of_def new_disambiguater_def map_at_def)

lemma lists_names:
  assumes "lists p file m files err"
  shows "\<forall>k \<in> fst ` set m. distinct (map fst (filter (\<lambda>v. \<not> is_dir_entry v) (files k)))"
  using assms by (fastforce simp: lists_def)

text \<open>The disambiguater after the loop over all the servers.\<close>

lemma agfs_readdir_all:
  assumes "map_ok (connections st)" and "ambiguate (c_string path) = Some (server, file)"
    and "map_find (connections st) server = None"
    and "lists p file (connections st) files err"
  shows "\<exists>e d st'. agfs_readdir p path st = Some ((int_of_err e, filled d), st') \<and> disam_ok d \<and>
           (\<forall>f. files_of d f = merged_files files err (map fst (connections st)) f) \<and>
           (\<forall>f. dir_of d f = merged_dir files err (map fst (connections st)) f None) \<and>
           (if \<forall>k \<in> fst ` set (connections st). neg_err (err k)
            then e = word_of_int (- ENOTDIR) else \<not> neg_err e)"
proof -
  obtain e' d' m' where "readdir_all p file (word_of_int (- ENOTDIR)) new_disambiguater (connections st) = Some (e', d', m')"
    "disam_ok d'"
    "\<And>f. files_of d' f = merged_files files err (map fst (connections st)) f"
    "\<And>f. dir_of d' f = merged_dir files err (map fst (connections st)) f None"
    "if \<forall>k \<in> fst ` set (connections st). neg_err (err k) then e' = word_of_int (- ENOTDIR) else \<not> neg_err e'"
    using readdir_all_merge [OF disam_ok_new smap.entries_distinct [OF assms(1)] assms(4), of "word_of_int (- ENOTDIR)"]
    by auto
  moreover from this have "agfs_readdir p path st =
      Some ((int_of_err e', filled d'), st\<lparr>connections := m'\<rparr>)"
    using assms(2,3) by (simp add: agfs_readdir_def)
  ultimately show ?thesis
    by (intro exI [of _ e'] exI [of _ d'] exI [of _ "st\<lparr>connections := m'\<rparr>"] conjI allI) simp_all
qed

section \<open>Opening a listed name\<close>

lemma agfs_open_tagged:
  assumes "clean_name f" and "clean_server server" and "server \<noteq> []"
    and "NUL \<notin> set f" and "NUL \<notin> set server" and "length f + length server + 4 < 2 ^ 64"
  shows "agfs_open p (listed_name f server) flags fh st = Some (open_on p server f flags fh st)"
proof -
  have "NUL \<notin> set (listed_name f server)"
    using assms(4,5) by (simp add: listed_name_def BEGIN_BRACE_def END_BRACE_def NUL_def)
  then have "c_string (listed_name f server) = listed_name f server"
    by (simp add: c_string_def)
  then show ?thesis
    using ambiguate_listed [OF assms(1,2,6)] assms(3) by (simp add: agfs_open_def)
qed

lemma open_on_cases:
  assumes "map_find (connections st) server = Some c" and "connected c"
    and "open_file p file flags c = (err, c')"
  shows "open_on p server file flags fh st =
     (if neg_err err then ((int_of_err err, fh), st\<lparr>connections := map_put server c' (connections st)\<rparr>)
      else ((int_of_err err, Suc (length (handles st))),
            st\<lparr>connections := map_put server c' (connections st),
               handles := handles st @ [Some \<lparr>fh_server = server, fh_file = file\<rparr>]\<rparr>))"
  using assms by (simp add: open_on_def new_handle_def)

lemma handle_at_new:
  "handle_at (st\<lparr>connections := m, handles := handles st @ [Some h]\<rparr>) fh =
     (if fh = Suc (length (handles st)) then Some h else handle_at st fh)"
  by (auto simp: handle_at_def nth_append)

text \<open>Which servers have the file decides whether a name without a tag can be opened.\<close>

definition holders :: "plat \<Rightarrow> string \<Rightarrow> 'a fuse_scheme \<Rightarrow> string list" where
  "holders p path st =
     map fst (filter (\<lambda>e. \<not> neg_err (fst (access p path F_OK (snd e)))) (connections st))"

lemma checkExistance_holders: "fst (checkExistance p path st) = holders p path st"
  by (simp add: checkExistance_def existance_result holders_def split_beta)

lemma agfs_open_plain:
  assumes "ambiguate (c_string path) = Some ('''', file)"
  shows "agfs_open p path flags fh st =
     Some (case holders p path st of
             [server] \<Rightarrow> open_on p server file flags fh (snd (checkExistance p path st))
           | _ \<Rightarrow> ((- ENOENT, fh), snd (checkExistance p path st)))"
proof (cases "checkExistance p path st")
  case (Pair servers st1)
  then have "servers = holders p path st" using checkExistance_holders [of p path st] by simp
  with Pair assms show ?thesis
    by (auto simp: agfs_open_def split: list.split)
qed

section \<open>Reading and writing through a handle\<close>

lemma agfs_read_answered:
  assumes "handle_at st fh = Some h" and "map_find (connections st) (fh_server h) = Some c"
    and "healthy c" and "path_ok (fh_file h)" and "length data \<le> length buf" and "length buf \<le> MAX_RW"
    and "alloc_ok p (length data)"
    and "rx c = rx_push (read_reply data (word_of_nat (length data)) @ rest) evs"
  shows "\<exists>c'. agfs_read p buf off fh st =
     Some ((int (length data), overlay data buf),
           st\<lparr>connections := map_put (fh_server h) c' (connections st)\<rparr>) \<and>
     tx c' = tx c @ read_request (fh_file h) (word_of_nat (length buf)) off \<and> rx c' = rx_push rest evs"
proof -
  have len: "length data \<le> MAX_RW" using assms(5,6) by simp
  have err: "sint (word_of_nat (length data) :: agerr_t) = int (length data)"
    using len by (simp add: sint_length_u64 MAX_RW_def)
  have "int_of_err (word_of_nat (length data)) = int (length data)"
    using len int_of_err_nat [of "length data"] by (simp add: MAX_RW_def)
  moreover have "connected c" using assms(3) by (simp add: healthy_def live_def connected_def)
  moreover have "readFile p (fh_file h) (word_of_nat (length buf)) off c =
      Some ((data, word_of_nat (length data)),
        c\<lparr>tx := tx c @ read_request (fh_file h) (word_of_nat (length buf)) off, rx := rx_push rest evs\<rparr>)"
    using readFile_answered [OF assms(3,4) len, of "word_of_nat (length data)" p rest evs
        "word_of_nat (length buf)" off] assms(7,8) err by simp
  ultimately show ?thesis
    using assms(1,2,5) err
    by (intro exI [of _ "c\<lparr>tx := tx c @ read_request (fh_file h) (word_of_nat (length buf)) off,
          rx := rx_push rest evs\<rparr>"])
       (simp add: agfs_read_def)
qed

lemma agfs_write_answered:
  assumes "handle_at st fh = Some h" and "map_find (connections st) (fh_server h) = Some c"
    and "healthy c" and "path_ok (fh_file h)" and "length buf < 2 ^ 31" and "\<not> neg_err err"
    and "rx c = rx_push (be_bytes (0 :: agerr_t) @ write_reply (word_of_nat (length buf)) err @ rest) evs"
  shows "\<exists>c'. agfs_write p buf off fh st =
     Some (int (length buf), st\<lparr>connections := map_put (fh_server h) c' (connections st)\<rparr>) \<and>
     tx c' = tx c @ write_request (fh_file h) @ write_data buf off \<and> rx c' = rx_push rest evs"
proof -
  have "connected c" using assms(3) by (simp add: healthy_def live_def connected_def)
  moreover have "writeFile p (fh_file h) off buf c = ((word_of_nat (length buf), err),
      c\<lparr>tx := tx c @ write_request (fh_file h) @ write_data buf off, rx := rx_push rest evs\<rparr>)"
    using writeFile_answered [OF assms(3,4), of buf 0 "word_of_nat (length buf)" err rest evs p off]
      assms(5-7) by simp
  ultimately show ?thesis
    using assms(1,2,5,6) int_of_err_nat [of "length buf"]
    by (intro exI [of _ "c\<lparr>tx := tx c @ write_request (fh_file h) @ write_data buf off,
          rx := rx_push rest evs\<rparr>"])
       (simp add: agfs_write_def)
qed

text \<open>Handles come and go one at a time.\<close>

lemma release_handle:
  assumes "agfs_release fh st = Some (r, st')" and "fh \<noteq> 0"
  shows "r = 0" and "handle_at st' g = (if g = fh then None else handle_at st g)"
    and "handle_at st fh \<noteq> None"
  using assms by (auto simp: agfs_release_def bind_eq_Some_conv handle_at_def split: if_splits)

section \<open>Properties\<close>

lemma lists_plain:
  assumes "lists p file m files err" and "k \<in> fst ` set m" and "v \<in> set (files k)"
  shows "NUL \<notin> set (fst v)"
proof -
  obtain c where "(k, c) \<in> set m" using assms(2) by auto
  then obtain c' where "readdir p file c = Some ((files k, err k), c')"
    using assms(1) by (auto simp: lists_def)
  then show ?thesis using assms(3) by (rule readdir_plain)
qed

lemma merged_files_in:
  "(k, st) \<in> set (merged_files files err ks path) \<longleftrightarrow>
     k \<in> set ks \<and> \<not> neg_err (err k) \<and> (path, st) \<in> set (files k) \<and> \<not> S_ISDIR (st_mode st)"
proof -
  have "(k, st) \<in> set (listed_files k' vs path) \<longleftrightarrow>
      k = k' \<and> (path, st) \<in> set vs \<and> \<not> S_ISDIR (st_mode st)" for k' vs
    by (force simp: listed_files_def is_dir_entry_def)
  then show ?thesis
    by (auto simp: merged_files_def split: if_splits)
qed

lemma merged_dir_in:
  "merged_dir files err ks path acc = Some st \<Longrightarrow>
     acc = Some st \<or> (\<exists>k \<in> set ks. (path, st) \<in> set (files k))"
proof (induction ks arbitrary: acc)
  case (Cons k ks)
  let ?acc = "if neg_err (err k) then acc
      else (case listed_dir (files k) path of None \<Rightarrow> acc | Some st' \<Rightarrow> Some st')"
  have "merged_dir files err ks path ?acc = Some st"
    using Cons.prems by (simp add: merged_dir_def)
  from Cons.IH [OF this] show ?case
    by (auto simp: listed_dir_def split: if_splits option.splits dest!: map_of_SomeD)
qed (simp add: merged_dir_def)

text \<open>A name of a merged listing has no zero byte.\<close>

lemma filled_plain:
  assumes "\<forall>v \<in> set (disambiguatedFilepathsWithStats d). NUL \<notin> set (fst v)"
  shows "(name, Some st) \<in> set (filled d) \<longleftrightarrow> (name, st) \<in> set (disambiguatedFilepathsWithStats d)"
  using assms by (force simp: filled_def c_string_def)

text \<open>Two servers with the same file in their top directory.\<close>

definition listing_client :: "string \<Rightarrow> server_connection" where
  "listing_client host = open_client\<lparr>sc_hostname := host,
     rx := rx_push (readdir_reply [(''f'', zero_stat)] 0) []\<rparr>"

definition two_mounts :: fuse where
  "two_mounts = \<lparr>connections = [(''h1'', listing_client ''h1''), (''h2'', listing_client ''h2'')],
     handles = []\<rparr>"

lemma two_mounts_lists:
  "lists x86 ''/'' (connections two_mounts) (\<lambda>k. [(''f'', zero_stat)]) (\<lambda>k. 0)"
proof -
  have "healthy (listing_client h)" for h
    by (simp add: listing_client_def open_client_def idle_client_def healthy_def live_def)
  moreover have "rx (listing_client h) = rx_push (readdir_reply [(''f'', zero_stat)] 0 @ []) []" for h
    by (simp add: listing_client_def)
  moreover have "entry_view (''f'', zero_stat) = (''f'', zero_stat)"
    by (simp add: entry_view_def stat_view_def zero_stat_def)
  ultimately have "\<exists>c'. readdir x86 ''/'' (listing_client h) = Some (([(''f'', zero_stat)], 0), c')" for h
    using readdir_answered [of "listing_client h" "''/''" "[(''f'', zero_stat)]" x86 0 "[]" "[]"]
    by (simp add: path_ok_def string_ok_def NUL_def MAX_RW_def)
  then show ?thesis
    by (auto simp: lists_def two_mounts_def is_dir_entry_def S_ISDIR_def)
qed

lemma merged_listing:
  assumes "map_ok (connections st)" and "ambiguate (c_string path) = Some (server, file)"
    and "map_find (connections st) server = None"
    and "lists p file (connections st) files err"
    and "\<forall>k \<in> fst ` set (connections st). NUL \<notin> set k"
    and "ks = map fst (connections st)"
  shows "\<exists>e entries st'. agfs_readdir p path st = Some ((int_of_err e, entries), st') \<and>
     (\<forall>name s. (name, Some s) \<in> set entries \<longleftrightarrow>
        (\<exists>f k. (k, s) \<in> set (merged_files files err ks f) \<and>
           name = (if length (merged_files files err ks f) = 1 then f else f @ ''{:'' @ k @ '':}''))
        \<or> merged_dir files err ks name None = Some s) \<and>
     (if \<forall>k \<in> set ks. neg_err (err k) then e = word_of_int (- ENOTDIR) else \<not> neg_err e)"
proof -
  obtain e d st' where r: "agfs_readdir p path st = Some ((int_of_err e, filled d), st')"
    and ok: "disam_ok d" and f: "\<And>f. files_of d f = merged_files files err ks f"
    and dir: "\<And>f. dir_of d f = merged_dir files err ks f None"
    and e: "if \<forall>k \<in> set ks. neg_err (err k) then e = word_of_int (- ENOTDIR) else \<not> neg_err e"
    using agfs_readdir_all [OF assms(1-4)] assms(6) by auto
  have iff: "(name, s) \<in> set (disambiguatedFilepathsWithStats d) \<longleftrightarrow>
      (\<exists>f k. (k, s) \<in> set (merged_files files err ks f) \<and>
         name = (if length (merged_files files err ks f) = 1 then f else f @ ''{:'' @ k @ '':}''))
      \<or> merged_dir files err ks name None = Some s" for name s
    using listing_file_iff [OF ok, of name s] f dir
    by (simp add: listed_name_def BEGIN_BRACE_def END_BRACE_def)
  have files: "NUL \<notin> set g" if "(g, s) \<in> set (files k)" "k \<in> set ks" for g s k
    using lists_plain [OF assms(4), of k "(g, s)"] that assms(6) by simp
  have plain: "NUL \<notin> set name" if "(name, s) \<in> set (disambiguatedFilepathsWithStats d)" for name s
  proof -
    from that have "(\<exists>f k. (k, s) \<in> set (merged_files files err ks f) \<and>
         name = (if length (merged_files files err ks f) = 1 then f else f @ ''{:'' @ k @ '':}''))
      \<or> merged_dir files err ks name None = Some s"
      unfolding iff .
    then show ?thesis
    proof (elim disjE exE conjE)
      fix g k
      assume g: "(k, s) \<in> set (merged_files files err ks g)"
        and name: "name = (if length (merged_files files err ks g) = 1 then g else g @ ''{:'' @ k @ '':}'')"
      from g have "NUL \<notin> set g" "NUL \<notin> set k"
        using files assms(5,6) by (auto simp: merged_files_in)
      then show ?thesis using name by (simp add: NUL_def)
    next
      assume "merged_dir files err ks name None = Some s"
      then show ?thesis using merged_dir_in files by fastforce
    qed
  qed
  then have "(name, Some s) \<in> set (filled d) \<longleftrightarrow> (name, s) \<in> set (disambiguatedFilepathsWithStats d)" for name s
    by (intro filled_plain) auto
  with r iff e show ?thesis by (intro exI conjI) (assumption | simp)+
qed

text \<open>Each connection of the table has been asked once.\<close>

lemma readdir_all_connections:
  "readdir_all p file err d m = Some (err', d', m') \<Longrightarrow>
     m' = map (\<lambda>(k, c). (k, snd (the (readdir p file c)))) m"
proof (induction m arbitrary: err d m')
  case (Cons e m)
  then show ?case
    by (cases e) (force simp: bind_eq_Some_conv readdir_one_def split: if_splits)
qed simp

lemma agfs_readdir_connections:
  assumes "agfs_readdir p path st = Some (r, st')" and "ambiguate (c_string path) = Some (server, file)"
    and "map_find (connections st) server = None"
  shows "connections st' = map (\<lambda>(k, c). (k, snd (the (readdir p file c)))) (connections st)"
proof -
  obtain err d m where all: "readdir_all p file (word_of_int (- ENOTDIR)) new_disambiguater (connections st) =
      Some (err, d, m)" and "connections st' = m"
    using assms by (auto simp: agfs_readdir_def bind_eq_Some_conv)
  with readdir_all_connections [OF all] show ?thesis by simp
qed

text \<open>The merged directory: when every server answers (with a listing or with an error), a
  listing of the mounted file system holds exactly these names: each file of each server that
  answered, under its plain name if that server is the only one to have it and tagged with
  the server otherwise; and each directory. The result is \<^verbatim>\<open>ENOTDIR\<close> if no server could
  list the directory, and no error otherwise.\<close>

theorem merged_directory:
  assumes "map_ok (connections st)" and "ambiguate (c_string path) = Some (server, file)"
    and "map_find (connections st) server = None"
    and "lists p file (connections st) files err"
    and "\<forall>k \<in> fst ` set (connections st). NUL \<notin> set k"
    and "ks = map fst (connections st)"
  shows "\<exists>e entries st'. agfs_readdir p path st = Some ((int_of_err e, entries), st') \<and>
     (\<forall>name s. (name, Some s) \<in> set entries \<longleftrightarrow>
        (\<exists>f k. (k, s) \<in> set (merged_files files err ks f) \<and>
           name = (if length (merged_files files err ks f) = 1 then f else f @ ''{:'' @ k @ '':}''))
        \<or> merged_dir files err ks name None = Some s) \<and>
     (if \<forall>k \<in> set ks. neg_err (err k) then e = word_of_int (- ENOTDIR) else \<not> neg_err e)"
  using assms by (rule merged_listing)

theorem merged_directory_witness:
  "\<exists>e entries st'. agfs_readdir x86 ''/'' two_mounts = Some ((int_of_err e, entries), st') \<and>
     (''f{:h2:}'', Some zero_stat) \<in> set entries \<and> \<not> neg_err e"
proof -
  have conns: "map_ok (connections two_mounts)" "map_find (connections two_mounts) '''' = None"
    "\<forall>k \<in> fst ` set (connections two_mounts). NUL \<notin> set k"
    by (simp_all add: two_mounts_def map_ok_def NUL_def)
  have path: "ambiguate (c_string ''/'') = Some ('''', ''/'')"
    by (simp add: c_string_def NUL_def ambiguate_def BEGIN_BRACE_def END_BRACE_def)
  have files: "merged_files (\<lambda>k. [(''f'', zero_stat)]) (\<lambda>k. 0) [''h1'', ''h2''] ''f'' =
      [(''h1'', zero_stat), (''h2'', zero_stat)]"
    by (simp add: merged_files_def listed_files_def is_dir_entry_def S_ISDIR_def)
  have "map fst (connections two_mounts) = [''h1'', ''h2'']" by (simp add: two_mounts_def)
  from merged_directory [OF conns(1) path conns(2) two_mounts_lists conns(3) this [symmetric]]
  obtain e entries st' where r: "agfs_readdir x86 ''/'' two_mounts = Some ((int_of_err e, entries), st')"
    and mem: "\<forall>name s. (name, Some s) \<in> set entries \<longleftrightarrow>
        (\<exists>f k. (k, s) \<in> set (merged_files (\<lambda>k. [(''f'', zero_stat)]) (\<lambda>k. 0) [''h1'', ''h2''] f) \<and>
           name = (if length (merged_files (\<lambda>k. [(''f'', zero_stat)]) (\<lambda>k. 0) [''h1'', ''h2''] f) = 1
                   then f else f @ ''{:'' @ k @ '':}''))
        \<or> merged_dir (\<lambda>k. [(''f'', zero_stat)]) (\<lambda>k. 0) [''h1'', ''h2''] name None = Some s"
    and e: "if \<forall>k \<in> set [''h1'', ''h2'']. neg_err 0 then e = word_of_int (- ENOTDIR) else \<not> neg_err e"
    by (elim exE conjE) (rule that)
  have "\<exists>k \<in> set [''h1'', ''h2'']. \<not> neg_err 0" by (rule bexI [of _ "''h1''"]) simp_all
  then have err: "\<not> neg_err e" using e by (metis (mono_tags))
  have "(''f{:h2:}'', Some zero_stat) \<in> set entries"
    by (subst mem [rule_format], intro disjI1 exI [of _ "''f''"] exI [of _ "''h2''"]) (simp add: files)
  with r err show ?thesis by blast
qed

text \<open>Opening a tagged name: \<^verbatim>\<open>open\<close> on the name that a listing gives to the file \<open>f\<close> of a
  server asks that server, no other one, for \<open>f\<close>. On success there is a new handle for that
  server and file, at an address no handle had; on an error no handle changes.\<close>

theorem open_tagged:
  assumes "clean_name f" and "clean_server server" and "server \<noteq> []"
    and "NUL \<notin> set f" and "NUL \<notin> set server" and "length f + length server + 4 < 2 ^ 64"
    and "map_find (connections st) server = Some c" and "connected c"
    and "open_file p f flags c = (err, c')"
  shows "\<exists>fh' st'. agfs_open p (f @ ''{:'' @ server @ '':}'') flags fh st = Some ((int_of_err err, fh'), st') \<and>
           connections st' = map_put server c' (connections st) \<and>
           (if neg_err err then fh' = fh \<and> handles st' = handles st
            else handle_at st fh' = None \<and>
              (\<forall>g. handle_at st' g = (if g = fh' then Some \<lparr>fh_server = server, fh_file = f\<rparr> else handle_at st g)))"
proof -
  have "agfs_open p (f @ ''{:'' @ server @ '':}'') flags fh st = Some (open_on p server f flags fh st)"
    using agfs_open_tagged [OF assms(1-6)] by (simp add: listed_name_def BEGIN_BRACE_def END_BRACE_def)
  moreover have "handle_at st (Suc (length (handles st))) = None"
    by (simp add: handle_at_def)
  ultimately show ?thesis
    using open_on_cases [OF assms(7-9)] by (auto simp: handle_at_new)
qed

theorem open_tagged_witness:
  "\<exists>fh' st'. agfs_open x86 ''/f{:h1:}'' 0 0 \<lparr>connections = [(''h1'', open_client)], handles = []\<rparr> =
       Some ((0, fh'), st') \<and> handle_at st' fh' = Some \<lparr>fh_server = ''h1'', fh_file = ''/f''\<rparr>"
proof -
  let ?st = "\<lparr>connections = [(''h1'', open_client)], handles = []\<rparr> :: fuse"
  obtain c' where o: "open_file x86 ''/f'' 0 open_client = (0, c')"
  proof -
    have "agfs_read_error x86 3 0 (open_client\<lparr>tx := t\<rparr>) = ((0, 0), open_client\<lparr>tx := t\<rparr>)" for t
      by (subst read_int_none(4) [where r = 0 and s' = "open_client\<lparr>tx := t\<rparr>"])
         (simp_all add: sys_read_eof open_client_def idle_client_def live_def)
    moreover have "socket open_client = 3" by (simp add: open_client_def)
    ultimately have "fst (open_file x86 ''/f'' 0 open_client) = 0"
      by (simp add: open_file_def c_string_def NUL_def io_simps MAX_RW_def open_client_def idle_client_def live_def)
    then show thesis using that by (metis prod.collapse)
  qed
  have "clean_name ''/f''" "clean_server ''h1''"
    by (simp_all add: clean_name_def clean_server_def BEGIN_BRACE_def END_BRACE_def)
  from open_tagged [OF this, of ?st open_client x86 0 0 c' 0] o show ?thesis
    by (auto simp: NUL_def int_of_err_def)
qed

text \<open>Opening an untagged name: every server is asked whether it has the file, connected or
  not; if exactly one says so, it is asked to open it, and if none or several do the result is
  \<^verbatim>\<open>ENOENT\<close> and no handle is made.\<close>

theorem open_untagged:
  assumes "ambiguate (c_string path) = Some ('''', file)"
    and "found = map fst (filter (\<lambda>e. \<not> neg_err (fst (access p path F_OK (snd e)))) (connections st))"
    and "st1 = snd (checkExistance p path st)"
  shows "agfs_open p path flags fh st =
           Some (if length found = 1 then open_on p (hd found) file flags fh st1 else ((- ENOENT, fh), st1)) \<and>
         handles st1 = handles st \<and> served (connections st) (connections st1)"
proof -
  have "agfs_open p path flags fh st =
      Some (if length found = 1 then open_on p (hd found) file flags fh st1 else ((- ENOENT, fh), st1))"
    using agfs_open_plain [OF assms(1), of p flags fh st] assms(2,3)
    by (auto simp: holders_def length_Suc_conv split: list.split)
  moreover have "handles st1 = handles st"
    using assms(3) by (simp add: checkExistance_def split_beta)
  ultimately show ?thesis
    using served_check [of st p path] assms(3) by simp
qed

theorem open_untagged_witness:
  "fst (the (agfs_open x86 ''/f'' 0 7 \<lparr>connections = [], handles = []\<rparr>)) = (- ENOENT, 7)"
  using open_untagged [of "''/f''" "''/f''" "[]" x86 "\<lparr>connections = [], handles = []\<rparr>" _ 0 7]
  by (simp add: c_string_def NUL_def ambiguate_def BEGIN_BRACE_def END_BRACE_def)

text \<open>C25: \<^verbatim>\<open>getattr\<close> of the mounted file system, on a name whose server is not in the table (or
  not connected): the answer is the first answer of a connected server that is not an error,
  in the order of the host names, or the last error. When no server is connected it is success
  with an all-zero structure, for any name.\<close>

theorem getattr_first_answer:
  assumes "ambiguate (c_string path) = Some (server, file)"
    and "\<forall>c. map_find (connections st) server = Some c \<longrightarrow> \<not> connected c"
    and "answers = map (\<lambda>e. fst (getattr p file (snd e))) (filter (\<lambda>e. connected (snd e)) (connections st))"
    and "(stbuf, err) = (case find (\<lambda>a. \<not> neg_err (snd a)) answers of
            Some a \<Rightarrow> a | None \<Rightarrow> last ((zero_stat, 0) # answers))"
  shows "\<exists>st'. agfs_getattr p path st =
           Some ((int_of_err err, if neg_err err then zero_stat else stbuf), st') \<and>
         (answers = [] \<longrightarrow> (stbuf, err) = (zero_stat, 0))"
proof -
  have loop: "fst (getattr_loop p file (zero_stat, 0) (connections st)) = (stbuf, err)"
    using getattr_loop_result [of p "file" "(zero_stat, 0)" "connections st"]
    unfolding assms(3) [symmetric] first_ok_def assms(4) [symmetric] .
  then obtain conns where conns: "getattr_loop p file (zero_stat, 0) (connections st) = ((stbuf, err), conns)"
    by (cases "getattr_loop p file (zero_stat, 0) (connections st)") auto
  have "\<exists>st'. agfs_getattr p path st =
      Some ((int_of_err err, if neg_err err then zero_stat else stbuf), st')"
  proof (cases "map_find (connections st) server")
    case None
    then show ?thesis
      by (simp add: agfs_getattr_def assms(1) conns)
  next
    case (Some c)
    moreover from Some assms(2) have "\<not> connected c" by blast
    ultimately show ?thesis
      by (simp add: agfs_getattr_def assms(1) conns)
  qed
  moreover have "answers = [] \<longrightarrow> (stbuf, err) = (zero_stat, 0)"
    using assms(4) by (cases answers) simp_all
  ultimately show ?thesis by blast
qed

theorem getattr_first_answer_witness:
  "\<exists>st'. agfs_getattr x86 ''/f'' \<lparr>connections = [(''h1'', idle_client)], handles = []\<rparr> =
     Some ((0, zero_stat), st')"
  using getattr_first_answer [of "''/f''" "''''" "''/f''" "\<lparr>connections = [(''h1'', idle_client)], handles = []\<rparr>"
      "[]" x86 zero_stat 0]
  by (simp add: c_string_def NUL_def ambiguate_def BEGIN_BRACE_def END_BRACE_def int_of_err_def)

text \<open>Reading through a handle asks the server of the handle for its file, with the size of the
  buffer and the offset; the bytes of the answer are at the start of the buffer, the rest of
  the buffer is as it was, and the result is their number.\<close>

theorem read_through_handle:
  assumes "handle_at st fh = Some h" and "map_find (connections st) (fh_server h) = Some c"
    and "healthy c" and "path_ok (fh_file h)" and "length data \<le> length buf" and "length buf \<le> MAX_RW"
    and "alloc_ok p (length data)"
    and "rx c = rx_push (read_reply data (word_of_nat (length data)) @ rest) evs"
  shows "\<exists>c'. agfs_read p buf off fh st =
     Some ((int (length data), data @ drop (length data) buf),
           st\<lparr>connections := map_put (fh_server h) c' (connections st)\<rparr>) \<and>
     tx c' = tx c @ read_request (fh_file h) (word_of_nat (length buf)) off \<and> rx c' = rx_push rest evs"
  using agfs_read_answered [OF assms] by (simp add: overlay_def)

theorem read_through_handle_witness:
  "\<exists>st'. agfs_read x86 [0, 0, 0] 0 1 \<lparr>connections = [(''h1'', open_client\<lparr>rx :=
       rx_push (read_reply [7, 8] (word_of_nat (length [7, 8 :: byte])) @ []) []\<rparr>)],
     handles = [Some \<lparr>fh_server = ''h1'', fh_file = ''/f''\<rparr>]\<rparr> = Some ((2, [7, 8, 0]), st')"
proof -
  let ?c = "open_client\<lparr>rx := rx_push (read_reply [7, 8] (word_of_nat (length [7, 8 :: byte])) @ []) []\<rparr>"
  let ?h = "\<lparr>fh_server = ''h1'', fh_file = ''/f''\<rparr>"
  let ?st = "\<lparr>connections = [(''h1'', ?c)], handles = [Some ?h]\<rparr> :: fuse"
  have 1: "handle_at ?st 1 = Some ?h" "map_find (connections ?st) (fh_server ?h) = Some ?c"
    by (simp_all add: handle_at_def)
  have 2: "healthy ?c" "path_ok (fh_file ?h)"
    by (simp_all add: path_ok_def NUL_def MAX_RW_def)
  have 3: "length [7, 8 :: byte] \<le> length [0, 0, 0 :: byte]" "length [0, 0, 0 :: byte] \<le> MAX_RW"
    "alloc_ok x86 (length [7, 8 :: byte])"
    by (simp_all add: MAX_RW_def)
  show ?thesis
    using read_through_handle [OF 1 2 3, of "[]" "[]" 0] by auto
qed

text \<open>Writing through a handle sends the buffer and the offset to the server of the handle, for
  its file, and returns the number of bytes the server reports.\<close>

theorem write_through_handle:
  assumes "handle_at st fh = Some h" and "map_find (connections st) (fh_server h) = Some c"
    and "healthy c" and "path_ok (fh_file h)" and "length buf < 2 ^ 31" and "\<not> neg_err err"
    and "rx c = rx_push (be_bytes (0 :: agerr_t) @ write_reply (word_of_nat (length buf)) err @ rest) evs"
  shows "\<exists>c'. agfs_write p buf off fh st =
     Some (int (length buf), st\<lparr>connections := map_put (fh_server h) c' (connections st)\<rparr>) \<and>
     tx c' = tx c @ write_request (fh_file h) @ write_data buf off \<and> rx c' = rx_push rest evs"
  using assms by (rule agfs_write_answered)

theorem write_through_handle_witness:
  "\<exists>st'. agfs_write x86 [5] 0 1 \<lparr>connections = [(''h1'', open_client\<lparr>rx :=
       rx_push (be_bytes (0 :: agerr_t) @ write_reply (word_of_nat (length [5 :: byte])) 1 @ []) []\<rparr>)],
     handles = [Some \<lparr>fh_server = ''h1'', fh_file = ''/f''\<rparr>]\<rparr> = Some (1, st')"
proof -
  let ?c = "open_client\<lparr>rx := rx_push (be_bytes (0 :: agerr_t) @
      write_reply (word_of_nat (length [5 :: byte])) 1 @ []) []\<rparr>"
  let ?h = "\<lparr>fh_server = ''h1'', fh_file = ''/f''\<rparr>"
  let ?st = "\<lparr>connections = [(''h1'', ?c)], handles = [Some ?h]\<rparr> :: fuse"
  have 1: "handle_at ?st 1 = Some ?h" "map_find (connections ?st) (fh_server ?h) = Some ?c"
    by (simp_all add: handle_at_def)
  have 2: "healthy ?c" "path_ok (fh_file ?h)" "length [5 :: byte] < 2 ^ 31" "\<not> neg_err 1"
    by (simp_all add: path_ok_def NUL_def MAX_RW_def)
  show ?thesis
    using write_through_handle [OF 1 2, of "[]" "[]" x86 0] by auto
qed

text \<open>C26: The life of a handle: \<^verbatim>\<open>release\<close> of a handle removes it and no other one, touches no
  connection, and makes every later read, write or release through it undefined.\<close>

theorem handle_released:
  assumes "agfs_release fh st = Some (r, st')" and "fh \<noteq> 0"
  shows "r = 0 \<and> connections st' = connections st \<and>
         (\<forall>g. handle_at st' g = (if g = fh then None else handle_at st g)) \<and>
         agfs_read p buf off fh st' = None \<and> agfs_write p buf off fh st' = None \<and>
         agfs_release fh st' = None"
  using release_handle [OF assms] served_agfs_release [OF assms(1)] assms(2)
  by (simp add: agfs_read_def agfs_write_def agfs_release_def)

theorem handle_released_witness:
  "agfs_read x86 [0] 0 1 (\<lparr>connections = [], handles = [None]\<rparr> :: fuse) = None"
proof -
  have "agfs_release 1 (\<lparr>connections = [], handles = [Some \<lparr>fh_server = ''h1'', fh_file = ''/f''\<rparr>]\<rparr> :: fuse) =
      Some (0, \<lparr>connections = [], handles = [None]\<rparr>)"
    by (simp add: agfs_release_def handle_at_def)
  from handle_released [OF this, of x86 "[0]" 0] show ?thesis by simp
qed

text \<open>C23: A server that is down: while a connection has no descriptor, opening a tagged name of its
  server and reading or writing through its handles is \<^verbatim>\<open>ENOENT\<close>, asks nobody and changes
  nothing, neither a connection nor a handle nor the caller's buffer. \<^verbatim>\<open>getattr\<close>, however,
  then takes the tag for no tag at all: it answers as for the untagged name, with the metadata
  of another server's file of this name if there is one.\<close>

theorem down_server:
  assumes "map_find (connections st) server = Some c" and "\<not> connected c" and "map_find (connections st) '''' = None"
    and "clean_name f" and "clean_server server" and "NUL \<notin> set f" and "NUL \<notin> set server"
    and "length f + length server + 4 < 2 ^ 64" and "handle_at st fh = Some h" and "fh_server h = server"
  shows "agfs_open p (f @ ''{:'' @ server @ '':}'') flags fh0 st = Some ((- ENOENT, fh0), st) \<and>
         agfs_read p buf off fh st = Some ((- ENOENT, buf), st) \<and>
         agfs_write p buf off fh st = Some (- ENOENT, st) \<and>
         agfs_getattr p (f @ ''{:'' @ server @ '':}'') st = agfs_getattr p f st"
proof -
  have server: "server \<noteq> []" using assms(1,3) by auto
  have name: "f @ ''{:'' @ server @ '':}'' = listed_name f server"
    by (simp add: listed_name_def BEGIN_BRACE_def END_BRACE_def)
  have "NUL \<notin> set (listed_name f server)"
    using assms(6,7) by (simp add: listed_name_def BEGIN_BRACE_def END_BRACE_def NUL_def)
  then have parsed: "ambiguate (c_string (listed_name f server)) = Some (server, f)"
    using ambiguate_listed [OF assms(4,5,8)] by (simp add: c_string_def)
  have "ambiguate (c_string f) = Some ('''', f)"
    using assms(4,6) by (simp add: c_string_def ambiguate_clean)
  moreover have "agfs_open p (listed_name f server) flags fh0 st = Some (open_on p server f flags fh0 st)"
    using agfs_open_tagged [OF assms(4,5) server assms(6-8)] .
  ultimately show ?thesis
    unfolding name using parsed assms(1-3,9,10)
    by (simp add: open_on_def agfs_read_def agfs_write_def agfs_getattr_def)
qed

theorem down_server_witness:
  "agfs_open x86 ''/f{:h1:}'' 0 0
       \<lparr>connections = [(''h1'', idle_client)], handles = [Some \<lparr>fh_server = ''h1'', fh_file = ''/g''\<rparr>]\<rparr> =
     Some ((-2, 0), \<lparr>connections = [(''h1'', idle_client)], handles = [Some \<lparr>fh_server = ''h1'', fh_file = ''/g''\<rparr>]\<rparr>) \<and>
   agfs_read x86 [9] 0 1
       \<lparr>connections = [(''h1'', idle_client)], handles = [Some \<lparr>fh_server = ''h1'', fh_file = ''/g''\<rparr>]\<rparr> =
     Some ((-2, [9]), \<lparr>connections = [(''h1'', idle_client)], handles = [Some \<lparr>fh_server = ''h1'', fh_file = ''/g''\<rparr>]\<rparr>)"
proof -
  let ?st = "\<lparr>connections = [(''h1'', idle_client)], handles = [Some \<lparr>fh_server = ''h1'', fh_file = ''/g''\<rparr>]\<rparr> :: fuse"
  have st: "map_find (connections ?st) ''h1'' = Some idle_client" "\<not> connected idle_client"
    "map_find (connections ?st) '''' = None" by (simp_all add: idle_client_def connected_def)
  have name: "clean_name ''/f''" "clean_server ''h1''" "NUL \<notin> set ''/f''" "NUL \<notin> set ''h1''"
    "length ''/f'' + length ''h1'' + 4 < (2 :: nat) ^ 64"
    by (simp_all add: clean_name_def clean_server_def BEGIN_BRACE_def END_BRACE_def NUL_def)
  have "handle_at ?st 1 = Some \<lparr>fh_server = ''h1'', fh_file = ''/g''\<rparr>" by (simp add: handle_at_def)
  from down_server [OF st name this] show ?thesis by (simp add: ENOENT_def)
qed

end
