(* ===== verification/StoreHistory.thy ===== *)
theory StoreHistory
  imports FileHistory QueryHistory AgfsFuse
begin

text \<open>
  All the calls that work on files, mixed in any order, on any files of a server: \<^verbatim>\<open>getattr\<close>
  (as far as sizes go), \<^verbatim>\<open>access\<close>, \<^verbatim>\<open>open\<close>, \<^verbatim>\<open>readFile\<close>, \<^verbatim>\<open>writeFile\<close> and heartbeats.
  The client's methods, the server's handlers and the system behind them together implement a
  store, a finite or infinite table of files.
\<close>

section \<open>The store\<close>

type_synonym store = "string \<Rightarrow> byte list option"

datatype store_request =
    Stat_at string
  | Exists string
  | Open_at string agmask_t
  | Read_from string agsize_t agsize_t
  | Write_to string agsize_t "byte list"
  | Knock

datatype store_result =
    Sized "64 word" agerr_t
  | Status agerr_t
  | Bytes "byte list" agerr_t
  | Put agsize_t agerr_t
  | Answered bool

definition missing :: agerr_t where "missing = word_of_int (- ENOENT)"

lemma neg_missing [simp]: "neg_err missing"
  by (simp add: missing_def ENOENT_def)

fun store_do :: "store_request \<Rightarrow> store \<Rightarrow> store_result \<times> store" where
  "store_do (Stat_at path) a =
     (case a path of None \<Rightarrow> Sized 0 missing | Some bs \<Rightarrow> Sized (word_of_nat (length bs)) 0, a)"
| "store_do (Exists path) a = (Status (if a path = None then -1 else 0), a)"
| "store_do (Open_at path m) a = (Status (if a path = None then missing else 0), a)"
| "store_do (Read_from path sz off) a =
     (case a path of
        None \<Rightarrow> Bytes [] missing
      | Some bs \<Rightarrow> (let d = take (unat sz) (drop (unat off) bs) in Bytes d (word_of_nat (length d))), a)"
| "store_do (Write_to path off buf) a =
     (case a path of
        None \<Rightarrow> (Put 0 missing, a)
      | Some bs \<Rightarrow> (Put (word_of_nat (length buf)) 0, a(path := Some (put_at (unat off) buf bs))))"
| "store_do Knock a = (Answered True, a)"

fun store_path :: "store_request \<Rightarrow> string option" where
  "store_path (Stat_at path) = Some path"
| "store_path (Exists path) = Some path"
| "store_path (Open_at path m) = Some path"
| "store_path (Read_from path sz off) = Some path"
| "store_path (Write_to path off buf) = Some path"
| "store_path Knock = None"

section \<open>A system with a store\<close>

text \<open>
  \<open>files h\<close> is the store that the state \<open>h\<close> of the system holds under the mount point, seen at
  the names in \<open>names\<close>, no two of which mean the same file. Each of the files obeys the laws of
  a file while all others stay as they are; looking at a file, or at the absence of one, leaves
  the store alone. Modes are those of \<^verbatim>\<open>open\<close> without a flag that creates or truncates; the
  value 2 is \<^verbatim>\<open>O_RDWR\<close>.
\<close>

definition store_view :: "('h \<Rightarrow> store) \<Rightarrow> string \<Rightarrow> store \<Rightarrow> 'h file_view" where
  "store_view files path others h =
     (if (files h)(path := None) = others then map_option (\<lambda>bs. (bs, 0)) (files h path) else None)"

definition plain_mode :: "agmask_t \<Rightarrow> bool" where
  "plain_mode m \<longleftrightarrow> m = O_RDONLY \<or> m = O_WRONLY \<or> m = 2"

definition present_laws :: "'h os \<Rightarrow> string \<Rightarrow> ('h \<Rightarrow> store) \<Rightarrow> 'h \<Rightarrow> nat \<Rightarrow> bool" where
  "present_laws os file files h n \<longleftrightarrow>
     (\<exists>st h'. os_lstat os file h = (Inr st, h') \<and> st_size st = word_of_nat n \<and> files h' = files h) \<and>
     (\<exists>h'. os_access os file F_OK h = (Inr (), h') \<and> files h' = files h) \<and>
     (\<forall>m. plain_mode m \<longrightarrow>
        (\<exists>fd h'. os_open os file m h = (Inr fd, h') \<and> 0 \<le> fd \<and> files (snd (os_close os fd h')) = files h))"

definition absent_laws :: "'h os \<Rightarrow> string \<Rightarrow> ('h \<Rightarrow> store) \<Rightarrow> 'h \<Rightarrow> bool" where
  "absent_laws os file files h \<longleftrightarrow>
     (\<exists>h'. os_lstat os file h = (Inl ENOENT, h') \<and> files h' = files h) \<and>
     (\<exists>e h'. os_access os file F_OK h = (Inl e, h') \<and> files h' = files h) \<and>
     (\<forall>m. plain_mode m \<longrightarrow> (\<exists>h'. os_open os file m h = (Inl ENOENT, h') \<and> files h' = files h))"

definition store_laws :: "'h os \<Rightarrow> string \<Rightarrow> string set \<Rightarrow> ('h \<Rightarrow> store) \<Rightarrow> bool" where
  "store_laws os mnt names files \<longleftrightarrow>
     (\<forall>path \<in> names.
        (\<forall>others. file_laws os (path_append os mnt path) (store_view files path others)) \<and>
        (\<forall>h. case files h path of
               Some bs \<Rightarrow> present_laws os (path_append os mnt path) files h (length bs)
             | None \<Rightarrow> absent_laws os (path_append os mnt path) files h))"

lemma store_laws_file:
  "store_laws os mnt names files \<Longrightarrow> path \<in> names \<Longrightarrow>
     file_laws os (path_append os mnt path) (store_view files path others)"
  by (simp add: store_laws_def)

lemma store_laws_present:
  "store_laws os mnt names files \<Longrightarrow> path \<in> names \<Longrightarrow> files h path = Some bs \<Longrightarrow>
     present_laws os (path_append os mnt path) files h (length bs)"
  unfolding store_laws_def by (metis option.simps(5))

lemma store_laws_absent:
  "store_laws os mnt names files \<Longrightarrow> path \<in> names \<Longrightarrow> files h path = None \<Longrightarrow>
     absent_laws os (path_append os mnt path) files h"
  unfolding store_laws_def by (metis option.simps(4))

lemma store_view_Some:
  "store_view files path others h = Some (bs, pos) \<longleftrightarrow>
     files h = others(path := Some bs) \<and> others path = None \<and> pos = 0"
proof
  assume a: "store_view files path others h = Some (bs, pos)"
  then have "(files h)(path := None) = others" "files h path = Some bs" "pos = 0"
    by (auto simp: store_view_def split: if_splits)
  then show "files h = others(path := Some bs) \<and> others path = None \<and> pos = 0" by auto
qed (auto simp: store_view_def)

section \<open>Requests, answers and the client's calls\<close>

fun store_msg :: "store_request \<Rightarrow> byte list" where
  "store_msg (Stat_at path) = getattr_request path"
| "store_msg (Exists path) = access_request path F_OK"
| "store_msg (Open_at path m) = open_request path m"
| "store_msg (Read_from path sz off) = read_request path sz off"
| "store_msg (Write_to path off buf) = write_request path @ write_data buf off"
| "store_msg Knock = be_bytes cmd_HEARTBEAT"

fun store_answers :: "plat \<Rightarrow> store_result \<Rightarrow> byte list \<Rightarrow> bool" where
  "store_answers p (Sized n err) reply \<longleftrightarrow>
     (\<exists>st. n = (if neg_err err then 0 else st_size st) \<and> reply = getattr_reply st err)"
| "store_answers p (Status err) reply \<longleftrightarrow> reply = be_bytes err"
| "store_answers p (Bytes d err) reply \<longleftrightarrow>
     (if neg_err err then d = [] else err = word_of_nat (length d)) \<and> reply = read_reply d err"
| "store_answers p (Put n err) reply \<longleftrightarrow>
     err = 0 \<and> (\<exists>e. \<not> neg_err e \<and> reply = be_bytes (0 :: agerr_t) @ write_reply n e)"
| "store_answers p (Answered b) reply \<longleftrightarrow> b \<and> reply = be_bytes cmd_HEARTBEAT"

text \<open>
  The client's methods. Of the result of a write that is not an error only the number of bytes
  is kept.
\<close>

fun store_op ::
  "plat \<Rightarrow> store_request \<Rightarrow> server_connection \<Rightarrow> (store_result \<times> server_connection) option" where
  "store_op p (Stat_at path) c = (let ((st, err), c) = getattr p path c in Some (Sized (st_size st) err, c))"
| "store_op p (Exists path) c = (let (err, c) = access p path F_OK c in Some (Status err, c))"
| "store_op p (Open_at path m) c = (let (err, c) = open_file p path m c in Some (Status err, c))"
| "store_op p (Read_from path sz off) c =
     do { ((d, err), c) \<leftarrow> readFile p path sz off c; Some (Bytes d err, c) }"
| "store_op p (Write_to path off buf) c =
     (let ((n, err), c) = writeFile p path off buf c in Some (Put n (if neg_err err then err else 0), c))"
| "store_op p Knock c = (let c' = snd (heartbeat p c) in Some (Answered (connected c'), c'))"

text \<open>
  When a call is one exchange whose result the store determines: the name is one of the store
  and can be transferred, data fit into memory, and a write is to a file that is there.
\<close>

definition store_ok :: "plat \<Rightarrow> plat \<Rightarrow> string set \<Rightarrow> store_request \<Rightarrow> store \<Rightarrow> bool" where
  "store_ok p q names rq a \<longleftrightarrow>
     (\<forall>path. store_path rq = Some path \<longrightarrow> path \<in> names \<and> path_ok path \<and> string_ok q path) \<and>
     (case rq of
        Open_at path m \<Rightarrow> plain_mode m
      | Read_from path sz off \<Rightarrow> feasible p q (Read_at sz off)
      | Write_to path off buf \<Rightarrow> feasible p q (Write_at off buf) \<and> a path \<noteq> None
      | _ \<Rightarrow> True)"

definition store_ready ::
  "'h os \<Rightarrow> string set \<Rightarrow> ('h \<Rightarrow> store) \<Rightarrow> store \<Rightarrow> 'h client_connection \<Rightarrow> bool" where
  "store_ready os names files a s \<longleftrightarrow>
     healthy s \<and> store_laws os (cc_mountPoint s) names files \<and> files (cc_host s) = a"

section \<open>The client on an answer\<close>

lemma store_path_ok:
  "store_ok p q names rq a \<Longrightarrow> store_path rq = Some path \<Longrightarrow> path \<in> names \<and> path_ok path \<and> string_ok q path"
  by (simp add: store_ok_def)

lemma store_answered:
  assumes "healthy c" and "store_ok p q names rq a" and "store_do rq a = (r, a')" and "store_answers p r reply"
  shows "store_op p rq (c\<lparr>rx := rx_push reply evs\<rparr>) = Some (r, c\<lparr>tx := tx c @ store_msg rq, rx := evs\<rparr>)"
proof -
  let ?c = "c\<lparr>rx := rx_push reply evs\<rparr>"
  have c: "healthy ?c" using assms(1) by simp
  note path = store_path_ok [OF assms(2), THEN conjunct2, THEN conjunct1]
  show ?thesis
  proof (cases rq)
    case (Stat_at path)
    obtain n err where r: "r = Sized n err" using assms(3) Stat_at by (auto split: option.splits)
    then obtain st where st: "n = (if neg_err err then 0 else st_size st)" "reply = getattr_reply st err"
      using assms(4) by auto
    have "getattr p path ?c = ((if neg_err err then zero_stat else stat_view st, err),
        ?c\<lparr>tx := tx ?c @ getattr_request path, rx := evs\<rparr>)"
      using getattr_answered [OF c path, of path st err "[]" evs p] Stat_at st(2) by simp
    then show ?thesis
      using r st(1) by (simp add: Stat_at upd_order zero_stat_def stat_view_def)
  next
    case (Exists path)
    obtain err where r: "r = Status err" "reply = be_bytes err" using assms(3,4) Exists by auto
    show ?thesis
      using access_answered [OF c path, of path err "[]" evs p F_OK] r by (simp add: Exists upd_order)
  next
    case (Open_at path m)
    obtain err where r: "r = Status err" "reply = be_bytes err" using assms(3,4) Open_at by auto
    show ?thesis
      using open_answered [OF c path, of path err "[]" evs p m] r by (simp add: Open_at upd_order)
  next
    case (Read_from path sz off)
    obtain d err where r: "r = Bytes d err" using assms(3) Read_from by (auto simp: Let_def split: option.splits)
    have d: "if neg_err err then d = [] else err = word_of_nat (length d)" "reply = read_reply d err"
      using assms(4) r by simp_all
    have f: "unat sz \<le> MAX_RW" "\<forall>n \<le> unat sz. alloc_ok p n"
      using assms(2) Read_from by (simp_all add: store_ok_def)
    have "length d \<le> unat sz"
      using assms(3) r Read_from by (auto simp: Let_def split: option.splits)
    then have len: "length d \<le> MAX_RW" "alloc_ok p (length d)" using f by simp_all
    then have sint: "sint (word_of_nat (length d) :: agerr_t) = int (length d)"
      by (simp add: sint_length_u64 MAX_RW_def)
    have "(if neg_err err then ([], err) else (d, word_of_int (min (int (length d)) (sint err)))) = (d, err)"
      using d(1) sint by (auto split: if_splits)
    then have "readFile p path sz off ?c = Some ((d, err), ?c\<lparr>tx := tx ?c @ read_request path sz off, rx := evs\<rparr>)"
      using readFile_answered [OF c path len(1), of path err p "[]" evs sz off] len(2) d(2) by (simp add: Read_from)
    then show ?thesis
      using r by (simp add: Read_from upd_order)
  next
    case (Write_to path off buf)
    obtain bs where "a path = Some bs" using assms(2) Write_to by (auto simp: store_ok_def)
    then have r: "r = Put (word_of_nat (length buf)) 0" using assms(3) Write_to by simp
    obtain e where e: "\<not> neg_err e" "reply = be_bytes (0 :: agerr_t) @ write_reply (word_of_nat (length buf)) e"
      using assms(4) r by auto
    have len: "length buf < 2 ^ 63" using assms(2) Write_to by (simp add: store_ok_def)
    have "writeFile p path off buf ?c = ((word_of_nat (length buf), e),
        ?c\<lparr>tx := tx ?c @ write_request path @ write_data buf off, rx := evs\<rparr>)"
      using writeFile_answered [OF c path len, where rest = "[]" and evs = evs and ?err0.0 = 0
          and n = "word_of_nat (length buf)" and err = e and path = path] e by (simp add: Write_to)
    then show ?thesis
      using r e(1) by (simp add: Write_to upd_order)
  next
    case Knock
    then have r: "r = Answered True" "reply = be_bytes cmd_HEARTBEAT" using assms(3,4) by auto
    have "connected c" using assms(1) by (simp add: healthy_def live_def connected_def)
    then show ?thesis
      using heartbeat_answered [OF c, of evs p] r by (simp add: Knock connected_def)
  qed
qed

section \<open>The server on a request\<close>

text \<open>A call that changes nothing is the query of the same name.\<close>

lemma served_by_query:
  assumes "healthy s" and "store_laws os (cc_mountPoint s) names files"
    and "query_ok os p q (cc_mountPoint s) qr (cc_host s)"
    and "query_do os (cc_mountPoint s) qr (cc_host s) = (r, h')" and "files h' = a'"
    and "store_msg rq = query_request qr" and "\<And>reply. query_answers p r reply \<Longrightarrow> store_answers p r' reply"
  shows "\<exists>s' reply. serve_step os q (s\<lparr>rx := rx_push (store_msg rq) evs\<rparr>) = Some (True, s') \<and>
           tx s' = tx s @ reply \<and> rx s' = evs \<and> store_answers p r' reply \<and> store_ready os names files a' s'"
proof -
  obtain s' reply where s': "serve_step os q (s\<lparr>rx := rx_push (query_request qr) evs\<rparr>) = Some (True, s')"
    "tx s' = tx s @ reply" "rx s' = evs" "query_answers p r reply"
    "healthy s'" "cc_mountPoint s' = cc_mountPoint s" "cc_host s' = h'"
    using query_served [OF assms(1,3,4), of evs] by blast
  then show ?thesis
    using assms(2,5-7) by (intro exI [of _ s'] exI [of _ reply]) (simp add: store_ready_def)
qed

text \<open>A read or a write of a file that is there is the one on that file, with the others at rest.\<close>

lemma served_by_file:
  assumes "healthy s" and "store_laws os (cc_mountPoint s) names files"
    and "path \<in> names" and "path_ok path" and "string_ok q path"
    and "files (cc_host s) path = Some bs" and "feasible p q fr" and "file_do fr bs = (r, bs')"
    and "store_msg rq = request_of path fr" and "\<And>reply. answers r reply \<Longrightarrow> store_answers p r' reply"
  shows "\<exists>s' reply. serve_step os q (s\<lparr>rx := rx_push (store_msg rq) evs\<rparr>) = Some (True, s') \<and>
           tx s' = tx s @ reply \<and> rx s' = evs \<and> store_answers p r' reply \<and>
           store_ready os names files ((files (cc_host s))(path := Some bs')) s'"
proof -
  let ?others = "(files (cc_host s))(path := None)"
  let ?view = "store_view files path ?others"
  have laws: "file_laws os (path_append os (cc_mountPoint s) path) ?view"
    using store_laws_file [OF assms(2,3)] .
  have "?view (cc_host s) = Some (bs, 0)" using assms(6) by (simp add: store_view_def)
  from server_answers [OF assms(1,4,5) laws this assms(7,8), of evs]
  obtain s' reply pos' where s': "serve_step os q (s\<lparr>rx := rx_push (request_of path fr) evs\<rparr>) = Some (True, s')"
    "tx s' = tx s @ reply" "rx s' = evs" "answers r reply" "?view (cc_host s') = Some (bs', pos')"
    "healthy s'" "cc_mountPoint s' = cc_mountPoint s" by blast
  have "files (cc_host s') = (files (cc_host s))(path := Some bs')"
    using s'(5) unfolding store_view_Some by simp
  then show ?thesis
    using s' assms(2,9,10) by (intro exI [of _ s'] exI [of _ reply]) (simp add: store_ready_def)
qed

lemma served_read_missing:
  assumes "healthy s" and "store_laws os (cc_mountPoint s) names files"
    and "path \<in> names" and "string_ok q path" and "files (cc_host s) path = None"
  shows "\<exists>s' reply. serve_step os q (s\<lparr>rx := rx_push (store_msg (Read_from path sz off)) evs\<rparr>) = Some (True, s') \<and>
           tx s' = tx s @ reply \<and> rx s' = evs \<and> store_answers p (Bytes [] missing) reply \<and>
           store_ready os names files (files (cc_host s)) s'"
proof -
  obtain h where o: "os_open os (path_append os (cc_mountPoint s) path) O_RDONLY (cc_host s) = (Inl ENOENT, h)"
    and h: "files h = files (cc_host s)"
    using store_laws_absent [OF assms(2,3,5)] by (auto simp: absent_laws_def plain_mode_def)
  let ?args = "string_enc path @ be_bytes sz @ be_bytes off"
  let ?s = "s\<lparr>rx := evs, errno := ENOENT, tx := tx s @ read_reply [] missing, cc_host := h\<rparr>"
  have "processRead os q (s\<lparr>rx := rx_push ?args evs\<rparr>) = Some ?s"
    using processRead_failed [OF requested_all [OF assms(1)] assms(4), where os = os and e = ENOENT and h = h
        and sz = sz and off = off and evs = evs] o neg_missing by (simp add: missing_def)
  then have "serve_step os q (s\<lparr>rx := rx_push (store_msg (Read_from path sz off)) evs\<rparr>) = Some (True, ?s)"
    using serve_request [OF assms(1) read_request_def cmd_not_stop(5), of _ path sz off evs os q]
    by (simp add: dispatch_cmd)
  then show ?thesis
    using assms(1,2) h by (intro exI [of _ ?s] exI [of _ "read_reply [] missing"]) (simp add: store_ready_def)
qed

lemma store_served:
  assumes "store_ready os names files a s" and "store_ok p q names rq a" and "store_do rq a = (r, a')"
  shows "\<exists>s' reply. serve_step os q (s\<lparr>rx := rx_push (store_msg rq) evs\<rparr>) = Some (True, s') \<and>
           tx s' = tx s @ reply \<and> rx s' = evs \<and> store_answers p r reply \<and> store_ready os names files a' s'"
proof -
  have s: "healthy s" "store_laws os (cc_mountPoint s) names files" "files (cc_host s) = a"
    using assms(1) by (simp_all add: store_ready_def)
  note ok = store_path_ok [OF assms(2)]
  have sized: "store_answers p (Sized (st_size st) err) reply" if "query_answers p (Stat_is st err) reply" for st err reply
    using that by (auto simp: zero_stat_def split: if_splits)
  note query = served_by_query [OF s(1,2)] and file' = served_by_file [OF s(1,2)]
  let ?mnt = "cc_mountPoint s" and ?h = "cc_host s"
  show ?thesis
  proof (cases rq)
    case (Stat_at path)
    have path: "path \<in> names" "path_ok path" "string_ok q path" using ok Stat_at by simp_all
    show ?thesis
    proof (cases "a path")
      case None
      then obtain h' where h': "os_lstat os (path_append os ?mnt path) ?h = (Inl ENOENT, h')" "files h' = a"
        using store_laws_absent [OF s(2) path(1), of ?h] s(3) by (auto simp: absent_laws_def)
      show ?thesis
        using path None h' assms(3) Stat_at
        by (intro query [where qr = "Stat_of path" and r = "Stat_is zero_stat missing" and h' = h'])
           (auto simp: query_ok.simps missing_def ENOENT_def)
    next
      case (Some bs)
      then obtain st h' where h': "os_lstat os (path_append os ?mnt path) ?h = (Inr st, h')"
        "st_size st = word_of_nat (length bs)" "files h' = a"
        using store_laws_present [OF s(2) path(1), of ?h bs] s(3) by (auto simp: present_laws_def)
      show ?thesis
        using path Some h' assms(3) Stat_at
        by (intro query [where qr = "Stat_of path" and r = "Stat_is (stat_view st) 0" and h' = h'])
           (use sized [of "stat_view st" 0] in \<open>auto simp: query_ok.simps stat_view_def\<close>)
    qed
  next
    case (Exists path)
    have path: "path \<in> names" "path_ok path" "string_ok q path" using ok Exists by simp_all
    obtain x h' where h': "os_access os (path_append os ?mnt path) F_OK ?h = (x, h')" "files h' = a"
      "(case x of Inl _ \<Rightarrow> -1 | Inr _ \<Rightarrow> 0) = (if a path = None then -1 else (0 :: agerr_t))"
      using store_laws_absent [OF s(2) path(1), of ?h] store_laws_present [OF s(2) path(1), of ?h] s(3)
      by (cases "a path") (force simp: absent_laws_def present_laws_def)+
    show ?thesis
      using path h' assms(3) Exists
      by (intro query [where qr = "May path F_OK" and r = "Status_is (if a path = None then -1 else 0)" and h' = h'])
         (auto simp: query_ok.simps)
  next
    case (Open_at path m)
    have path: "path \<in> names" "path_ok path" "string_ok q path" using ok Open_at by simp_all
    have m: "plain_mode m" using assms(2) Open_at by (simp add: store_ok_def)
    show ?thesis
    proof (cases "a path")
      case None
      then obtain h' where h': "os_open os (path_append os ?mnt path) m ?h = (Inl ENOENT, h')" "files h' = a"
        using store_laws_absent [OF s(2) path(1), of ?h] s(3) m by (auto simp: absent_laws_def)
      show ?thesis
        using path None h' assms(3) Open_at
        by (intro query [where qr = "Can_open path m" and r = "Status_is missing" and h' = h'])
           (auto simp: query_ok.simps missing_def)
    next
      case (Some bs)
      then obtain fd h' where h': "os_open os (path_append os ?mnt path) m ?h = (Inr fd, h')" "0 \<le> fd"
        "files (snd (os_close os fd h')) = a"
        using store_laws_present [OF s(2) path(1), of ?h bs] s(3) m by (auto simp: present_laws_def)
      show ?thesis
        using path Some h' assms(3) Open_at
        by (intro query [where qr = "Can_open path m" and r = "Status_is 0" and h' = "snd (os_close os fd h')"])
           (auto simp: query_ok.simps)
    qed
  next
    case (Read_from path sz off)
    have path: "path \<in> names" "path_ok path" "string_ok q path" using ok Read_from by simp_all
    show ?thesis
    proof (cases "a path")
      case None
      then have "r = Bytes [] missing" "a' = files ?h" using assms(3) Read_from s(3) by simp_all
      then show ?thesis
        using served_read_missing [OF s(1,2) path(1,3), of sz off evs p] None s(3) Read_from by simp
    next
      case (Some bs)
      let ?d = "take (unat sz) (drop (unat off) bs)"
      have f: "feasible p q (Read_at sz off)" using assms(2) Read_from by (simp add: store_ok_def)
      have r: "r = Bytes ?d (word_of_nat (length ?d))" "a' = a" using assms(3) Some Read_from by (auto simp: Let_def)
      have "length ?d \<le> MAX_RW" using f by (simp add: min.coboundedI2)
      then have "\<not> neg_err (word_of_nat (length ?d))" by (simp add: sint_length_u64 MAX_RW_def)
      then have ans: "store_answers p r reply" if "answers (Data ?d False) reply" for reply
        using that r(1) by auto
      have "a(path := Some bs) = a" using Some by auto
      then show ?thesis
        using file' [OF path _ f, of bs "Data ?d False" bs rq r evs, OF _ _ _ ans] Some s(3) r(2) Read_from by simp
    qed
  next
    case (Write_to path off buf)
    have path: "path \<in> names" "path_ok path" "string_ok q path" using ok Write_to by simp_all
    have f: "feasible p q (Write_at off buf)" using assms(2) Write_to by (simp add: store_ok_def)
    obtain bs where bs: "a path = Some bs" using assms(2) Write_to by (auto simp: store_ok_def)
    have r: "r = Put (word_of_nat (length buf)) 0" "a' = a(path := Some (put_at (unat off) buf bs))"
      using assms(3) bs Write_to by simp_all
    have ans: "store_answers p r reply" if "answers (Written (word_of_nat (length buf)) False) reply" for reply
      using that r(1) by auto
    show ?thesis
      using file' [OF path _ f, of bs "Written (word_of_nat (length buf)) False" "put_at (unat off) buf bs" rq r evs,
          OF _ _ _ ans] bs s(3) r(2) Write_to by simp
  next
    case Knock
    let ?s = "s\<lparr>rx := evs, tx := tx s @ be_bytes cmd_HEARTBEAT\<rparr>"
    have "serve_step os q (s\<lparr>rx := rx_push (store_msg rq) evs\<rparr>) = Some (True, ?s)"
      using serve_step_heartbeat [of "s\<lparr>rx := rx_push (store_msg rq) evs\<rparr>" evs os q] s(1) by (simp add: Knock)
    moreover have "r = Answered True" "a' = a" using assms(3) Knock by auto
    ultimately show ?thesis
      using s by (intro exI [of _ ?s] exI [of _ "be_bytes cmd_HEARTBEAT"]) (simp add: store_ready_def)
  qed
qed

text \<open>The calls on a store fulfil the contract of a conversation.\<close>

interpretation store_talk: conversation os q store_msg "store_answers p" "store_op p" store_do
    "store_ready os names files" "store_ok p q names" for os q p names files
proof unfold_locales
  fix a a' s rq r evs
  assume a: "store_ready os names files a s" "store_ok p q names rq a" "store_do rq a = (r, a')"
  show "\<exists>s' reply. serve_step os q (s\<lparr>rx := rx_push (store_msg rq) evs\<rparr>) = Some (True, s') \<and>
      tx s' = tx s @ reply \<and> rx s' = evs \<and> store_answers p r reply \<and> store_ready os names files a' s'"
    by (rule store_served [OF a])
next
  fix c :: server_connection and rq r a a' reply evs
  assume c: "healthy c" "store_ok p q names rq a" "store_do rq a = (r, a')" "store_answers p r reply"
  show "store_op p rq (c\<lparr>rx := rx_push reply evs\<rparr>) = Some (r, c\<lparr>tx := tx c @ store_msg rq, rx := evs\<rparr>)"
    by (rule store_answered [OF c])
qed (simp_all add: store_ready_def)

section \<open>An example\<close>

text \<open>
  A system with a store: its state is the table of all files and what the one descriptor that
  it ever gives out stands for, with its position.
\<close>

definition store_os :: "(store \<times> string \<times> nat) os" where
  "store_os = \<lparr>
     path_append = (\<lambda>dir path. dir @ path),
     os_lstat = (\<lambda>path h. (case fst h path of None \<Rightarrow> Inl ENOENT
        | Some bs \<Rightarrow> Inr (zero_stat\<lparr>st_mode := 0x81A4, st_size := word_of_nat (length bs)\<rparr>), h)),
     os_access = (\<lambda>path m h. (if fst h path = None then Inl ENOENT else Inr (), h)),
     os_exists = (\<lambda>path h. (Some True, h)),
     os_is_directory = (\<lambda>path h. (Some False, h)),
     os_listdir = (\<lambda>path h. (None, h)),
     os_open = (\<lambda>path m h. if fst h path = None then (Inl ENOENT, h) else (Inr 5, (fst h, path, 0))),
     os_lseek = (\<lambda>fd off h. (Inr off, (fst h, fst (snd h), unat off))),
     os_read = (\<lambda>fd n h. case fst h (fst (snd h)) of None \<Rightarrow> (Inl EBADF, h)
        | Some bs \<Rightarrow> (let d = take n (drop (snd (snd h)) bs)
                     in (Inr d, (fst h, fst (snd h), snd (snd h) + length d)))),
     os_write = (\<lambda>fd d h. case fst h (fst (snd h)) of None \<Rightarrow> (Inl EBADF, h)
        | Some bs \<Rightarrow> (Inr (length d), ((fst h)(fst (snd h) := Some (put_at (snd (snd h)) d bs)),
                     fst (snd h), snd (snd h) + length d))),
     os_close = (\<lambda>fd h. (Inr (), h)),
     os_read_file = (\<lambda>path h. (if path = KEY_LIST_PATH then Some (''/m u K'' @ [CHR 0x0A]) else None, h)),
     os_getpwnam = (\<lambda>user h. (if user = ''u'' then Some (1000, 100) else None, h))\<rparr>"

definition under :: "string \<Rightarrow> store \<Rightarrow> store" where
  "under mnt table path = table (mnt @ path)"

definition store_files :: "store \<times> string \<times> nat \<Rightarrow> store" where
  "store_files h = under ''/m'' (fst h)"

lemma under_upd [simp]: "under mnt (table(mnt @ path := x)) = (under mnt table)(path := x)"
  by (auto simp: under_def fun_eq_iff)

lemma under_m [simp]: "under ''/m'' (table(CHR ''/'' # CHR ''m'' # path := x)) = (under ''/m'' table)(path := x)"
  using under_upd [of "''/m''" table path x] by simp

definition store_fd_view :: "string \<Rightarrow> store \<Rightarrow> (store \<times> string \<times> nat) file_view" where
  "store_fd_view path others h =
     (if fst (snd h) = ''/m'' @ path
      then map_option (\<lambda>(bs, pos). (bs, snd (snd h))) (store_view store_files path others h) else None)"

lemma store_fd_view_Some:
  "store_fd_view path others h = Some (bs, pos) \<longleftrightarrow>
     (\<exists>table. h = (table, ''/m'' @ path, pos) \<and> under ''/m'' table = others(path := Some bs) \<and> others path = None)"
  by (cases h) (auto simp: store_fd_view_def store_view_Some store_files_def)

lemma under_at: "under ''/m'' table = others(path := Some bs) \<Longrightarrow> table (CHR ''/'' # CHR ''m'' # path) = Some bs"
  using under_def [of "''/m''" table path] by simp

lemma store_os_fd_laws:
  "seek_law store_os fd (store_fd_view path others)"
  "read_law store_os fd (store_fd_view path others)"
  "write_law store_os fd (store_fd_view path others)"
  "backs store_os fd (store_fd_view path others) (store_view store_files path others)"
  by (auto simp: seek_law_def read_law_def write_law_def backs_def store_fd_view_Some store_view_Some store_os_def
        store_files_def under_at min_def Let_def)

lemma store_os_file_laws: "file_laws store_os (''/m'' @ path) (store_view store_files path others)"
  unfolding file_laws_def
proof (intro allI impI)
  fix h :: "store \<times> string \<times> nat" and bs pos and m :: agmask_t
  assume "store_view store_files path others h = Some (bs, pos)"
  then have h: "store_files h = others(path := Some bs)" "others path = None"
    by (simp_all add: store_view_Some)
  then have "fst h (''/m'' @ path) = Some bs"
    using under_at [of "fst h"] by (simp add: store_files_def)
  then have "os_open store_os (''/m'' @ path) m h = (Inr 5, (fst h, ''/m'' @ path, 0))"
    "store_fd_view path others (fst h, ''/m'' @ path, 0) = Some (bs, 0)"
    using h by (auto simp: store_os_def store_fd_view_Some store_files_def)
  then show "\<exists>fd h' pos' V. os_open store_os (''/m'' @ path) m h = (Inr fd, h') \<and> 0 \<le> fd \<and> V h' = Some (bs, pos') \<and>
      seek_law store_os fd V \<and> (m = O_RDONLY \<longrightarrow> read_law store_os fd V) \<and>
      (m = O_WRONLY \<longrightarrow> write_law store_os fd V) \<and> backs store_os fd V (store_view store_files path others)"
    using store_os_fd_laws [of 5 path others]
    by (intro exI [of _ 5] exI [of _ "(fst h, ''/m'' @ path, 0)"] exI [of _ 0] exI [of _ "store_fd_view path others"]) simp
qed

lemma store_os_laws: "store_laws store_os ''/m'' names store_files"
proof -
  have path: "path_append store_os dir path = dir @ path" for dir path by (simp add: store_os_def)
  have look: "fst h (''/m'' @ path) = store_files h path" for h path by (simp add: store_files_def under_def)
  have present: "present_laws store_os (''/m'' @ path) store_files h (length bs)"
    if "store_files h path = Some bs" for h path bs
    using that look [of h path] by (simp add: present_laws_def store_os_def store_files_def)
  have absent: "absent_laws store_os (''/m'' @ path) store_files h" if "store_files h path = None" for h path
    using that look [of h path] by (simp add: absent_laws_def store_os_def)
  show ?thesis
    unfolding store_laws_def path
    by (intro ballI conjI allI store_os_file_laws) (auto intro: present absent simp del: append_Cons split: option.split)
qed

text \<open>The process that serves \<^verbatim>\<open>/m\<close> of this system.\<close>

definition store_server :: "store \<Rightarrow> (store \<times> string \<times> nat) client_connection" where
  "store_server table = \<lparr>rx = [], wx = [], tx = [], sock_open = True, errno = 0, socket = 3,
     cc_mountPoint = ''/m'', cc_beatsMissed = 0, cc_host = (table, '''', 0), cc_uid = 1000, cc_gid = 100\<rparr>"

lemma store_server_ready: "store_ready store_os names store_files (under ''/m'' table) (store_server table)"
  using store_os_laws [of names]
  by (simp add: store_ready_def store_server_def store_files_def healthy_def live_def)

text \<open>The same process before its client has sent its key.\<close>

definition store_forked :: "store \<Rightarrow> (store \<times> string \<times> nat) client_connection" where
  "store_forked table = (store_server table)\<lparr>socket := -1, cc_mountPoint := '''', cc_uid := 0, cc_gid := 0\<rparr>"

lemma store_login: "login store_os ppc ''K'' 3 (store_forked table) ''/m'' (table, '''', 0)"
proof -
  have "os_read_file store_os KEY_LIST_PATH (cc_host (store_forked table)) =
      (Some (concat (map key_line [(''/m'', ''u'', ''K'')])), table, '''', 0)"
    "os_getpwnam store_os ''u'' (table, '''', 0) = (Some (1000, 100), table, '''', 0)"
    "os_exists store_os ''/m'' (table, '''', 0) = (Some True, table, '''', 0)"
    using one_entry by (simp_all add: store_os_def store_forked_def store_server_def)
  moreover have "find (has_key ''K'') [(''/m'', ''u'', ''K'')] = Some (''/m'', ''u'', ''K'')" by simp
  moreover have "live 3 (store_forked table)" "wx (store_forked table) = []" "cc_uid (store_forked table) = 0"
    "string_ok ppc ''K''"
    by (simp_all add: store_forked_def store_server_def live_def string_ok_def NUL_def MAX_RW_def)
  ultimately show ?thesis unfolding login_def using one_entry(2) by blast
qed

definition example_table :: store where
  "example_table path = (if path = ''/m/a'' then Some [1, 2, 3] else if path = ''/m/b'' then Some [] else None)"

lemma example_files [simp]:
  "under ''/m'' example_table ''/a'' = Some [1, 2, 3]" "under ''/m'' example_table ''/b'' = Some []"
  "under ''/m'' example_table ''/c'' = None"
  by (simp_all add: under_def example_table_def)

section \<open>Properties\<close>

text \<open>C6: The life of a connection that uses everything: when the key of the client is on the
  server's list, a conversation of the key, any history of \<^verbatim>\<open>getattr\<close>, \<^verbatim>\<open>access\<close>,
  \<^verbatim>\<open>open\<close>, reads, writes and heartbeats on any files, and the stop makes the server's process
  log in, serve all and end; and on the bytes it sends, the calls of the client return what the
  same history returns on a table from names to bytes. The server's files are then those of
  the table that the history leaves: no call touches another file than its own.\<close>

theorem store_life:
  assumes "login os q key connfd s mnt h2" and "reaches net host port"
    and "store_laws os mnt names files" and "all_ok (store_ok p q names) store_do rqs (files h2)"
    and "run_spec store_do rqs (files h2) = (rs, a')"
    and "messages = [string_enc key] @ map store_msg rqs @ [be_bytes cmd_STOP]"
  shows "\<exists>s1 s2 replies c c'.
    new_client_connection os q connfd (s\<lparr>rx := rx_pushes messages []\<rparr>) = Some s1 \<and>
    processCommands os q s1 = Some s2 \<and> \<not> sock_open s2 \<and> rx s2 = [] \<and>
    tx s2 = tx s @ be_bytes cmd_ACCEPT @ concat replies \<and> files (cc_host s2) = a' \<and>
    c = new_server_connection p (delivering net (be_bytes cmd_ACCEPT # replies)) host port key \<and>
    connected c \<and> run_calls (store_op p) rqs c = Some (rs, c') \<and> rx c' = [] \<and>
    tx (snd (stop p c')) = concat messages \<and> \<not> sock_open (snd (stop p c'))"
proof -
  have "store_ready os names files (files h2) s1"
    if "healthy s1" "cc_mountPoint s1 = mnt" "cc_host s1 = h2" for s1
    using that assms(3) by (simp add: store_ready_def)
  then obtain s1 s2 s3 replies c c' where
    "new_client_connection os q connfd (s\<lparr>rx := rx_pushes messages []\<rparr>) = Some s1"
    "processCommands os q s1 = Some s2" "\<not> connected s2" "\<not> sock_open s2" "rx s2 = []"
    "tx s2 = tx s @ be_bytes cmd_ACCEPT @ concat replies" "cc_host s2 = cc_host s3"
    "store_ready os names files a' s3"
    "c = new_server_connection p (delivering net (be_bytes cmd_ACCEPT # replies)) host port key"
    "connected c" "run_calls (store_op p) rqs c = Some (rs, c')" "rx c' = []"
    "tx (snd (stop p c')) = concat messages" "\<not> sock_open (snd (stop p c'))"
    using store_talk.life [OF assms(1,2) _ assms(4-6)] by blast
  then show ?thesis unfolding store_ready_def by metis
qed

theorem store_life_witness:
  "\<exists>s1 s2 net c'.
     new_client_connection store_os ppc 3 ((store_forked example_table)\<lparr>rx := rx_pushes ([string_enc ''K''] @
       map store_msg [Stat_at ''/a'', Write_to ''/b'' 1 [9], Exists ''/c'', Read_from ''/b'' 4 0, Read_from ''/c'' 4 0]
         @ [be_bytes cmd_STOP]) []\<rparr>) = Some s1 \<and>
     processCommands store_os ppc s1 = Some s2 \<and> \<not> sock_open s2 \<and> store_files (cc_host s2) ''/b'' = Some [0, 9] \<and>
     store_files (cc_host s2) ''/a'' = Some [1, 2, 3] \<and>
     run_calls (store_op x86)
       [Stat_at ''/a'', Write_to ''/b'' 1 [9], Exists ''/c'', Read_from ''/b'' 4 0, Read_from ''/c'' 4 0]
       (new_server_connection x86 net ''h1'' ''80'' ''K'') =
       Some ([Sized 3 0, Put 1 0, Status (-1), Bytes [0, 9] 2, Bytes [] missing], c')"
proof -
  let ?rqs = "[Stat_at ''/a'', Write_to ''/b'' 1 [9], Exists ''/c'', Read_from ''/b'' 4 0, Read_from ''/c'' 4 0]"
  let ?rs = "[Sized 3 0, Put 1 0, Status (-1), Bytes [0, 9] 2, Bytes [] missing]"
  let ?names = "{''/a'', ''/b'', ''/c''}" and ?a = "under ''/m'' example_table"
  have files: "store_files (example_table, '''', 0) = ?a" by (simp add: store_files_def)
  have ok: "all_ok (store_ok x86 ppc ?names) store_do ?rqs (store_files (example_table, '''', 0))"
    unfolding files by (simp add: store_ok_def string_ok_def path_ok_def NUL_def MAX_RW_def)
  have run: "run_spec store_do ?rqs (store_files (example_table, '''', 0)) = (?rs, ?a(''/b'' := Some [0, 9]))"
    unfolding files by (simp add: put_at_def)
  show ?thesis
    using store_life [OF store_login answering_reaches store_os_laws ok run refl]
    by (elim exE conjE) (intro exI conjI; assumption?; simp)
qed

end
