(* ===== verification/MergedView.thy ===== *)
theory MergedView
  imports QueryHistory AgfsFuse
begin

text \<open>
  A listing of the mounted file system and the directories of the servers: the mount asks
  every server of its table, each server's process answers in one turn of its loop, and the
  merged listing is a function of what is in the servers' directories.
\<close>

section \<open>One server\<close>

text \<open>
  What is in the directory that a path of the mount means on a server: its entries with the
  metadata that is sent, or \<^verbatim>\<open>ENOTDIR\<close>. It is \<open>None\<close> when the file system library
  throws, or when the directory changes between the two passes of the server over it.
\<close>

definition dir_listing :: "'h os \<Rightarrow> string \<Rightarrow> 'h client_connection \<Rightarrow> ((string \<times> stat) list \<times> agerr_t) option" where
  "dir_listing os path s = map_option fst (list_dir os (path_append os (cc_mountPoint s) path) (cc_host s))"

text \<open>One exchange with a server returns what is in its directory.\<close>

lemma dir_listing_session:
  assumes "healthy c" and "healthy s" and "path_ok path" and "string_ok q path"
    and "dir_listing os path s = Some (files, err)"
    and "\<forall>v \<in> set files. string_ok p (fst v)" and "length files < 2 ^ 64"
  shows "\<exists>c' s'. session (readdir p path) (serve_step os q) c s (files, err) c' s'"
proof -
  obtain h' where l: "list_dir os (path_append os (cc_mountPoint s) path) (cc_host s) = Some ((files, err), h')"
    using assms(5) by (auto simp: dir_listing_def)
  have ok: "query_ok os p q (cc_mountPoint s) (Entries_of path) (cc_host s)"
    using l assms(3,4,6,7) by (simp add: query_ok.simps)
  have run: "query_do os (cc_mountPoint s) (Entries_of path) (cc_host s) = (Entries_are files err, h')"
    using l by simp
  have ready: "query_ready (cc_mountPoint s) (cc_host s) s" using assms(2) by (simp add: query_ready_def)
  obtain c' s' where "session (query_op p (Entries_of path)) (serve_step os q) c s (Entries_are files err) c' s'"
    using query_talk.one_call [OF assms(1) ready ok run] by blast
  then show ?thesis
    by (fastforce simp: session_def split: Option.bind_splits)
qed

section \<open>All servers of the table\<close>

text \<open>
  What the mount can take from a listing: names that it can allocate, and, as in every
  directory, no name twice.
\<close>

definition listing_ok :: "plat \<Rightarrow> (string \<times> stat) list \<Rightarrow> bool" where
  "listing_ok p files \<longleftrightarrow> length files < 2 ^ 64 \<and> (\<forall>v \<in> set files. string_ok p (fst v)) \<and>
     distinct (map fst (filter (\<lambda>v. \<not> is_dir_entry v) files))"

text \<open>Bytes that have arrived on the connection of each server.\<close>

definition arrived :: "(string \<Rightarrow> byte list) \<Rightarrow> connection_map \<Rightarrow> connection_map" where
  "arrived reply m = map (\<lambda>(k, c). (k, c\<lparr>rx := rx_push (reply k) (rx c)\<rparr>)) m"

lemma arrived_keys: "map fst (arrived reply m) = map fst m"
  by (simp add: arrived_def comp_def split_beta)

lemma arrived_find: "map_find (arrived reply m) k =
    map_option (\<lambda>c. c\<lparr>rx := rx_push (reply k) (rx c)\<rparr>) (map_find m k)"
  unfolding arrived_def by (induction m) auto

lemma map_find_snd: "map_find (map (\<lambda>(k, c). (k, f c)) m) k = map_option f (map_find m k)"
  by (induction m) auto

text \<open>The process of each server, and what is in its directory.\<close>

record 'h remote =
  rm_os :: "'h os"
  rm_plat :: plat
  rm_process :: "'h client_connection"

definition reachable_dir ::
  "plat \<Rightarrow> string \<Rightarrow> server_connection \<Rightarrow> 'h remote \<Rightarrow> (string \<times> stat) list \<Rightarrow> agerr_t \<Rightarrow> bool" where
  "reachable_dir p path c rm files err \<longleftrightarrow>
     healthy c \<and> healthy (rm_process rm) \<and> string_ok (rm_plat rm) path \<and>
     dir_listing (rm_os rm) path (rm_process rm) = Some (files, err) \<and> listing_ok p files"

text \<open>One exchange between the mount and a server, for one request and one reply.\<close>

definition asked :: "plat \<Rightarrow> string \<Rightarrow> server_connection \<Rightarrow> 'h remote \<Rightarrow> (string \<times> stat) list \<Rightarrow> agerr_t \<Rightarrow>
    byte list \<Rightarrow> byte list \<Rightarrow> server_connection \<Rightarrow> 'h client_connection \<Rightarrow> bool" where
  "asked p path c rm files err request reply c' s' \<longleftrightarrow>
     readdir p path (c\<lparr>rx := rx_push reply (rx c)\<rparr>) = Some ((files, err), c') \<and>
     tx c' = tx c @ request \<and> rx c' = rx c \<and>
     serve_step (rm_os rm) (rm_plat rm) ((rm_process rm)\<lparr>rx := rx_push request (rx (rm_process rm))\<rparr>) = Some (True, s') \<and>
     tx s' = tx (rm_process rm) @ reply \<and> rx s' = rx (rm_process rm)"

lemma reachable_asked:
  assumes "reachable_dir p path c rm files err" and "path_ok path"
  shows "\<exists>request reply c' s'. asked p path c rm files err request reply c' s'"
proof -
  obtain c' s' where "session (readdir p path) (serve_step (rm_os rm) (rm_plat rm)) c (rm_process rm) (files, err) c' s'"
    using dir_listing_session [of c "rm_process rm" path "rm_plat rm" "rm_os rm" files err p] assms
    by (auto simp: reachable_dir_def listing_ok_def)
  then show ?thesis
    unfolding session_def asked_def by blast
qed

lemma all_asked:
  assumes "map_ok m" and "\<forall>(k, c) \<in> set m. reachable_dir p path c (rm k) (files k) (err k)" and "path_ok path"
  shows "\<exists>request reply c' s'. \<forall>(k, c) \<in> set m.
           asked p path c (rm k) (files k) (err k) (request k) (reply k) (c' k) (s' k)"
proof -
  define P where "P k rq rp c1 s1 \<longleftrightarrow>
      (\<forall>c. map_find m k = Some c \<longrightarrow> asked p path c (rm k) (files k) (err k) rq rp c1 s1)" for k rq rp c1 s1
  have "\<exists>rq rp c1 s1. P k rq rp c1 s1" for k
  proof (cases "map_find m k")
    case (Some c)
    then have "reachable_dir p path c (rm k) (files k) (err k)"
      using assms(2) map_find_in by fastforce
    from reachable_asked [OF this assms(3)] Some show ?thesis by (auto simp: P_def)
  qed (simp add: P_def)
  then obtain request reply c' s' where "\<And>k. P k (request k) (reply k) (c' k) (s' k)" by metis
  then show ?thesis
    using map_find_sorted [OF assms(1)] by (intro exI [of _ request] exI [of _ reply] exI [of _ c'] exI [of _ s'])
      (auto simp: P_def)
qed

lemma asked_lists:
  assumes "\<forall>(k, c) \<in> set m. asked p path c (rm k) (files k) (err k) (request k) (reply k) (c' k) (s' k)"
    and "\<forall>(k, c) \<in> set m. reachable_dir p path c (rm k) (files k) (err k)"
  shows "lists p path (arrived reply m) files err"
  using assms by (fastforce simp: lists_def arrived_def asked_def reachable_dir_def listing_ok_def)

section \<open>Properties\<close>

text \<open>C7: From the servers' directories to the mounted one: when every server of the table is
  reachable, a listing of the mounted root of a path sends every server one request, every
  server's process answers it in one turn of its loop, nothing is left over on any
  connection, and the listing holds exactly the files that are in the servers' directories,
  under their plain name if one server has the file and tagged with the server otherwise, and
  their directories. It is \<^verbatim>\<open>ENOTDIR\<close> when the path is a directory on no server.\<close>

theorem servers_merged:
  assumes "map_ok (connections st)" and "ambiguate (c_string path) = Some (server, file)"
    and "map_find (connections st) server = None" and "path_ok file"
    and "\<forall>(k, c) \<in> set (connections st). NUL \<notin> set k \<and> reachable_dir p file c (rm k) (files k) (err k)"
    and "ks = map fst (connections st)"
  shows "\<exists>request reply s' e entries st'.
    agfs_readdir p path (st\<lparr>connections := arrived reply (connections st)\<rparr>) =
      Some ((int_of_err e, entries), st') \<and>
    (\<forall>(k, c) \<in> set (connections st).
       asked p file c (rm k) (files k) (err k) (request k) (reply k)
         (the (map_find (connections st') k)) (s' k)) \<and>
    (\<forall>name a. (name, Some a) \<in> set entries \<longleftrightarrow>
       (\<exists>f k. (k, a) \<in> set (merged_files files err ks f) \<and>
          name = (if length (merged_files files err ks f) = 1 then f else f @ ''{:'' @ k @ '':}''))
       \<or> merged_dir files err ks name None = Some a) \<and>
    (if \<forall>k \<in> set ks. neg_err (err k) then e = word_of_int (- ENOTDIR) else \<not> neg_err e)"
proof -
  let ?m = "connections st"
  have reach: "\<forall>(k, c) \<in> set ?m. reachable_dir p file c (rm k) (files k) (err k)"
    using assms(5) by auto
  obtain request reply c' s' where asked: "\<forall>(k, c) \<in> set ?m.
      asked p file c (rm k) (files k) (err k) (request k) (reply k) (c' k) (s' k)"
    using all_asked [OF assms(1) reach assms(4)] by blast
  let ?st = "st\<lparr>connections := arrived reply ?m\<rparr>"
  have keys: "map fst (connections ?st) = ks" using assms(6) by (simp add: arrived_keys)
  have ok: "map_ok (connections ?st)"
    using assms(1) map_ok_keys [of "connections ?st" ?m] assms(6) keys by simp
  have none: "map_find (connections ?st) server = None" using assms(3) by (simp add: arrived_find)
  have lists: "lists p file (connections ?st) files err" using asked_lists [OF asked reach] by simp
  have plain: "\<forall>k \<in> fst ` set (connections ?st). NUL \<notin> set k"
  proof -
    have "\<forall>k \<in> fst ` set ?m. NUL \<notin> set k" using assms(5) by auto
    moreover have "fst ` set (connections ?st) = fst ` set ?m"
      using keys assms(6) by (metis set_map)
    ultimately show ?thesis by simp
  qed
  obtain e entries st' where r: "agfs_readdir p path ?st = Some ((int_of_err e, entries), st')"
    and merge: "\<forall>name a. (name, Some a) \<in> set entries \<longleftrightarrow>
       (\<exists>f k. (k, a) \<in> set (merged_files files err ks f) \<and>
          name = (if length (merged_files files err ks f) = 1 then f else f @ ''{:'' @ k @ '':}''))
       \<or> merged_dir files err ks name None = Some a"
    and e: "if \<forall>k \<in> set ks. neg_err (err k) then e = word_of_int (- ENOTDIR) else \<not> neg_err e"
    using merged_listing [OF ok assms(2) none lists plain keys [symmetric]] by blast
  have "the (map_find (connections st') k) = c' k" if "(k, c) \<in> set ?m" for k c
  proof -
    have "map_find ?m k = Some c" using that map_find_sorted [OF assms(1)] by blast
    moreover have "readdir p file (c\<lparr>rx := rx_push (reply k) (rx c)\<rparr>) = Some ((files k, err k), c' k)"
      using asked that by (fastforce simp: asked_def)
    ultimately show ?thesis
      unfolding agfs_readdir_connections [OF r assms(2) none] map_find_snd
      by (simp add: arrived_find)
  qed
  then have "\<forall>(k, c) \<in> set ?m. asked p file c (rm k) (files k) (err k) (request k) (reply k)
      (the (map_find (connections st') k)) (s' k)"
    using asked by fastforce
  then show ?thesis using r merge e by blast
qed

text \<open>A mount of two servers with the same directory.\<close>

definition two_servers :: fuse where
  "two_servers = \<lparr>connections = [(''h1'', open_client), (''h2'', open_client)], handles = []\<rparr>"

definition example_remote :: "(byte list \<times> nat) remote" where
  "example_remote = \<lparr>rm_os = file_os, rm_plat = ppc, rm_process = file_server\<rparr>"

definition example_stat :: stat where
  "example_stat = zero_stat\<lparr>st_size := 4, st_mode := 0x81A4\<rparr>"

lemma example_reachable:
  "reachable_dir x86 ''/'' open_client example_remote [(''f'', example_stat)] 0"
proof -
  have "dir_listing file_os ''/'' file_server = Some ([(''f'', example_stat)], 0)"
    by (simp add: dir_listing_def list_dir_def entry_view_def stat_view_def example_stat_def zero_stat_def)
  moreover have "listing_ok x86 [(''f'', example_stat)]"
    by (simp add: listing_ok_def string_ok_def NUL_def MAX_RW_def)
  ultimately show ?thesis
    by (simp add: reachable_dir_def example_remote_def)
qed

theorem servers_merged_witness:
  "\<exists>reply e entries st'.
     agfs_readdir x86 ''/'' (two_servers\<lparr>connections := arrived reply (connections two_servers)\<rparr>) =
       Some ((int_of_err e, entries), st') \<and>
     (''f{:h2:}'', Some example_stat) \<in> set entries \<and> \<not> neg_err e"
proof -
  let ?files = "\<lambda>k :: string. [(''f'', example_stat)]" and ?err = "\<lambda>k :: string. 0 :: agerr_t"
  let ?merged = "merged_files ?files ?err [''h1'', ''h2'']"
  have conns: "map_ok (connections two_servers)" "map_find (connections two_servers) '''' = None"
    "map fst (connections two_servers) = [''h1'', ''h2'']"
    by (simp_all add: two_servers_def map_ok_def)
  have path: "ambiguate (c_string ''/'') = Some ('''', ''/'')"
    by (simp add: c_string_def NUL_def ambiguate_def BEGIN_BRACE_def END_BRACE_def)
  have reach: "\<forall>(k, c) \<in> set (connections two_servers). NUL \<notin> set k \<and>
      reachable_dir x86 ''/'' c example_remote [(''f'', example_stat)] 0"
    using example_reachable by (simp add: two_servers_def NUL_def)
  have files: "?merged ''f'' = [(''h1'', example_stat), (''h2'', example_stat)]"
    by (simp add: merged_files_def listed_files_def is_dir_entry_def S_ISDIR_def example_stat_def)
  from servers_merged [OF conns(1) path conns(2) example_path(4) reach conns(3) [symmetric]]
  obtain reply e entries st' where
    r: "agfs_readdir x86 ''/'' (two_servers\<lparr>connections := arrived reply (connections two_servers)\<rparr>) =
       Some ((int_of_err e, entries), st')"
    and mem: "\<forall>name a. (name, Some a) \<in> set entries \<longleftrightarrow>
       (\<exists>f k. (k, a) \<in> set (?merged f) \<and> name = (if length (?merged f) = 1 then f else f @ ''{:'' @ k @ '':}''))
       \<or> merged_dir ?files ?err [''h1'', ''h2''] name None = Some a"
    and e: "if \<forall>k \<in> set [''h1'', ''h2'']. neg_err 0 then e = word_of_int (- ENOTDIR) else \<not> neg_err e"
    by (elim exE conjE) (rule that)
  have "\<exists>k \<in> set [''h1'', ''h2'']. \<not> neg_err 0" by (rule bexI [of _ "''h1''"]) simp_all
  then have "\<not> neg_err e" using e by (metis (mono_tags))
  moreover have "(''f{:h2:}'', Some example_stat) \<in> set entries"
    by (subst mem [rule_format], intro disjI1 exI [of _ "''f''"] exI [of _ "''h2''"]) (simp add: files)
  ultimately show ?thesis using r by blast
qed

end
