(* ===== verification/Mount.thy ===== *)
theory Mount
  imports AgfsFuse StdStream
begin

text \<open>
  The life of a mounted file system: the connections that \<^verbatim>\<open>main\<close> of \<^verbatim>\<open>agfs.cpp\<close> makes
  from the key files, and what happens to them while the file operations, the heartbeat
  threads (one per connection) and at last \<^verbatim>\<open>destroy\<close> act on them in any order.

  A thread is where its loop stands: before the test, or after one of the two sleeps. Each
  method of a connection is one step, as the mutex of the object makes it.
\<close>

section \<open>Starting\<close>

text \<open>
  An entry of the key directory: its path, whether it is a regular file, what it contains if
  it can be opened, and the network that the connection attempt meets.
\<close>

record dir_entry =
  de_path :: string
  de_regular :: bool
  de_content :: "string option"
  de_network :: network

definition EXTENSION :: string where
  "EXTENSION = ''.agkey''"

definition read_keyfile :: "string \<Rightarrow> string \<times> string \<times> string" where
  "read_keyfile content =
     (let keyfile = open_istream (Some content);
          (keyfile, hostname) = stream_get keyfile '''';
          (keyfile, port) = stream_get keyfile '''';
          (keyfile, key) = stream_get keyfile ''''
      in (hostname, port, key))"

text \<open>\<open>extension\<close> is the function of Boost that returns the extension of a path.\<close>

fun load_keyfiles ::
  "plat \<Rightarrow> (string \<Rightarrow> string) \<Rightarrow> dir_entry list \<Rightarrow> connection_map \<Rightarrow> connection_map" where
  "load_keyfiles p extension [] conns = conns"
| "load_keyfiles p extension (itr # itrs) conns =
     (let conns =
        (if de_regular itr \<and> extension (de_path itr) = EXTENSION then
           (case de_content itr of
              None \<Rightarrow> conns
            | Some content \<Rightarrow>
                (let (hostname, port, key) = read_keyfile content;
                     connection = new_server_connection p (de_network itr) hostname port key
                 in if connected connection \<and> \<not> stopped connection
                    then map_insert hostname (copy_connection connection) conns else conns))
         else conns)
      in load_keyfiles p extension itrs conns)"

datatype thread_pc = Check | Reconnect | Beat | Finished

record mount = fuse +
  heartbeatThreads :: "(string \<times> thread_pc) list"
  unmounted :: bool

text \<open>The state in which \<^verbatim>\<open>main\<close> enters the loop of FUSE.\<close>

definition agfs_main :: "plat \<Rightarrow> (string \<Rightarrow> string) \<Rightarrow> dir_entry list \<Rightarrow> mount" where
  "agfs_main p extension keydir =
     (let conns = load_keyfiles p extension keydir []
      in \<lparr>connections = conns, handles = [],
          heartbeatThreads = map (\<lambda>(hostname, c). (hostname, Check)) conns, unmounted = False\<rparr>)"

text \<open>
  \<open>homeDir\<close> is what is in \<^verbatim>\<open>~/.agfs\<close>, \<open>None\<close> when there is no such directory: then the
  program ends with the status 1.
\<close>

definition agfs_start ::
  "plat \<Rightarrow> (string \<Rightarrow> string) \<Rightarrow> dir_entry list option \<Rightarrow> int + mount" where
  "agfs_start p extension homeDir =
     (case homeDir of None \<Rightarrow> Inl 1 | Some keydir \<Rightarrow> Inr (agfs_main p extension keydir))"

section \<open>The threads\<close>

text \<open>
  One step of \<^verbatim>\<open>heartbeatThread\<close> on the connection \<open>c\<close>; a connection attempt meets the
  network \<open>net\<close>.
\<close>

fun thread_step ::
  "plat \<Rightarrow> network \<Rightarrow> thread_pc \<Rightarrow> server_connection \<Rightarrow> thread_pc \<times> server_connection" where
  "thread_step p net Check c =
     (if closed c then (Finished, c) else if \<not> connected c then (Reconnect, c) else (Beat, c))"
| "thread_step p net Reconnect c = (Check, connect p net c)"
| "thread_step p net Beat c = (Check, snd (heartbeat p c))"
| "thread_step p net Finished c = (Finished, c)"

text \<open>
  The steps of the whole: a file operation, a step of the thread of a host, the stops of
  \<^verbatim>\<open>destroy\<close>, after which there are no more file operations.
\<close>

inductive mount_step :: "plat \<Rightarrow> mount \<Rightarrow> mount \<Rightarrow> bool" for p where
  getattrop: "\<not> unmounted st \<Longrightarrow> agfs_getattr p path st = Some (r1, st') \<Longrightarrow> mount_step p st st'"
| accessop: "\<not> unmounted st \<Longrightarrow> agfs_access p path a st = Some (r2, st') \<Longrightarrow> mount_step p st st'"
| readdirop: "\<not> unmounted st \<Longrightarrow> agfs_readdir p path st = Some (r3, st') \<Longrightarrow> mount_step p st st'"
| readop: "\<not> unmounted st \<Longrightarrow> agfs_read p buf off fh st = Some (r4, st') \<Longrightarrow> mount_step p st st'"
| writeop: "\<not> unmounted st \<Longrightarrow> agfs_write p buf off fh st = Some (r5, st') \<Longrightarrow> mount_step p st st'"
| openop: "\<not> unmounted st \<Longrightarrow> agfs_open p path flags fh st = Some (r6, st') \<Longrightarrow> mount_step p st st'"
| releaseop: "\<not> unmounted st \<Longrightarrow> agfs_release fh st = Some (r7, st') \<Longrightarrow> mount_step p st st'"
| destroy: "\<not> unmounted st \<Longrightarrow> mount_step p st ((agfs_destroy p st)\<lparr>unmounted := True\<rparr>)"
| thread: "network_ok net \<Longrightarrow> map_find (heartbeatThreads st) host = Some pc \<Longrightarrow>
     map_find (connections st) host = Some c \<Longrightarrow> thread_step p net pc c = (pc', c') \<Longrightarrow>
     mount_step p st (st\<lparr>connections := map_put host c' (connections st),
       heartbeatThreads := map_put host pc' (heartbeatThreads st)\<rparr>)"

inductive mounted :: "plat \<Rightarrow> mount \<Rightarrow> mount \<Rightarrow> bool" for p st0 where
  start: "mounted p st0 st0"
| more: "mounted p st0 st \<Longrightarrow> mount_step p st st' \<Longrightarrow> mounted p st0 st'"

inductive_cases mount_stepE: "mount_step p st st'"

section \<open>The invariant\<close>

text \<open>
  The table is in order, every connection has its thread, and a thread that is about to
  reconnect has no connection to lose. After \<^verbatim>\<open>destroy\<close> every connection is marked closed.
\<close>

definition mount_ok :: "mount \<Rightarrow> bool" where
  "mount_ok st \<longleftrightarrow> table_ok (connections st) \<and>
     map fst (heartbeatThreads st) = map fst (connections st) \<and>
     (\<forall>host c. map_find (heartbeatThreads st) host = Some Reconnect \<longrightarrow>
        map_find (connections st) host = Some c \<longrightarrow> \<not> connected c) \<and>
     (unmounted st \<longrightarrow> (\<forall>host c. map_find (connections st) host = Some c \<longrightarrow> closed c))"

text \<open>The file operations do not touch what is not theirs.\<close>

lemma more_ops:
  "agfs_getattr p path st = Some (r1, st') \<Longrightarrow> fuse.more st' = fuse.more st"
  "agfs_access p path a st = Some (r2, st') \<Longrightarrow> fuse.more st' = fuse.more st"
  "agfs_readdir p path st = Some (r3, st') \<Longrightarrow> fuse.more st' = fuse.more st"
  "agfs_read p buf off fh st = Some (r4, st') \<Longrightarrow> fuse.more st' = fuse.more st"
  "agfs_write p buf off fh st = Some (r5, st') \<Longrightarrow> fuse.more st' = fuse.more st"
  "agfs_release fh st = Some (r7, st') \<Longrightarrow> fuse.more st' = fuse.more st"
  by (auto simp: agfs_getattr_def agfs_access_def agfs_readdir_def agfs_read_def agfs_write_def
        agfs_release_def bind_eq_Some_conv split_beta Let_def split: option.splits if_splits)

lemma more_open_on: "fuse.more (snd (open_on p server file flags fh st)) = fuse.more st"
  by (auto simp: open_on_def new_handle_def split_beta Let_def split: option.splits)

lemma more_open:
  assumes "agfs_open p path flags fh st = Some (r, st')"
  shows "fuse.more st' = fuse.more st"
proof -
  have "fuse.more (snd (checkExistance p path st)) = fuse.more st"
    by (simp add: checkExistance_def split_beta)
  moreover obtain server f where "ambiguate (c_string path) = Some (server, f)"
    using ambiguate_returns by (metis option.exhaust prod.exhaust)
  moreover have "st' = snd (checkExistance p path st) \<or>
      (\<exists>s. st' = snd (open_on p s f flags fh (snd (checkExistance p path st)))) \<or>
      st' = snd (open_on p server f flags fh st)"
    using assms calculation(2) by (auto simp: agfs_open_def split_beta Let_def split: if_splits) (metis snd_conv)+
  ultimately show ?thesis
    by (auto simp: more_open_on)
qed

lemma served_mount_ok:
  assumes "mount_ok st" and "\<not> unmounted st" and "served (connections st) (connections st')"
    and "fuse.more st' = fuse.more st"
  shows "mount_ok st'"
proof -
  have same: "heartbeatThreads st' = heartbeatThreads st" "unmounted st' = unmounted st"
    using assms(4) by (cases st; cases st'; simp)+
  have "\<not> connected c"
    if t: "map_find (heartbeatThreads st) host = Some Reconnect"
      and c: "map_find (connections st') host = Some c" for host c
  proof -
    obtain c0 where c0: "map_find (connections st) host = Some c0"
      using served_find [OF assms(3), of host] c by (auto elim: option.rel_cases)
    then show ?thesis
      using served_connected(1) [OF assms(3), of host] c assms(1) t by (auto simp: mount_ok_def)
  qed
  then show ?thesis
    using assms(1,2) same served_table_ok [OF assms(3)] served_keys [OF assms(3)]
    by (simp add: mount_ok_def)
qed

lemma connect_members:
  "sc_hostname (connect p net c) = sc_hostname c" "sc_closed (connect p net c) = sc_closed c"
  "sc_connectionStopped (connect p net c) = sc_connectionStopped c"
proof -
  let ?same = "\<lambda>c' c1 :: server_connection. sc_hostname c' = sc_hostname c1 \<and> sc_closed c' = sc_closed c1 \<and>
      sc_connectionStopped c' = sc_connectionStopped c1"
  have lookup: "?same (snd (dnsLookup net c)) c"
    by (simp add: dnsLookup_def Let_def)
  have close: "?same (snd (close_socket c1)) c1" for c1
    by (simp add: close_socket_def sys_close_def)
  have io: "?same (snd (agfs_read_cmd p fd x (snd (agfs_write_string p fd' str c1)))) c1"
    for fd x fd' str c1
    by (intro conjI io_frame_members io_frame_trans [OF io_frame_write_string io_frame_read_int(1)])
  show "sc_hostname (connect p net c) = sc_hostname c" "sc_closed (connect p net c) = sc_closed c"
    "sc_connectionStopped (connect p net c) = sc_connectionStopped c"
    using lookup by (auto simp: connect_def Let_def split_beta close io)
qed

lemma heartbeat_members:
  "sc_hostname (snd (heartbeat p c)) = sc_hostname c" "sc_closed (snd (heartbeat p c)) = sc_closed c"
proof -
  define c1 where "c1 = snd (agfs_write_cmd p (socket c) cmd_HEARTBEAT c)"
  obtain r resp c2 where r: "agfs_read_cmd p (socket c) cmd_NONE c1 = ((r, resp), c2)"
    by (metis prod.exhaust)
  have "io_frame c c1" and "io_frame c1 c2"
    using r io_frame_read_int(1) [of c1 p "socket c" cmd_NONE] by (simp_all add: c1_def io_frame_write_int)
  then have "io_frame c c2" by (rule io_frame_trans)
  note same = io_frame_members [OF this]
  have "heartbeat p c = (0, if resp = cmd_NONE then snd (close_socket c2) else c2)"
    using heartbeat_read [of p c r resp c2] r by (simp add: c1_def)
  then show "sc_hostname (snd (heartbeat p c)) = sc_hostname c" "sc_closed (snd (heartbeat p c)) = sc_closed c"
    using same by (auto simp: close_socket_def sys_close_def)
qed

lemma thread_step_keeps:
  assumes "network_ok net" and "thread_step p net pc c = (pc', c')" and "conn_ok c"
    and "pc = Reconnect \<longrightarrow> \<not> connected c"
  shows "conn_ok c'" "sc_hostname c' = sc_hostname c" "closed c' = closed c"
    "pc' = Reconnect \<longrightarrow> \<not> connected c'"
  using assms connect_conn_ok [OF assms(1)] heartbeat_conn_ok connect_members heartbeat_members
  by (cases pc; auto simp: closed_def split: if_splits)+

lemma thread_step_mount_ok:
  assumes "mount_ok st" and "network_ok net" and "map_find (heartbeatThreads st) host = Some pc"
    and "map_find (connections st) host = Some c" and "thread_step p net pc c = (pc', c')"
  shows "mount_ok (st\<lparr>connections := map_put host c' (connections st),
       heartbeatThreads := map_put host pc' (heartbeatThreads st)\<rparr>)"
proof -
  have ok: "map_ok (connections st)" "conn_ok c" "sc_hostname c = host"
    using assms(1,4) by (auto simp: mount_ok_def table_ok_def dest!: map_find_in)
  have threads: "map_ok (heartbeatThreads st)"
    using assms(1) ok(1) map_ok_keys by (metis mount_ok_def)
  have keep: "conn_ok c'" "sc_hostname c' = host" "closed c' = closed c" "pc' = Reconnect \<longrightarrow> \<not> connected c'"
    using thread_step_keeps [OF assms(2,5) ok(2)] ok(3) assms(1,3,4) by (auto simp: mount_ok_def)
  have "table_ok (map_put host c' (connections st))"
  proof -
    have "conn_ok d \<and> sc_hostname d = k" if "(k, d) \<in> set (map_put host c' (connections st))" for k d
    proof -
      have "map_find (map_put host c' (connections st)) k = Some d"
        using that map_ok_put [OF ok(1)] by (simp add: map_find_sorted)
      then show ?thesis
        using keep assms(1) by (auto simp: map_find_put mount_ok_def table_ok_def split: if_splits dest!: map_find_in)
    qed
    then show ?thesis using map_ok_put [OF ok(1)] by (auto simp: table_ok_def)
  qed
  moreover have "map fst (map_put host pc' (heartbeatThreads st)) = map fst (map_put host c' (connections st))"
  proof -
    have "host \<in> fst ` set (connections st)" "host \<in> fst ` set (heartbeatThreads st)"
      using map_find_in [OF assms(3)] map_find_in [OF assms(4)] by (force intro: rev_image_eqI)+
    then show ?thesis
      using map_put_keys [OF ok(1), of host c'] map_put_keys [OF threads, of host pc'] assms(1)
      by (simp add: mount_ok_def)
  qed
  moreover have "closed c' \<or> \<not> unmounted st"
    using assms(1,4) keep(3) by (auto simp: mount_ok_def)
  ultimately show ?thesis
    using assms(1) keep by (auto simp: mount_ok_def map_find_put)
qed

lemma mount_step_ok:
  assumes "mount_step p st st'" and "mount_ok st"
  shows "mount_ok st'"
proof -
  have ok: "map_ok (connections st)" using assms(2) by (simp add: mount_ok_def table_ok_def)
  show ?thesis
    using assms(1)
  proof (cases rule: mount_step.cases)
    case destroy
    have "\<not> connected c" "closed c" if "map_find (connections (agfs_destroy p st)) host = Some c" for host c
      using that destroy_table_ok(2) [of st p] assms(2) by (auto simp: mount_ok_def dest!: map_find_in)
    moreover have "map fst (connections (agfs_destroy p st)) = map fst (connections st)"
      by (simp add: agfs_destroy_def comp_def split_beta)
    moreover have "heartbeatThreads (agfs_destroy p st) = heartbeatThreads st"
      by (simp add: agfs_destroy_def)
    ultimately show ?thesis
      using destroy assms(2) destroy_table_ok(1) [of st p] by (simp add: mount_ok_def)
  next
    case thread
    then show ?thesis using thread_step_mount_ok [OF assms(2)] by simp
  next
    case releaseop
    then show ?thesis
      using served_mount_ok [OF assms(2), of st'] more_ops(6) [of _ st _ st'] served_agfs_release [of _ st _ st']
      by simp
  qed (rule served_mount_ok [OF assms(2)], assumption, erule served_ops [OF _ ok],
       erule more_ops more_open)+
qed

lemma mounted_ok: "mounted p st0 st \<Longrightarrow> mount_ok st0 \<Longrightarrow> mount_ok st"
  by (induction rule: mounted.induct) (auto intro: mount_step_ok)

section \<open>From the key files\<close>

text \<open>A key file as \<^verbatim>\<open>agfs-keygen\<close> writes it: three lines.\<close>

lemma read_keyfile_lines:
  assumes "word_ok host" and "word_ok port" and "word_ok key"
  shows "read_keyfile (host @ CHR 0x0A # port @ CHR 0x0A # key @ CHR 0x0A # rest) = (host, port, key)"
proof -
  have nl: "is_space (CHR 0x0A)" by (simp add: is_space_def)
  have 1: "stream_get (open_istream (Some (host @ CHR 0x0A # port @ CHR 0x0A # key @ CHR 0x0A # rest))) '''' =
      (\<lparr>is_rest = CHR 0x0A # port @ CHR 0x0A # key @ CHR 0x0A # rest, is_eof = False, is_fail = False\<rparr>, host)"
    using stream_get_word [OF assms(1) nl, of "[]"] by (simp add: open_istream_def)
  have 2: "stream_get \<lparr>is_rest = CHR 0x0A # port @ CHR 0x0A # key @ CHR 0x0A # rest, is_eof = False, is_fail = False\<rparr> '''' =
      (\<lparr>is_rest = CHR 0x0A # key @ CHR 0x0A # rest, is_eof = False, is_fail = False\<rparr>, port)"
    using stream_get_word [OF assms(2) nl, of "[CHR 0x0A]"] nl by simp
  have 3: "stream_get \<lparr>is_rest = CHR 0x0A # key @ CHR 0x0A # rest, is_eof = False, is_fail = False\<rparr> '''' =
      (\<lparr>is_rest = CHR 0x0A # rest, is_eof = False, is_fail = False\<rparr>, key)"
    using stream_get_word [OF assms(3) nl, of "[CHR 0x0A]"] nl by simp
  show ?thesis by (simp add: read_keyfile_def 1 2 3)
qed

lemma new_connection_ok:
  assumes "network_ok net"
  shows "conn_ok (new_server_connection p net host port key)"
    and "sc_hostname (new_server_connection p net host port key) = host"
  unfolding new_server_connection_def
  by (rule connect_conn_ok [OF assms]) (simp_all add: conn_ok_def connected_def connect_members)

definition all_connected :: "connection_map \<Rightarrow> bool" where
  "all_connected m \<longleftrightarrow> (\<forall>(k, c) \<in> set m. connected c)"

lemma insert_connection:
  assumes "table_ok m" and "all_connected m" and "conn_ok c" and "sc_hostname c = k" and "connected c"
  shows "table_ok (map_insert k c m)" and "all_connected (map_insert k c m)"
proof -
  have ok: "map_ok m" using assms(1) by (simp add: table_ok_def)
  have "conn_ok d \<and> sc_hostname d = k' \<and> connected d" if "(k', d) \<in> set (map_insert k c m)" for k' d
  proof -
    have "map_find (map_insert k c m) k' = Some d"
      using that map_ok_insert [OF ok] by (simp add: map_find_sorted)
    then show ?thesis
      using assms by (auto simp: map_find_insert table_ok_def all_connected_def split: if_splits dest!: map_find_in)
  qed
  then show "table_ok (map_insert k c m)" and "all_connected (map_insert k c m)"
    using map_ok_insert [OF ok] by (auto simp: table_ok_def all_connected_def)
qed

lemma load_keyfiles_ok:
  assumes "\<forall>e \<in> set keydir. network_ok (de_network e)" and "table_ok conns" and "all_connected conns"
  shows "table_ok (load_keyfiles p extension keydir conns) \<and>
         all_connected (load_keyfiles p extension keydir conns)"
  using assms
proof (induction keydir arbitrary: conns)
  case (Cons e keydir)
  define conns' where "conns' = (if de_regular e \<and> extension (de_path e) = EXTENSION then
           (case de_content e of
              None \<Rightarrow> conns
            | Some content \<Rightarrow>
                (let (hostname, port, key) = read_keyfile content;
                     connection = new_server_connection p (de_network e) hostname port key
                 in if connected connection \<and> \<not> stopped connection
                    then map_insert hostname (copy_connection connection) conns else conns))
         else conns)"
  have "table_ok conns' \<and> all_connected conns'"
    using Cons.prems new_connection_ok [of "de_network e" p]
    by (auto simp: conns'_def Let_def insert_connection split: option.split prod.split)
  then show ?case
    using Cons.IH [of conns'] Cons.prems(1) by (simp add: conns'_def)
qed simp

lemma main_ok:
  assumes "\<forall>e \<in> set keydir. network_ok (de_network e)"
  shows "mount_ok (agfs_main p extension keydir)"
proof -
  have "table_ok (load_keyfiles p extension keydir [])"
    using load_keyfiles_ok [OF assms, of "[]"] by (simp add: table_ok_def all_connected_def)
  moreover have "map_find (map (\<lambda>(h, c). (h, Check)) m) host \<noteq> Some Reconnect"
    for m :: connection_map and host
    by (induction m host rule: map_find.induct) auto
  ultimately show ?thesis
    by (simp add: mount_ok_def agfs_main_def Let_def comp_def split_beta)
qed

section \<open>After destroy\<close>

text \<open>A thread whose connection is closed ends with its next two steps.\<close>

lemma thread_finishes:
  assumes "closed c" and "pc' = fst (thread_step p net pc c)" and "c' = snd (thread_step p net pc c)"
  shows "closed c'" and "fst (thread_step p net' pc' c') = Finished"
  using assms connect_members heartbeat_members
  by (cases pc; auto simp: closed_def split: if_splits)+

text \<open>
  But a thread that has tested the flag before it was set still connects once more, and nobody
  closes that connection.
\<close>

lemma reconnect_after_destroy:
  assumes "mount_ok st" and "\<not> unmounted st"
    and "map_find (heartbeatThreads st) host = Some Reconnect"
    and "map_find (connections st) host = Some c"
    and "network_ok net" and "d = net (sc_hostname c) (sc_port c)"
    and "dial_getaddrinfo d = 0" and "dial_socket d \<noteq> - 1" and "dial_connect d \<noteq> - 1"
    and "dial_wx d = []" and "dial_rx d = rx_push (be_bytes cmd_ACCEPT) evs"
    and "length (sc_key c) \<le> MAX_RW"
  shows "\<exists>st1 st2 c'. mount_step p st st1 \<and> unmounted st1 \<and> mount_step p st1 st2 \<and>
           map_find (connections st2) host = Some c' \<and> closed c' \<and> connected c'"
proof -
  let ?st1 = "(agfs_destroy p st)\<lparr>unmounted := True\<rparr>"
  let ?c1 = "snd (stop p c)"
  have c: "conn_ok c" using assms(1,4) by (auto simp: mount_ok_def table_ok_def dest!: map_find_in)
  have "\<not> connected c" using assms(1,3,4) by (simp add: mount_ok_def)
  then have c1: "?c1 = c\<lparr>sc_closed := True\<rparr>" by (simp add: stop_def)
  have 1: "mount_step p st ?st1" using assms(2) by (rule mount_step.destroy)
  have find: "map_find (connections ?st1) host = Some ?c1" "map_find (heartbeatThreads ?st1) host = Some Reconnect"
    using assms(3,4) destroy_find [of p st host] by (simp_all add: agfs_destroy_def)
  have 2: "mount_step p ?st1 (?st1\<lparr>connections := map_put host (connect p net ?c1) (connections ?st1),
      heartbeatThreads := map_put host Check (heartbeatThreads ?st1)\<rparr>)"
    using assms(5) find by (intro mount_step.thread [where pc = Reconnect and c = ?c1]) simp_all
  have "connected (connect p net ?c1)"
    using connect_answered(1) [OF assms(5), of d ?c1 cmd_ACCEPT evs p] assms(6-12) c1 by simp
  moreover have "closed (connect p net ?c1)"
    using c1 by (simp add: closed_def connect_members)
  ultimately show ?thesis
    using 1 2 by (intro exI conjI) (assumption | simp add: map_find_put)+
qed

end
