(* ===== verification/Aggregate.thy ===== *)
theory Aggregate
  imports StoreHistory MergedView Mount
begin

text \<open>
  The whole system: the mounted file system with its connections, handles and threads, and one
  process for each server. For names of files, with or without a tag, it is one store that
  aggregates the stores of the servers: a name without a tag is the file of the only server
  that has it, a tagged name the file of its server.
\<close>

section \<open>The aggregate\<close>

datatype name = Plain string | Tagged string string

text \<open>\<open>Tagged f k\<close> is the file \<open>f\<close> of the server \<open>k\<close>, as a listing names it.\<close>

fun name_path :: "name \<Rightarrow> string" where
  "name_path (Plain f) = f"
| "name_path (Tagged f k) = listed_name f k"

fun name_file :: "name \<Rightarrow> string" where
  "name_file (Plain f) = f"
| "name_file (Tagged f k) = f"

record aggregate =
  ag_files :: "string \<Rightarrow> store"
  ag_handles :: "file_handle option list"

datatype fs_call =
    Open_call name agmask_t
  | Read_call nat "byte list" agsize_t
  | Write_call nat "byte list" agsize_t
  | Release_call nat
  | Getattr_call name
  | Access_call name
  | Thread_call string

datatype fs_result =
    Opened int nat
  | Got int "byte list"
  | Result int
  | Attr int "64 word"
  | Ticked

abbreviation has :: "(string \<Rightarrow> store) \<Rightarrow> string \<Rightarrow> string \<Rightarrow> bool" where
  "has F f k \<equiv> F k f \<noteq> None"

text \<open>The server on which a name is opened.\<close>

fun target :: "string list \<Rightarrow> (string \<Rightarrow> store) \<Rightarrow> name \<Rightarrow> string option" where
  "target hosts F (Plain f) = (case filter (has F f) hosts of [k] \<Rightarrow> Some k | _ \<Rightarrow> None)"
| "target hosts F (Tagged f k) = (if k \<in> set hosts \<and> has F f k then Some k else None)"

text \<open>The servers that are asked about a name, in this order, until one has it.\<close>

fun candidates :: "string list \<Rightarrow> name \<Rightarrow> string list" where
  "candidates hosts (Plain f) = hosts"
| "candidates hosts (Tagged f k) = (if k \<in> set hosts then [k] else hosts)"

definition ag_handle :: "aggregate \<Rightarrow> nat \<Rightarrow> file_handle option" where
  "ag_handle ag fh = (if fh = 0 \<or> length (ag_handles ag) < fh then None else ag_handles ag ! (fh - 1))"

definition ag_content :: "aggregate \<Rightarrow> file_handle \<Rightarrow> byte list" where
  "ag_content ag h = the (ag_files ag (fh_server h) (fh_file h))"

definition put_content :: "file_handle \<Rightarrow> byte list \<Rightarrow> aggregate \<Rightarrow> aggregate" where
  "put_content h bs ag = ag\<lparr>ag_files := (ag_files ag)(fh_server h := (ag_files ag (fh_server h))(fh_file h := Some bs))\<rparr>"

text \<open>
  The calls on the aggregate. Without any server, every name is found, with the size 0:
  this is what the code does.
\<close>

fun aggregate_do :: "string list \<Rightarrow> fs_call \<Rightarrow> aggregate \<Rightarrow> fs_result \<times> aggregate" where
  "aggregate_do hosts (Open_call n m) ag =
     (case target hosts (ag_files ag) n of
        None \<Rightarrow> (Opened (- ENOENT) 0, ag)
      | Some k \<Rightarrow> (Opened 0 (Suc (length (ag_handles ag))),
          ag\<lparr>ag_handles := ag_handles ag @ [Some \<lparr>fh_server = k, fh_file = name_file n\<rparr>]\<rparr>))"
| "aggregate_do hosts (Read_call fh buf off) ag =
     (let d = take (length buf) (drop (unat off) (ag_content ag (the (ag_handle ag fh))))
      in (Got (int (length d)) (d @ drop (length d) buf), ag))"
| "aggregate_do hosts (Write_call fh buf off) ag =
     (let h = the (ag_handle ag fh)
      in (Result (int (length buf)), put_content h (put_at (unat off) buf (ag_content ag h)) ag))"
| "aggregate_do hosts (Release_call fh) ag =
     (Result 0, if fh = 0 then ag else ag\<lparr>ag_handles := (ag_handles ag)[fh - 1 := None]\<rparr>)"
| "aggregate_do hosts (Getattr_call n) ag =
     ((case find (has (ag_files ag) (name_file n)) (candidates hosts n) of
         Some k \<Rightarrow> Attr 0 (word_of_nat (length (the (ag_files ag k (name_file n)))))
       | None \<Rightarrow> Attr (if hosts = [] then 0 else - ENOENT) 0), ag)"
| "aggregate_do hosts (Access_call n) ag =
     (Result (if hosts = [] \<or> (\<exists>k \<in> set (candidates hosts n). has (ag_files ag) (name_file n) k) then 0 else -1), ag)"
| "aggregate_do hosts (Thread_call k) ag = (Ticked, ag)"

text \<open>
  Which calls are meant: the name can be transferred and taken apart again, handles are used
  between \<^verbatim>\<open>open\<close> and \<^verbatim>\<open>release\<close>, and data fit into memory.
\<close>

fun name_ok :: "(string \<Rightarrow> plat) \<Rightarrow> string list \<Rightarrow> string set \<Rightarrow> name \<Rightarrow> bool" where
  "name_ok q hosts names n \<longleftrightarrow>
     name_file n \<in> names \<and> clean_name (name_file n) \<and> path_ok (name_file n) \<and>
     (\<forall>k \<in> set hosts. string_ok (q k) (name_file n)) \<and>
     (case n of Plain f \<Rightarrow> True
      | Tagged f k \<Rightarrow> clean_server k \<and> k \<noteq> [] \<and> NUL \<notin> set k \<and> length f + length k + 4 < 2 ^ 64)"

declare name_ok.simps [simp del]

fun fs_ok :: "plat \<Rightarrow> (string \<Rightarrow> plat) \<Rightarrow> string list \<Rightarrow> string set \<Rightarrow> fs_call \<Rightarrow> aggregate \<Rightarrow> bool" where
  "fs_ok p q hosts names (Open_call n m) ag \<longleftrightarrow> name_ok q hosts names n \<and> plain_mode m"
| "fs_ok p q hosts names (Read_call fh buf off) ag \<longleftrightarrow>
     ag_handle ag fh \<noteq> None \<and> unat off < 2 ^ 63 \<and> length buf \<le> MAX_RW \<and>
     (\<forall>n \<le> length buf. alloc_ok p n \<and> (\<forall>k \<in> set hosts. alloc_ok (q k) n))"
| "fs_ok p q hosts names (Write_call fh buf off) ag \<longleftrightarrow>
     ag_handle ag fh \<noteq> None \<and> unat off < 2 ^ 63 \<and> length buf < 2 ^ 31 \<and> buf \<noteq> [] \<and>
     (\<forall>k \<in> set hosts. alloc_ok (q k) (length buf))"
| "fs_ok p q hosts names (Release_call fh) ag \<longleftrightarrow> fh = 0 \<or> ag_handle ag fh \<noteq> None"
| "fs_ok p q hosts names (Getattr_call n) ag \<longleftrightarrow> name_ok q hosts names n"
| "fs_ok p q hosts names (Access_call n) ag \<longleftrightarrow> name_ok q hosts names n"
| "fs_ok p q hosts names (Thread_call k) ag \<longleftrightarrow> k \<in> set hosts"

section \<open>The calls of the program\<close>

text \<open>
  \<^verbatim>\<open>fi->fh\<close> is 0 before \<^verbatim>\<open>open\<close>. A heartbeat thread makes one step; \<open>net\<close> is the network
  that it would meet if it had to connect.
\<close>

definition thread_op :: "plat \<Rightarrow> network \<Rightarrow> string \<Rightarrow> mount \<Rightarrow> (fs_result \<times> mount) option" where
  "thread_op p net k st = do {
     pc \<leftarrow> map_find (heartbeatThreads st) k;
     c \<leftarrow> map_find (connections st) k;
     let (pc, c) = thread_step p net pc c;
     Some (Ticked, st\<lparr>connections := map_put k c (connections st),
       heartbeatThreads := map_put k pc (heartbeatThreads st)\<rparr>) }"

fun fs_op :: "plat \<Rightarrow> network \<Rightarrow> fs_call \<Rightarrow> mount \<Rightarrow> (fs_result \<times> mount) option" where
  "fs_op p net (Open_call n m) st = do { ((r, fh), st) \<leftarrow> agfs_open p (name_path n) m 0 st; Some (Opened r fh, st) }"
| "fs_op p net (Read_call fh buf off) st = do { ((r, buf), st) \<leftarrow> agfs_read p buf off fh st; Some (Got r buf, st) }"
| "fs_op p net (Write_call fh buf off) st = do { (r, st) \<leftarrow> agfs_write p buf off fh st; Some (Result r, st) }"
| "fs_op p net (Release_call fh) st = do { (r, st) \<leftarrow> agfs_release fh st; Some (Result r, st) }"
| "fs_op p net (Getattr_call n) st =
     do { ((r, stbuf), st) \<leftarrow> agfs_getattr p (name_path n) st; Some (Attr r (st_size stbuf), st) }"
| "fs_op p net (Access_call n) st = do { (r, st) \<leftarrow> agfs_access p (name_path n) F_OK st; Some (Result r, st) }"
| "fs_op p net (Thread_call k) st = thread_op p net k st"

section \<open>Tables with one entry for each server\<close>

definition table :: "'k::linorder list \<Rightarrow> ('k \<Rightarrow> 'v) \<Rightarrow> ('k, 'v) std_map" where
  "table ks f = map (\<lambda>k. (k, f k)) ks"

lemma table_simps [simp]: "table [] f = []" "table (k # ks) f = (k, f k) # table ks f"
  by (simp_all add: table_def)

lemma table_keys [simp]: "map fst (table ks f) = ks"
  by (simp add: table_def comp_def)

lemma table_eq_Nil [simp]: "table ks f = [] \<longleftrightarrow> ks = []"
  by (simp add: table_def)

lemma set_table: "(k, v) \<in> set (table ks f) \<longleftrightarrow> k \<in> set ks \<and> v = f k"
  by (auto simp: table_def)

lemma map_find_table: "map_find (table ks f) k = (if k \<in> set ks then Some (f k) else None)"
  by (induction ks) auto

lemma table_cong: "(\<And>k. k \<in> set ks \<Longrightarrow> f k = g k) \<Longrightarrow> table ks f = table ks g"
  by (simp add: table_def)

lemma map_put_table:
  "sorted_wrt (<) ks \<Longrightarrow> k \<in> set ks \<Longrightarrow> map_put k v (table ks f) = table ks (f(k := v))"
proof (induction ks)
  case (Cons k' ks)
  show ?case
  proof (cases "k = k'")
    case True
    have "table ks f = table ks (f(k := v))" using Cons.prems(1) True by (intro table_cong) auto
    then show ?thesis using True by (simp add: fun_upd_def)
  next
    case False
    then have "k' < k" "k \<in> set ks" using Cons.prems by auto
    then show ?thesis using Cons False by auto
  qed
qed simp

lemma table_of_map:
  assumes "map_ok m"
  shows "m = table (map fst m) (\<lambda>k. the (map_find m k))"
proof (rule nth_equalityI)
  fix i
  assume i: "i < length m"
  obtain k v where e: "m ! i = (k, v)" by fastforce
  then have "map_find m k = Some v" using map_find_sorted [OF assms] i by (metis nth_mem)
  then show "m ! i = table (map fst m) (\<lambda>k. the (map_find m k)) ! i"
    using i e by (simp add: table_def)
qed (simp add: table_def)

section \<open>The loops over the servers\<close>

text \<open>The servers that a search asks: all before the first that has the file, and that one.\<close>

fun ask_until :: "('k \<Rightarrow> bool) \<Rightarrow> 'k list \<Rightarrow> 'k list" where
  "ask_until P [] = []"
| "ask_until P (k # ks) = (if P k then [k] else k # ask_until P ks)"

lemma ask_until_subset: "set (ask_until P ks) \<subseteq> set ks"
  by (induction ks) auto

lemma existance_table:
  "(\<And>k. k \<in> set ks \<Longrightarrow> access p file F_OK (f k) = (if P k then 0 else -1, f' k)) \<Longrightarrow>
     existance_loop p file (table ks f) = (filter P ks, table ks f')"
  by (induction ks) (simp_all add: Let_def)

lemma getattr_table:
  assumes "distinct ks" and "\<And>k. k \<in> set ks \<Longrightarrow> connected (f k)"
    and "\<And>k. k \<in> set (ask_until P ks) \<Longrightarrow> getattr p file (f k) = ((s k, if P k then 0 else missing), f' k)"
    and "\<And>k. k \<in> set ks \<Longrightarrow> k \<notin> set (ask_until P ks) \<Longrightarrow> f' k = f k"
  shows "getattr_loop p file r (table ks f) =
           (case find P ks of Some k \<Rightarrow> (s k, 0) | None \<Rightarrow> if ks = [] then r else (s (last ks), missing), table ks f')"
  using assms
proof (induction ks arbitrary: r)
  case (Cons k ks)
  show ?case
  proof (cases "P k")
    case True
    have "table ks f = table ks f'" using Cons.prems(1) True by (intro table_cong sym [OF Cons.prems(4)]) auto
    then show ?thesis using Cons.prems(2,3) True by simp
  next
    case False
    have "getattr_loop p file (s k, missing) (table ks f) =
        (case find P ks of Some k \<Rightarrow> (s k, 0) | None \<Rightarrow> if ks = [] then (s k, missing) else (s (last ks), missing), table ks f')"
      using Cons.prems False by (intro Cons.IH) auto
    then show ?thesis using Cons.prems(2,3) False by (auto split: option.split)
  qed
qed simp

lemma access_table:
  assumes "distinct ks"
    and "\<And>k. k \<in> set (ask_until P ks) \<Longrightarrow> access p file m (f k) = (if P k then 0 else -1, f' k)"
    and "\<And>k. k \<in> set ks \<Longrightarrow> k \<notin> set (ask_until P ks) \<Longrightarrow> f' k = f k"
  shows "access_loop p file m r (table ks f) =
           (if \<exists>k \<in> set ks. P k then 0 else if ks = [] then r else -1, table ks f')"
  using assms
proof (induction ks arbitrary: r)
  case (Cons k ks)
  show ?case
  proof (cases "P k")
    case True
    have "table ks f = table ks f'" using Cons.prems(1) True by (intro table_cong sym [OF Cons.prems(3)]) auto
    then show ?thesis using Cons.prems(2) True by simp
  next
    case False
    have "access_loop p file m (-1) (table ks f) =
        (if \<exists>k \<in> set ks. P k then 0 else if ks = [] then -1 else -1, table ks f')"
      using Cons.prems False by (intro Cons.IH) auto
    then show ?thesis using Cons.prems(2) False by auto
  qed
qed simp

section \<open>The mount and the processes of the servers\<close>

definition arrived_all :: "(string \<Rightarrow> byte list list) \<Rightarrow> connection_map \<Rightarrow> connection_map" where
  "arrived_all replies m = map (\<lambda>(k, c). (k, c\<lparr>rx := rx_pushes (replies k) (rx c)\<rparr>)) m"

lemma arrived_all_table:
  "arrived_all replies (table ks f) = table ks (\<lambda>k. (f k)\<lparr>rx := rx_pushes (replies k) (rx (f k))\<rparr>)"
  by (simp add: arrived_all_def table_def)

text \<open>
  A call of the mount talks to the servers: on every connection the client has sent the
  requests and has read all the replies; the server's process, in some turns of its loop, has
  read all the requests and has sent the replies. Other servers do nothing.
\<close>

definition talked ::
  "byte list list \<Rightarrow> byte list list \<Rightarrow> server_connection \<Rightarrow> server_connection \<Rightarrow> 'h remote \<Rightarrow> 'h remote \<Rightarrow> bool" where
  "talked requests replies c c' r r' \<longleftrightarrow>
     tx c' = tx c @ concat requests \<and> rx c' = rx c \<and>
     turns (rm_os r) (rm_plat r) ((rm_process r)\<lparr>rx := rx_pushes requests (rx (rm_process r))\<rparr>) (rm_process r') \<and>
     tx (rm_process r') = tx (rm_process r) @ concat replies \<and> rx (rm_process r') = rx (rm_process r) \<and>
     rm_os r' = rm_os r \<and> rm_plat r' = rm_plat r"

definition world_call ::
  "(mount \<Rightarrow> ('r \<times> mount) option) \<Rightarrow> mount \<Rightarrow> (string \<Rightarrow> 'h remote) \<Rightarrow> 'r \<Rightarrow> mount \<Rightarrow> (string \<Rightarrow> 'h remote) \<Rightarrow> bool" where
  "world_call call st rm r st' rm' \<longleftrightarrow>
     (\<exists>requests replies.
        call (st\<lparr>connections := arrived_all replies (connections st)\<rparr>) = Some (r, st') \<and>
        map fst (connections st') = map fst (connections st) \<and>
        (\<forall>(k, c) \<in> set (connections st).
           talked (requests k) (replies k) c (the (map_find (connections st') k)) (rm k) (rm' k)))"

inductive world_run ::
  "plat \<Rightarrow> network \<Rightarrow> fs_call list \<Rightarrow> mount \<Rightarrow> (string \<Rightarrow> 'h remote) \<Rightarrow> fs_result list \<Rightarrow>
     mount \<Rightarrow> (string \<Rightarrow> 'h remote) \<Rightarrow> bool" for p net where
  quiet: "world_run p net [] st rm [] st rm"
| then_call: "world_call (fs_op p net call) st rm r st1 rm1 \<Longrightarrow>
     world_run p net calls st1 rm1 rs st2 rm2 \<Longrightarrow> world_run p net (call # calls) st rm (r # rs) st2 rm2"

section \<open>The relation between the system and the aggregate\<close>

text \<open>Open handles are on files that are there; no call removes a file.\<close>

definition ag_ok :: "(string \<Rightarrow> plat) \<Rightarrow> string list \<Rightarrow> string set \<Rightarrow> aggregate \<Rightarrow> bool" where
  "ag_ok q hosts names ag \<longleftrightarrow>
     (\<forall>h. Some h \<in> set (ag_handles ag) \<longrightarrow>
        fh_server h \<in> set hosts \<and> has (ag_files ag) (fh_file h) (fh_server h) \<and>
        fh_file h \<in> names \<and> path_ok (fh_file h) \<and> string_ok (q (fh_server h)) (fh_file h))"

text \<open>
  Between two calls every connection is up and its thread is waiting to test or to beat; the
  process of every server has the store of the aggregate, which \<open>files k\<close> reads off the
  state of its system.
\<close>

definition linked ::
  "(string \<Rightarrow> plat) \<Rightarrow> string set \<Rightarrow> (string \<Rightarrow> 'h \<Rightarrow> store) \<Rightarrow> (string \<Rightarrow> 'h remote) \<Rightarrow> (string \<Rightarrow> store) \<Rightarrow>
     string \<Rightarrow> server_connection \<Rightarrow> bool" where
  "linked q names files rm F k c \<longleftrightarrow>
     healthy c \<and> \<not> closed c \<and> rm_plat (rm k) = q k \<and>
     store_ready (rm_os (rm k)) names (files k) (F k) (rm_process (rm k))"

definition related ::
  "(string \<Rightarrow> plat) \<Rightarrow> string list \<Rightarrow> string set \<Rightarrow> (string \<Rightarrow> 'h \<Rightarrow> store) \<Rightarrow>
     mount \<Rightarrow> (string \<Rightarrow> 'h remote) \<Rightarrow> aggregate \<Rightarrow> bool" where
  "related q hosts names files st rm ag \<longleftrightarrow>
     sorted_wrt (<) hosts \<and> '''' \<notin> set hosts \<and> handles st = ag_handles ag \<and> ag_ok q hosts names ag \<and>
     (\<exists>cs pcs. connections st = table hosts cs \<and> heartbeatThreads st = table hosts pcs \<and>
        (\<forall>k \<in> set hosts. linked q names files rm (ag_files ag) k (cs k) \<and> (pcs k = Check \<or> pcs k = Mount.Beat)))"

lemma relatedE:
  assumes "related q hosts names files st rm ag"
  obtains cs pcs where "sorted_wrt (<) hosts" "'''' \<notin> set hosts" "handles st = ag_handles ag" "ag_ok q hosts names ag"
    "connections st = table hosts cs" "heartbeatThreads st = table hosts pcs"
    "\<And>k. k \<in> set hosts \<Longrightarrow> linked q names files rm (ag_files ag) k (cs k)"
    "\<And>k. k \<in> set hosts \<Longrightarrow> pcs k = Check \<or> pcs k = Mount.Beat"
  using assms unfolding related_def by blast

lemma relatedD:
  assumes "related q hosts names files st rm ag"
  shows "sorted_wrt (<) hosts" and "'''' \<notin> set hosts" and "handles st = ag_handles ag" and "ag_ok q hosts names ag"
  using assms by (simp_all add: related_def)

end
