(* ===== verification/AggregateSim.thy ===== *)
theory AggregateSim
  imports Aggregate
begin

text \<open>
  The system simulates the aggregate (\<open>Aggregate\<close>), call by call: a call is a plan, the requests
  that it makes to each server; what the conversation with each server yields is a fact of
  \<open>store_talk\<close>, and what the call makes of it is read off its definition.
\<close>

section \<open>A call as a plan\<close>

text \<open>
  The requests that a call makes to each server, \<open>plan\<close>, as calls on the store of that server:
  if the call returns \<open>r\<close> whenever these calls return what the stores say, it does so when the
  processes answer, and their stores are then what the plan leaves.
\<close>

lemma planned:
  assumes "connections st = table hosts cs"
    and "\<And>k. k \<in> set hosts \<Longrightarrow> linked q names files rm F k (cs k)"
    and "\<And>k. k \<in> set hosts \<Longrightarrow> all_ok (store_ok p (q k) names) store_do (plan k) (F k)"
    and "\<And>f f'. (\<And>k. k \<in> set hosts \<Longrightarrow> healthy (f k) \<and> \<not> closed (f k) \<and>
           run_calls (store_op p) (plan k) (f k) = Some (fst (run_spec store_do (plan k) (F k)), f' k)) \<Longrightarrow>
        call (st\<lparr>connections := table hosts f\<rparr>) = Some (r, (upd st)\<lparr>connections := table hosts f'\<rparr>)"
  shows "\<exists>cs' rm'. world_call call st rm r ((upd st)\<lparr>connections := table hosts cs'\<rparr>) rm' \<and>
           (\<forall>k \<in> set hosts. linked q names files rm' (\<lambda>k. snd (run_spec store_do (plan k) (F k))) k (cs' k))"
proof -
  let ?rs = "\<lambda>k. fst (run_spec store_do (plan k) (F k))" and ?F = "\<lambda>k. snd (run_spec store_do (plan k) (F k))"
  let ?rq = "\<lambda>k. map store_msg (plan k)"
  let ?c' = "\<lambda>k. (cs k)\<lparr>tx := tx (cs k) @ concat (?rq k)\<rparr>"
  have link: "healthy (cs k)" "\<not> closed (cs k)" "rm_plat (rm k) = q k"
    "store_ready (rm_os (rm k)) names (files k) (F k) (rm_process (rm k))" if "k \<in> set hosts" for k
    using assms(2) [OF that] by (simp_all add: linked_def)
  have "\<exists>replies s'. k \<in> set hosts \<longrightarrow>
      run_calls (store_op p) (plan k) ((cs k)\<lparr>rx := rx_pushes replies (rx (cs k))\<rparr>) = Some (?rs k, ?c' k) \<and>
      turns (rm_os (rm k)) (q k) ((rm_process (rm k))\<lparr>rx := rx_pushes (?rq k) (rx (rm_process (rm k)))\<rparr>) s' \<and>
      tx s' = tx (rm_process (rm k)) @ concat replies \<and> rx s' = rx (rm_process (rm k)) \<and>
      store_ready (rm_os (rm k)) names (files k) (?F k) s'" for k
    using store_talk.batch [OF link(1,4) assms(3), of k k "?rs k" "?F k"] by auto
  then obtain replies s' where talk: "\<And>k. k \<in> set hosts \<Longrightarrow>
      run_calls (store_op p) (plan k) ((cs k)\<lparr>rx := rx_pushes (replies k) (rx (cs k))\<rparr>) = Some (?rs k, ?c' k) \<and>
      turns (rm_os (rm k)) (q k) ((rm_process (rm k))\<lparr>rx := rx_pushes (?rq k) (rx (rm_process (rm k)))\<rparr>) (s' k) \<and>
      tx (s' k) = tx (rm_process (rm k)) @ concat (replies k) \<and> rx (s' k) = rx (rm_process (rm k)) \<and>
      store_ready (rm_os (rm k)) names (files k) (?F k) (s' k)"
    by metis
  let ?rm = "\<lambda>k. (rm k)\<lparr>rm_process := s' k\<rparr>"
  let ?st = "(upd st)\<lparr>connections := table hosts ?c'\<rparr>"
  have "call (st\<lparr>connections := arrived_all replies (connections st)\<rparr>) = Some (r, ?st)"
    unfolding assms(1) arrived_all_table using talk link(1,2) by (intro assms(4)) (simp add: closed_def)
  moreover have "talked (?rq k) (replies k) c (the (map_find (connections ?st) k)) (rm k) (?rm k)"
    if "(k, c) \<in> set (connections st)" for k c
    using that talk [of k] link(3) [of k] by (simp add: assms(1) set_table talked_def map_find_table)
  moreover have "map fst (connections ?st) = map fst (connections st)" using assms(1) by simp
  ultimately have "world_call call st rm r ?st ?rm"
    unfolding world_call_def by (intro exI [of _ ?rq] exI [of _ replies]) auto
  moreover have "linked q names files ?rm ?F k (?c' k)" if "k \<in> set hosts" for k
    using talk [OF that] link [OF that] by (simp add: linked_def closed_def)
  ultimately show ?thesis by blast
qed

lemma simulated_threads:
  assumes "related q hosts names files st rm ag"
    and "\<And>k. k \<in> set hosts \<Longrightarrow> all_ok (store_ok p (q k) names) store_do (plan k) (ag_files ag k)"
    and "\<And>f f'. (\<And>k. k \<in> set hosts \<Longrightarrow> healthy (f k) \<and> \<not> closed (f k) \<and>
           run_calls (store_op p) (plan k) (f k) = Some (fst (run_spec store_do (plan k) (ag_files ag k)), f' k)) \<Longrightarrow>
        call (st\<lparr>connections := table hosts f\<rparr>) = Some (r, (upd st)\<lparr>connections := table hosts f'\<rparr>)"
    and "\<And>k. k \<in> set hosts \<Longrightarrow> snd (run_spec store_do (plan k) (ag_files ag k)) = ag_files ag' k"
    and "handles (upd st) = ag_handles ag'" and "ag_ok q hosts names ag'"
    and "heartbeatThreads (upd st) = table hosts pcs"
    and "\<And>k. k \<in> set hosts \<Longrightarrow> pcs k = Check \<or> pcs k = Mount.Beat"
  shows "\<exists>st' rm'. world_call call st rm r st' rm' \<and> related q hosts names files st' rm' ag'"
proof -
  obtain cs pcs0 where rel: "sorted_wrt (<) hosts" "'''' \<notin> set hosts" "handles st = ag_handles ag" "ag_ok q hosts names ag"
    "connections st = table hosts cs" "heartbeatThreads st = table hosts pcs0"
    "\<And>k. k \<in> set hosts \<Longrightarrow> linked q names files rm (ag_files ag) k (cs k)"
    "\<And>k. k \<in> set hosts \<Longrightarrow> pcs0 k = Check \<or> pcs0 k = Mount.Beat"
    using assms(1) by (rule relatedE) (rule that)
  from planned [where plan = plan and F = "ag_files ag" and upd = upd and call = call and st = st and p = p,
      OF rel(5,7) assms(2,3)]
  obtain cs' rm' where wc: "world_call call st rm r ((upd st)\<lparr>connections := table hosts cs'\<rparr>) rm'"
    and linked': "\<forall>k \<in> set hosts.
      linked q names files rm' (\<lambda>k. snd (run_spec store_do (plan k) (ag_files ag k))) k (cs' k)"
    by blast
  have "linked q names files rm' (ag_files ag') k (cs' k)" if "k \<in> set hosts" for k
    using bspec [OF linked' that] unfolding linked_def assms(4) [OF that] .
  then have "related q hosts names files ((upd st)\<lparr>connections := table hosts cs'\<rparr>) rm' ag'"
    unfolding related_def using rel(1,2) assms(5-8)
    by (intro conjI exI [of _ cs'] exI [of _ pcs]) simp_all
  then show ?thesis using wc by blast
qed

text \<open>The same for a call that leaves the threads alone.\<close>

lemma simulated:
  assumes "related q hosts names files st rm ag"
    and "\<And>k. k \<in> set hosts \<Longrightarrow> all_ok (store_ok p (q k) names) store_do (plan k) (ag_files ag k)"
    and "\<And>f f'. (\<And>k. k \<in> set hosts \<Longrightarrow> healthy (f k) \<and> \<not> closed (f k) \<and>
           run_calls (store_op p) (plan k) (f k) = Some (fst (run_spec store_do (plan k) (ag_files ag k)), f' k)) \<Longrightarrow>
        call (st\<lparr>connections := table hosts f\<rparr>) = Some (r, (upd st)\<lparr>connections := table hosts f'\<rparr>)"
    and "\<And>k. k \<in> set hosts \<Longrightarrow> snd (run_spec store_do (plan k) (ag_files ag k)) = ag_files ag' k"
    and "handles (upd st) = ag_handles ag'" and "ag_ok q hosts names ag'"
    and "heartbeatThreads (upd st) = heartbeatThreads st"
  shows "\<exists>st' rm'. world_call call st rm r st' rm' \<and> related q hosts names files st' rm' ag'"
proof -
  obtain pcs where "heartbeatThreads st = table hosts pcs" "\<forall>k \<in> set hosts. pcs k = Check \<or> pcs k = Mount.Beat"
    using assms(1) unfolding related_def by blast
  then show ?thesis
    using assms(7) by (intro simulated_threads [where plan = plan and upd = upd and call = call and pcs = pcs and p = p,
          OF assms(1-6)]) simp_all
qed

text \<open>The calls of a plan are the methods of the connection.\<close>

lemma run_calls_single:
  "run_calls (store_op p) [Stat_at path] c = Some ([Sized n e], c') \<Longrightarrow>
     \<exists>s. getattr p path c = ((s, e), c') \<and> st_size s = n"
  "run_calls (store_op p) [Exists path] c = Some ([Status e], c') \<Longrightarrow> access p path F_OK c = (e, c')"
  "run_calls (store_op p) [Open_at path m] c = Some ([Status e], c') \<Longrightarrow> open_file p path m c = (e, c')"
  "run_calls (store_op p) [Read_from path sz off] c = Some ([Bytes d e], c') \<Longrightarrow>
     readFile p path sz off c = Some ((d, e), c')"
  "run_calls (store_op p) [Write_to path off buf] c = Some ([Put n 0], c') \<Longrightarrow>
     \<exists>e. \<not> neg_err e \<and> writeFile p path off buf c = ((n, e), c')"
  by (auto simp: split_beta Let_def bind_eq_Some_conv prod_eq_iff split: if_splits)

lemma run_calls_Exists:
  assumes "run_calls (store_op p) (Exists path # rqs) c = Some (Status e # rs, c')"
  shows "access p path F_OK c = (e, snd (access p path F_OK c)) \<and>
         run_calls (store_op p) rqs (snd (access p path F_OK c)) = Some (rs, c')"
proof -
  obtain e' c1 where "access p path F_OK c = (e', c1)" by fastforce
  then show ?thesis using assms by (auto simp: bind_eq_Some_conv split: prod.splits)
qed

lemma table_one:
  assumes "sorted_wrt (<) ks" and "k \<in> set ks" and "\<And>k'. k' \<in> set ks \<Longrightarrow> k' \<noteq> k \<Longrightarrow> f' k' = f k'"
  shows "map_put k (f' k) (table ks f) = table ks f'"
  using assms by (auto simp: map_put_table intro!: table_cong)

lemma healthy_live: "healthy c \<Longrightarrow> connected c"
  by (simp add: healthy_def live_def connected_def)

lemma handle_at_ag: "handles st = ag_handles ag \<Longrightarrow> handle_at st fh = ag_handle ag fh"
  by (simp add: handle_at_def ag_handle_def)

lemma ag_handle_ok:
  assumes "ag_ok q hosts names ag" and "ag_handle ag fh = Some h"
  shows "fh_server h \<in> set hosts" and "has (ag_files ag) (fh_file h) (fh_server h)"
    and "fh_file h \<in> names" and "path_ok (fh_file h)" and "string_ok (q (fh_server h)) (fh_file h)"
proof -
  have "Some h \<in> set (ag_handles ag)"
    using assms(2) by (auto simp: ag_handle_def in_set_conv_nth split: if_splits intro!: exI [of _ "fh - 1"])
  then show "fh_server h \<in> set hosts" "has (ag_files ag) (fh_file h) (fh_server h)"
    "fh_file h \<in> names" "path_ok (fh_file h)" "string_ok (q (fh_server h)) (fh_file h)"
    using assms(1) unfolding ag_ok_def by blast+
qed

section \<open>Reading, writing and releasing\<close>

lemma read_simulated:
  assumes "related q hosts names files st rm ag" and "fs_ok p q hosts names (Read_call fh buf off) ag"
    and "aggregate_do hosts (Read_call fh buf off) ag = (r, ag')"
  shows "\<exists>st' rm'. world_call (fs_op p net (Read_call fh buf off)) st rm r st' rm' \<and>
           related q hosts names files st' rm' ag'"
proof -
  note rel = relatedD [OF assms(1)]
  obtain h where h: "ag_handle ag fh = Some h" using assms(2) by auto
  note hok = ag_handle_ok [OF rel(4) h]
  let ?k = "fh_server h" and ?n = "word_of_nat (length buf) :: agsize_t"
  obtain bs where bs: "ag_files ag ?k (fh_file h) = Some bs" using hok(2) by auto
  let ?d = "take (length buf) (drop (unat off) bs)"
  let ?plan = "\<lambda>k. if k = ?k then [Read_from (fh_file h) ?n off] else []"
  have len: "length buf \<le> MAX_RW" "unat off < 2 ^ 63" using assms(2) by simp_all
  have sz: "unat ?n = length buf" using len(1) by (simp add: unat_of_nat MAX_RW_def)
  have feas: "feasible p (q ?k) (Read_at ?n off)" using assms(2) hok(1) sz by auto
  have r: "r = Got (int (length ?d)) (?d @ drop (length ?d) buf)" "ag' = ag"
    using assms(3) h bs by (auto simp: ag_content_def)
  have d: "length ?d \<le> MAX_RW" "length ?d \<le> length buf" using len(1) by simp_all
  have small: "length ?d < 2 ^ 31" using d(1) by (simp add: MAX_RW_def)
  have err: "\<not> neg_err (word_of_nat (length ?d))" "int_of_err (word_of_nat (length ?d)) = int (length ?d)"
    using d(1) int_of_err_nat [OF small] by (simp_all add: sint_length_u64 MAX_RW_def)
  show ?thesis
    unfolding r(2)
  proof (rule simulated [OF assms(1), where plan = ?plan and upd = "\<lambda>st. st"])
    fix k
    assume k: "k \<in> set hosts"
    show "all_ok (store_ok p (q k) names) store_do (?plan k) (ag_files ag k)"
      using hok(3-5) feas by (simp add: store_ok_def del: feasible.simps)
  next
    fix f f'
    assume f: "\<And>k. k \<in> set hosts \<Longrightarrow> healthy (f k) \<and> \<not> closed (f k) \<and>
        run_calls (store_op p) (?plan k) (f k) = Some (fst (run_spec store_do (?plan k) (ag_files ag k)), f' k)"
    have "run_calls (store_op p) [Read_from (fh_file h) ?n off] (f ?k) = Some ([Bytes ?d (word_of_nat (length ?d))], f' ?k)"
      using f [OF hok(1)] bs sz by (simp del: run_calls.simps add: Let_def)
    then have call: "readFile p (fh_file h) ?n off (f ?k) = Some ((?d, word_of_nat (length ?d)), f' ?k)"
      by (rule run_calls_single(4))
    have "map_put ?k (f' ?k) (table hosts f) = table hosts f'"
      using f by (intro table_one rel(1) hok(1)) fastforce
    moreover have "handle_at (st\<lparr>connections := table hosts f\<rparr>) fh = Some h"
      using h handle_at_ag [of "st\<lparr>connections := table hosts f\<rparr>" ag fh] rel(3) by simp
    ultimately show "fs_op p net (Read_call fh buf off) (st\<lparr>connections := table hosts f\<rparr>) =
        Some (r, st\<lparr>connections := table hosts f'\<rparr>)"
      using call f [OF hok(1)] hok(1) d(2) err r(1)
      by (simp add: agfs_read_def map_find_table healthy_live overlay_def)
  qed (use rel in simp_all)
qed

lemma ag_ok_more:
  assumes "ag_ok q hosts names ag" and "ag_handles ag' = ag_handles ag"
    and "\<And>k f. has (ag_files ag) f k \<Longrightarrow> has (ag_files ag') f k"
  shows "ag_ok q hosts names ag'"
  using assms unfolding ag_ok_def by metis

lemma write_simulated:
  assumes "related q hosts names files st rm ag" and "fs_ok p q hosts names (Write_call fh buf off) ag"
    and "aggregate_do hosts (Write_call fh buf off) ag = (r, ag')"
  shows "\<exists>st' rm'. world_call (fs_op p net (Write_call fh buf off)) st rm r st' rm' \<and>
           related q hosts names files st' rm' ag'"
proof -
  note rel = relatedD [OF assms(1)]
  obtain h where h: "ag_handle ag fh = Some h" using assms(2) by auto
  note hok = ag_handle_ok [OF rel(4) h]
  let ?k = "fh_server h" and ?n = "word_of_nat (length buf) :: agsize_t"
  obtain bs where bs: "ag_files ag ?k (fh_file h) = Some bs" using hok(2) by auto
  let ?bs = "put_at (unat off) buf bs"
  let ?plan = "\<lambda>k. if k = ?k then [Write_to (fh_file h) off buf] else []"
  have feas: "feasible p (q ?k) (Write_at off buf)" using assms(2) hok(1) by auto
  have r: "r = Result (int (length buf))" "ag' = put_content h ?bs ag"
    using assms(3) h bs by (auto simp: ag_content_def Let_def)
  have len: "length buf < 2 ^ 31" using assms(2) by simp
  have ag': "ag_ok q hosts names ag'"
    by (rule ag_ok_more [OF rel(4)]) (auto simp: r(2) put_content_def)
  show ?thesis
  proof (rule simulated [OF assms(1), where plan = ?plan and upd = "\<lambda>st. st"])
    fix k
    assume k: "k \<in> set hosts"
    show "all_ok (store_ok p (q k) names) store_do (?plan k) (ag_files ag k)"
      using hok(3-5) feas bs by (simp add: store_ok_def del: feasible.simps)
    show "snd (run_spec store_do (?plan k) (ag_files ag k)) = ag_files ag' k"
      using bs by (simp add: r(2) put_content_def)
  next
    fix f f'
    assume f: "\<And>k. k \<in> set hosts \<Longrightarrow> healthy (f k) \<and> \<not> closed (f k) \<and>
        run_calls (store_op p) (?plan k) (f k) = Some (fst (run_spec store_do (?plan k) (ag_files ag k)), f' k)"
    have "run_calls (store_op p) [Write_to (fh_file h) off buf] (f ?k) = Some ([Put ?n 0], f' ?k)"
      using f [OF hok(1)] bs by (simp del: run_calls.simps)
    then obtain e where call: "\<not> neg_err e" "writeFile p (fh_file h) off buf (f ?k) = ((?n, e), f' ?k)"
      using run_calls_single(5) by blast
    have "map_put ?k (f' ?k) (table hosts f) = table hosts f'"
      using f by (intro table_one rel(1) hok(1)) fastforce
    moreover have "handle_at (st\<lparr>connections := table hosts f\<rparr>) fh = Some h"
      using h handle_at_ag [of "st\<lparr>connections := table hosts f\<rparr>" ag fh] rel(3) by simp
    ultimately show "fs_op p net (Write_call fh buf off) (st\<lparr>connections := table hosts f\<rparr>) =
        Some (r, st\<lparr>connections := table hosts f'\<rparr>)"
      using call f [OF hok(1)] hok(1) int_of_err_nat [OF len] r(1)
      by (simp add: agfs_write_def map_find_table healthy_live)
  qed (use rel ag' in \<open>simp_all add: r(2) put_content_def\<close>)
qed

text \<open>Calls that ask no server.\<close>

lemma silent_simulated:
  assumes "related q hosts names files st rm ag"
    and "\<And>m. call (st\<lparr>connections := m\<rparr>) = Some (r, (upd st)\<lparr>connections := m\<rparr>)"
    and "ag_files ag' = ag_files ag" and "handles (upd st) = ag_handles ag'" and "ag_ok q hosts names ag'"
    and "heartbeatThreads (upd st) = heartbeatThreads st"
  shows "\<exists>st' rm'. world_call call st rm r st' rm' \<and> related q hosts names files st' rm' ag'"
proof -
  note rel = relatedD [OF assms(1)]
  show ?thesis
  proof (rule simulated [OF assms(1), where plan = "\<lambda>k. []" and upd = upd])
    fix f f'
    assume f: "\<And>k. k \<in> set hosts \<Longrightarrow> healthy (f k) \<and> \<not> closed (f k) \<and>
        run_calls (store_op p) [] (f k) = Some (fst (run_spec store_do [] (ag_files ag k)), f' k)"
    have "table hosts f = table hosts f'" using f by (intro table_cong) simp
    then show "call (st\<lparr>connections := table hosts f\<rparr>) = Some (r, (upd st)\<lparr>connections := table hosts f'\<rparr>)"
      using assms(2) by metis
  qed (use rel assms(3-6) in simp_all)
qed

lemma ag_ok_handles:
  assumes "ag_ok q hosts names ag" and "ag_files ag' = ag_files ag"
    and "\<And>h. Some h \<in> set (ag_handles ag') \<Longrightarrow> Some h \<in> set (ag_handles ag)"
  shows "ag_ok q hosts names ag'"
  using assms unfolding ag_ok_def by metis

lemma release_simulated:
  assumes "related q hosts names files st rm ag" and "fs_ok p q hosts names (Release_call fh) ag"
    and "aggregate_do hosts (Release_call fh) ag = (r, ag')"
  shows "\<exists>st' rm'. world_call (fs_op p net (Release_call fh)) st rm r st' rm' \<and>
           related q hosts names files st' rm' ag'"
proof -
  have st: "handles st = ag_handles ag" "ag_ok q hosts names ag" using assms(1) by (simp_all add: related_def)
  let ?hs = "if fh = 0 then ag_handles ag else (ag_handles ag)[fh - 1 := None]"
  have r: "r = Result 0" "ag' = ag\<lparr>ag_handles := ?hs\<rparr>" using assms(3) by auto
  have ok: "ag_ok q hosts names ag'"
    using set_update_subset_insert [of "ag_handles ag" "fh - 1" None]
    by (intro ag_ok_handles [OF st(2)]) (auto simp: r(2) split: if_splits)
  show ?thesis
  proof (rule silent_simulated [OF assms(1), where upd = "handles_update (\<lambda>_. ?hs)"])
    fix m
    have "fh = 0 \<or> (\<exists>h. handle_at (st\<lparr>connections := m\<rparr>) fh = Some h)"
      using assms(2) handle_at_ag [of "st\<lparr>connections := m\<rparr>" ag fh] st(1) by auto
    then show "fs_op p net (Release_call fh) (st\<lparr>connections := m\<rparr>) =
        Some (r, (st\<lparr>handles := ?hs\<rparr>)\<lparr>connections := m\<rparr>)"
      using st(1) by (auto simp: agfs_release_def r(1))
  qed (use ok in \<open>simp_all add: r(2)\<close>)
qed

section \<open>The heartbeat threads\<close>

lemma thread_simulated:
  assumes "related q hosts names files st rm ag" and "fs_ok p q hosts names (Thread_call k) ag"
    and "aggregate_do hosts (Thread_call k) ag = (r, ag')"
  shows "\<exists>st' rm'. world_call (fs_op p net (Thread_call k)) st rm r st' rm' \<and>
           related q hosts names files st' rm' ag'"
proof -
  note rel = relatedD [OF assms(1)]
  obtain pcs where pcs: "heartbeatThreads st = table hosts pcs" "\<forall>k \<in> set hosts. pcs k = Check \<or> pcs k = Mount.Beat"
    using assms(1) unfolding related_def by blast
  have k: "k \<in> set hosts" and r: "r = Ticked" "ag' = ag" using assms(2,3) by auto
  let ?plan = "\<lambda>j. if j = k \<and> pcs k = Mount.Beat then [Knock] else []"
  let ?pc = "if pcs k = Mount.Beat then Check else Mount.Beat"
  have threads: "map_put k ?pc (table hosts pcs) = table hosts (pcs(k := ?pc))"
    by (rule map_put_table [OF rel(1) k])
  show ?thesis
    unfolding r(2)
  proof (rule simulated_threads [OF assms(1), where plan = ?plan and pcs = "pcs(k := ?pc)"
        and upd = "heartbeatThreads_update (\<lambda>_. table hosts (pcs(k := ?pc)))"])
    fix f f'
    assume f: "\<And>j. j \<in> set hosts \<Longrightarrow> healthy (f j) \<and> \<not> closed (f j) \<and>
        run_calls (store_op p) (?plan j) (f j) = Some (fst (run_spec store_do (?plan j) (ag_files ag j)), f' j)"
    have put: "map_put k (f' k) (table hosts f) = table hosts f'"
      using f by (intro table_one rel(1) k) fastforce
    have step: "thread_step p net (pcs k) (f k) = (?pc, f' k)"
    proof (cases "pcs k = Mount.Beat")
      case True
      then show ?thesis using f [OF k] by (auto simp: Let_def)
    next
      case False
      then have "pcs k = Check" using pcs(2) k by blast
      then show ?thesis using f [OF k] healthy_live [of "f k"] by auto
    qed
    show "fs_op p net (Thread_call k) (st\<lparr>connections := table hosts f\<rparr>) =
        Some (r, (st\<lparr>heartbeatThreads := table hosts (pcs(k := ?pc))\<rparr>)\<lparr>connections := table hosts f'\<rparr>)"
      using pcs(1) k put step threads r(1) by (simp add: thread_op_def map_find_table)
  qed (use rel pcs in \<open>auto simp: store_ok_def\<close>)
qed

section \<open>Asking for metadata\<close>

lemma name_parsed:
  assumes "name_ok q hosts names n"
  shows "ambiguate (c_string (name_path n)) = Some (case n of Plain f \<Rightarrow> '''' | Tagged f k \<Rightarrow> k, name_file n)"
proof (cases n)
  case (Plain f)
  then show ?thesis
    using assms by (simp add: name_ok.simps path_ok_def c_string_def ambiguate_clean)
next
  case (Tagged f k)
  have "NUL \<notin> set (listed_name f k)"
    using assms Tagged by (simp add: name_ok.simps path_ok_def listed_name_def BEGIN_BRACE_def END_BRACE_def NUL_def)
  then show ?thesis
    using assms Tagged ambiguate_listed [of f k] by (simp add: name_ok.simps c_string_def)
qed

text \<open>The table entry that a name selects, if it does.\<close>

lemma name_selects:
  assumes "'''' \<notin> set hosts"
  shows "map_find (table hosts f) (case n of Plain g \<Rightarrow> '''' | Tagged g k \<Rightarrow> k) =
           (case n of Tagged g k \<Rightarrow> if k \<in> set hosts then Some (f k) else None | Plain g \<Rightarrow> None)"
  using assms by (cases n) (simp_all add: map_find_table)

definition search_plan :: "string list \<Rightarrow> (string \<Rightarrow> store) \<Rightarrow> name \<Rightarrow> store_request \<Rightarrow> string \<Rightarrow> store_request list" where
  "search_plan hosts F n rq k =
     (if k \<in> set (ask_until (has F (name_file n)) (candidates hosts n)) then [rq] else [])"

lemma candidates_hosts: "set (candidates hosts n) \<subseteq> set hosts"
  by (cases n) auto

lemma search_plan_ok:
  assumes "name_ok q hosts names n" and "k \<in> set hosts"
    and "rq = Stat_at (name_file n) \<or> rq = Exists (name_file n)"
  shows "all_ok (store_ok p (q k) names) store_do (search_plan hosts F n rq k) (F k)"
    and "snd (run_spec store_do (search_plan hosts F n rq k) (F k)) = F k"
  using assms by (auto simp: search_plan_def store_ok_def name_ok.simps)

lemma getattr_simulated:
  assumes "related q hosts names files st rm ag" and "fs_ok p q hosts names (Getattr_call n) ag"
    and "aggregate_do hosts (Getattr_call n) ag = (r, ag')"
  shows "\<exists>st' rm'. world_call (fs_op p net (Getattr_call n)) st rm r st' rm' \<and>
           related q hosts names files st' rm' ag'"
proof -
  note rel = relatedD [OF assms(1)]
  have n: "name_ok q hosts names n" using assms(2) by simp
  let ?f = "name_file n" and ?F = "ag_files ag"
  let ?P = "has ?F ?f" and ?plan = "search_plan hosts ?F n (Stat_at (name_file n))"
  let ?size = "\<lambda>k. word_of_nat (length (the (?F k ?f))) :: 64 word"
  have r: "r = (case find ?P (candidates hosts n) of Some k \<Rightarrow> Attr 0 (?size k)
      | None \<Rightarrow> Attr (if hosts = [] then 0 else - ENOENT) 0)" "ag' = ag"
    using assms(3) by auto
  show ?thesis
    unfolding r(2)
  proof (rule simulated [OF assms(1), where plan = ?plan and upd = "\<lambda>st. st"])
    fix f f'
    assume f: "\<And>k. k \<in> set hosts \<Longrightarrow> healthy (f k) \<and> \<not> closed (f k) \<and>
        run_calls (store_op p) (?plan k) (f k) = Some (fst (run_spec store_do (?plan k) (?F k)), f' k)"
    define s where "s k = fst (fst (getattr p ?f (f k)))" for k
    have asked: "getattr p ?f (f k) = ((s k, if ?P k then 0 else missing), f' k) \<and>
        st_size (s k) = (if ?P k then ?size k else 0)"
      if "k \<in> set hosts" "k \<in> set (ask_until ?P (candidates hosts n))" for k
    proof -
      have "run_calls (store_op p) [Stat_at ?f] (f k) =
          Some ([Sized (if ?P k then ?size k else 0) (if ?P k then 0 else missing)], f' k)"
        using f [OF that(1)] that(2) by (auto simp: search_plan_def simp del: run_calls.simps split: option.splits)
      then obtain s' where "getattr p ?f (f k) = ((s', if ?P k then 0 else missing), f' k)"
        "st_size s' = (if ?P k then ?size k else 0)"
        using run_calls_single(1) by blast
      then show ?thesis by (simp add: s_def)
    qed
    have rest: "f' k = f k" if "k \<in> set hosts" "k \<notin> set (ask_until ?P (candidates hosts n))" for k
      using f [OF that(1)] that(2) by (simp add: search_plan_def)
    have live: "connected (f k)" if "k \<in> set hosts" for k using f [OF that] by (simp add: healthy_live)
    have int: "int_of_err 0 = 0" "int_of_err missing = - ENOENT"
      by (simp_all add: int_of_err_def missing_def ENOENT_def)
    let ?st = "st\<lparr>connections := table hosts f\<rparr>"
    have "fs_op p net (Getattr_call n) ?st = Some (r, st\<lparr>connections := table hosts f'\<rparr>)"
    proof (cases "\<exists>g k. n = Tagged g k \<and> k \<in> set hosts")
      case True
      then obtain g k where k: "n = Tagged g k" "k \<in> set hosts" by blast
      have "map_put k (f' k) (table hosts f) = table hosts f'"
        using rest k by (intro table_one rel(1) k(2)) simp
      then show ?thesis
        using k name_parsed [OF n] live [OF k(2)] asked [OF k(2)] r(1) int
        by (auto simp: agfs_getattr_def map_find_table zero_stat_def)
    next
      case False
      then have none: "map_find (connections ?st) (case n of Plain g \<Rightarrow> '''' | Tagged g k \<Rightarrow> k) = None"
        and cand: "candidates hosts n = hosts"
        using name_selects [OF rel(2), of f n] by (cases n; auto)+
      have dist: "distinct hosts" using rel(1) strict_sorted_iff by blast
      have loop: "getattr_loop p ?f (zero_stat, 0) (table hosts f) =
          (case find ?P hosts of Some k \<Rightarrow> (s k, 0)
           | None \<Rightarrow> if hosts = [] then (zero_stat, 0) else (s (last hosts), missing), table hosts f')"
        using dist live asked rest ask_until_subset [of ?P hosts] unfolding cand
        by (intro getattr_table) blast+
      show ?thesis
      proof (cases "find ?P hosts")
        case None
        then show ?thesis
          using loop none name_parsed [OF n] r(1) int
          by (auto simp: agfs_getattr_def cand zero_stat_def)
      next
        case (Some k)
        then have "?P k" "k \<in> set hosts" by (auto simp: find_Some_iff)
        moreover have "k \<in> set (ask_until ?P hosts)"
          using Some by (induction hosts) (auto split: if_splits)
        ultimately have "st_size (s k) = ?size k" using asked [of k] unfolding cand by simp
        then show ?thesis
          using Some loop none name_parsed [OF n] r(1) int by (simp add: agfs_getattr_def cand)
      qed
    qed
    then show "fs_op p net (Getattr_call n) ?st = Some (r, st\<lparr>connections := table hosts f'\<rparr>)" .
  qed (use rel search_plan_ok [OF n] in auto)
qed

lemma ucast_minus_one: "(ucast (-1 :: 64 word) :: 32 word) = -1"
  by transfer (simp add: take_bit_take_bit)

lemma access_simulated:
  assumes "related q hosts names files st rm ag" and "fs_ok p q hosts names (Access_call n) ag"
    and "aggregate_do hosts (Access_call n) ag = (r, ag')"
  shows "\<exists>st' rm'. world_call (fs_op p net (Access_call n)) st rm r st' rm' \<and>
           related q hosts names files st' rm' ag'"
proof -
  note rel = relatedD [OF assms(1)]
  have n: "name_ok q hosts names n" using assms(2) by simp
  let ?f = "name_file n" and ?F = "ag_files ag"
  let ?P = "has ?F ?f" and ?plan = "search_plan hosts ?F n (Exists (name_file n))"
  have r: "r = Result (if hosts = [] \<or> (\<exists>k \<in> set (candidates hosts n). ?P k) then 0 else -1)" "ag' = ag"
    using assms(3) by auto
  show ?thesis
    unfolding r(2)
  proof (rule simulated [OF assms(1), where plan = ?plan and upd = "\<lambda>st. st"])
    fix f f'
    assume f: "\<And>k. k \<in> set hosts \<Longrightarrow> healthy (f k) \<and> \<not> closed (f k) \<and>
        run_calls (store_op p) (?plan k) (f k) = Some (fst (run_spec store_do (?plan k) (?F k)), f' k)"
    have asked: "access p ?f F_OK (f k) = (if ?P k then 0 else -1, f' k)"
      if "k \<in> set hosts" "k \<in> set (ask_until ?P (candidates hosts n))" for k
    proof -
      have "run_calls (store_op p) [Exists ?f] (f k) = Some ([Status (if ?P k then 0 else -1)], f' k)"
        using f [OF that(1)] that(2) by (auto simp: search_plan_def simp del: run_calls.simps)
      then show ?thesis by (rule run_calls_single(2))
    qed
    have rest: "f' k = f k" if "k \<in> set hosts" "k \<notin> set (ask_until ?P (candidates hosts n))" for k
      using f [OF that(1)] that(2) by (simp add: search_plan_def)
    have int: "int_of_err 0 = 0" "int_of_err (-1) = -1"
      by (simp_all add: int_of_err_def ucast_minus_one)
    let ?st = "st\<lparr>connections := table hosts f\<rparr>"
    have "fs_op p net (Access_call n) ?st = Some (r, st\<lparr>connections := table hosts f'\<rparr>)"
    proof (cases "\<exists>g k. n = Tagged g k \<and> k \<in> set hosts")
      case True
      then obtain g k where k: "n = Tagged g k" "k \<in> set hosts" by blast
      have "map_put k (f' k) (table hosts f) = table hosts f'"
        using rest k by (intro table_one rel(1) k(2)) simp
      then show ?thesis
        using k name_parsed [OF n] asked [OF k(2)] r(1) int by (auto simp: agfs_access_def map_find_table)
    next
      case False
      then have none: "map_find (connections ?st) (case n of Plain g \<Rightarrow> '''' | Tagged g k \<Rightarrow> k) = None"
        and cand: "candidates hosts n = hosts"
        using name_selects [OF rel(2), of f n] by (cases n; auto)+
      have dist: "distinct hosts" using rel(1) strict_sorted_iff by blast
      have "access_loop p ?f F_OK 0 (table hosts f) =
          (if \<exists>k \<in> set hosts. ?P k then 0 else if hosts = [] then 0 else -1, table hosts f')"
        using dist asked rest ask_until_subset [of ?P hosts] unfolding cand
        by (intro access_table) blast+
      then show ?thesis
        using none name_parsed [OF n] r(1) int by (auto simp: agfs_access_def cand)
    qed
    then show "fs_op p net (Access_call n) ?st = Some (r, st\<lparr>connections := table hosts f'\<rparr>)" .
  qed (use rel search_plan_ok [OF n] in auto)
qed

section \<open>Opening\<close>

text \<open>The second half of \<^verbatim>\<open>open\<close>, on a server of the table.\<close>

lemma open_on_table:
  assumes "sorted_wrt (<) hosts" and "k \<in> set hosts" and "connected (f k)"
    and "open_file p file m (f k) = (if P then 0 else missing, f' k)"
    and "\<And>j. j \<in> set hosts \<Longrightarrow> j \<noteq> k \<Longrightarrow> f' j = f j"
  shows "open_on p k file m 0 (st\<lparr>connections := table hosts f\<rparr>) =
     (if P then ((0, Suc (length (handles st))),
        st\<lparr>handles := handles st @ [Some \<lparr>fh_server = k, fh_file = file\<rparr>], connections := table hosts f'\<rparr>)
      else ((- ENOENT, 0), st\<lparr>connections := table hosts f'\<rparr>))"
proof -
  have "map_put k (f' k) (table hosts f) = table hosts f'"
    using assms(1,2,5) by (rule table_one)
  moreover have "int_of_err 0 = 0" "int_of_err missing = - ENOENT"
    by (simp_all add: int_of_err_def missing_def ENOENT_def)
  moreover have "map_find (connections (st\<lparr>connections := table hosts f\<rparr>)) k = Some (f k)"
    using assms(2) by (simp add: map_find_table)
  ultimately show ?thesis
    using open_on_cases [OF _ assms(3,4), of "st\<lparr>connections := table hosts f\<rparr>" k 0] by simp
qed

definition open_plan :: "string list \<Rightarrow> (string \<Rightarrow> store) \<Rightarrow> name \<Rightarrow> agmask_t \<Rightarrow> string \<Rightarrow> store_request list" where
  "open_plan hosts F n m k =
     (case n of
        Plain f \<Rightarrow> Exists f # (if target hosts F n = Some k then [Open_at f m] else [])
      | Tagged f k' \<Rightarrow> if k = k' then [Open_at f m] else [])"

lemma open_plan_ok:
  assumes "name_ok q hosts names n" and "plain_mode m" and "k \<in> set hosts"
  shows "all_ok (store_ok p (q k) names) store_do (open_plan hosts F n m k) (F k)"
    and "snd (run_spec store_do (open_plan hosts F n m k) (F k)) = F k"
  using assms by (auto simp: open_plan_def store_ok_def name_ok.simps split: name.splits)

lemma target_Plain: "target hosts F (Plain f) = Some k \<longleftrightarrow> filter (has F f) hosts = [k]"
  by (auto split: list.splits)

lemma target_has: "target hosts F n = Some k \<Longrightarrow> k \<in> set hosts \<and> has F (name_file n) k"
proof (cases n)
  case (Plain f)
  assume "target hosts F n = Some k"
  then have "k \<in> set (filter (has F f) hosts)" using Plain target_Plain by (metis list.set_intros(1))
  then show ?thesis using Plain by simp
qed (simp split: if_splits)

lemma open_simulated:
  assumes "related q hosts names files st rm ag" and "fs_ok p q hosts names (Open_call n m) ag"
    and "aggregate_do hosts (Open_call n m) ag = (r, ag')"
  shows "\<exists>st' rm'. world_call (fs_op p net (Open_call n m)) st rm r st' rm' \<and>
           related q hosts names files st' rm' ag'"
proof -
  note rel = relatedD [OF assms(1)]
  have n: "name_ok q hosts names n" and m: "plain_mode m" using assms(2) by simp_all
  let ?f = "name_file n" and ?F = "ag_files ag"
  let ?t = "target hosts ?F n" and ?plan = "open_plan hosts ?F n m"
  let ?new = "case ?t of None \<Rightarrow> [] | Some k \<Rightarrow> [Some \<lparr>fh_server = k, fh_file = ?f\<rparr>]"
  have r: "r = (case ?t of None \<Rightarrow> Opened (- ENOENT) 0 | Some k \<Rightarrow> Opened 0 (Suc (length (ag_handles ag))))"
    "ag' = ag\<lparr>ag_handles := ag_handles ag @ ?new\<rparr>"
    using assms(3) by (auto split: option.splits)
  have "ag_ok q hosts names ag'"
    using rel(4) n target_has [of hosts ?F n] by (auto simp: ag_ok_def r(2) name_ok.simps split: option.splits)
  note ag' = this
  show ?thesis
  proof (rule simulated [OF assms(1), where plan = ?plan and upd = "\<lambda>st. st\<lparr>handles := handles st @ ?new\<rparr>"])
    fix f f'
    assume f: "\<And>k. k \<in> set hosts \<Longrightarrow> healthy (f k) \<and> \<not> closed (f k) \<and>
        run_calls (store_op p) (?plan k) (f k) = Some (fst (run_spec store_do (?plan k) (?F k)), f' k)"
    have live: "connected (f k)" if "k \<in> set hosts" for k using f [OF that] by (simp add: healthy_live)
    let ?st = "st\<lparr>connections := table hosts f\<rparr>"
    show "fs_op p net (Open_call n m) ?st =
        Some (r, (st\<lparr>handles := handles st @ ?new\<rparr>)\<lparr>connections := table hosts f'\<rparr>)"
    proof (cases n)
      case (Tagged g k)
      have open_call: "agfs_open p (name_path n) m 0 ?st = Some (open_on p k ?f m 0 ?st)"
        using n name_parsed [OF n] Tagged by (simp add: agfs_open_def name_ok.simps)
      have rest: "f' j = f j" if "j \<in> set hosts" "j \<noteq> k" for j
        using f [OF that(1)] that(2) by (simp add: open_plan_def Tagged)
      show ?thesis
      proof (cases "k \<in> set hosts")
        case True
        have "run_calls (store_op p) [Open_at g m] (f k) =
            Some ([Status (if has ?F g k then 0 else missing)], f' k)"
          using f [OF True] by (auto simp: open_plan_def Tagged simp del: run_calls.simps)
        then have "open_file p ?f m (f k) = (if has ?F g k then 0 else missing, f' k)"
          using Tagged run_calls_single(3) by simp
        from open_on_table [where f = f and f' = f' and k = k, OF rel(1) True live [OF True] this rest, of st] show ?thesis
          using open_call r(1) rel(3) True Tagged by auto
      next
        case False
        have "table hosts f = table hosts f'" using False by (intro table_cong sym [OF rest]) auto
        then show ?thesis
          using open_call r(1) False Tagged by (simp add: open_on_def map_find_table)
      qed
    next
      case (Plain g)
      define f1 where "f1 k = snd (access p g F_OK (f k))" for k
      let ?opens = "\<lambda>k. if ?t = Some k then [Open_at g m] else []"
      have calls: "access p g F_OK (f k) = (if has ?F g k then 0 else -1, f1 k) \<and>
          run_calls (store_op p) (?opens k) (f1 k) = Some (fst (run_spec store_do (?opens k) (?F k)), f' k)"
        if "k \<in> set hosts" for k
      proof -
        have "run_calls (store_op p) (Exists g # ?opens k) (f k) =
            Some (Status (if has ?F g k then 0 else -1) # fst (run_spec store_do (?opens k) (?F k)), f' k)"
          using f [OF that] by (simp add: open_plan_def Plain split_beta Let_def del: run_calls.simps target.simps)
        then show ?thesis unfolding f1_def by (rule run_calls_Exists)
      qed
      note asked = calls [THEN conjunct1] and after = calls [THEN conjunct2]
      have rest: "f' k = f1 k" if "k \<in> set hosts" "?t \<noteq> Some k" for k
        using after [OF that(1)] that(2) by simp
      have opened: "open_file p g m (f1 k) = (0, f' k)" if "?t = Some k" for k
      proof -
        have "k \<in> set hosts" "has ?F g k" using target_has [OF that] Plain by simp_all
        then have "run_calls (store_op p) [Open_at g m] (f1 k) = Some ([Status 0], f' k)"
          using after [of k] that by (auto simp del: run_calls.simps target.simps)
        then show ?thesis by (rule run_calls_single(3))
      qed
      have live1: "connected (f1 k)" if "k \<in> set hosts" for k
        using access.op_connected [of p g F_OK "f k"] live [OF that] by (simp add: f1_def prod_eq_iff)
      have check: "checkExistance p (name_path n) ?st = (filter (has ?F g) hosts, st\<lparr>connections := table hosts f1\<rparr>)"
        using existance_table [of hosts p g f "has ?F g" f1] asked by (simp add: checkExistance_def Plain)
      have open_call: "agfs_open p (name_path n) m 0 ?st =
          Some (if length (filter (has ?F g) hosts) \<noteq> 1 then ((- ENOENT, 0), st\<lparr>connections := table hosts f1\<rparr>)
                else open_on p (filter (has ?F g) hosts ! 0) g m 0 (st\<lparr>connections := table hosts f1\<rparr>))"
        using name_parsed [OF n] check Plain by (simp add: agfs_open_def)
      show ?thesis
      proof (cases ?t)
        case None
        then have "length (filter (has ?F g) hosts) \<noteq> 1"
          using Plain by (auto simp: length_Suc_conv)
        moreover have "table hosts f1 = table hosts f'" using rest None by (intro table_cong) simp
        ultimately show ?thesis using open_call r(1) None by simp
      next
        case (Some k)
        then have one: "filter (has ?F g) hosts = [k]" using Plain target_Plain by metis
        have k: "k \<in> set hosts" using target_has [OF Some] by simp
        have "open_file p g m (f1 k) = (if True then 0 else missing, f' k)" using opened [OF Some] by simp
        from open_on_table [where f = f1 and f' = f' and k = k, OF rel(1) k live1 [OF k] this, of st] rest show ?thesis
          using open_call r(1) rel(3) Some one Plain by auto
      qed
    qed
  next
    fix k
    assume k: "k \<in> set hosts"
    show "all_ok (store_ok p (q k) names) store_do (?plan k) (ag_files ag k)"
      by (rule open_plan_ok(1) [OF n m k])
    show "snd (run_spec store_do (?plan k) (ag_files ag k)) = ag_files ag' k"
      using open_plan_ok(2) [OF n m k] by (simp add: r(2))
  qed (use rel(3) ag' in \<open>simp_all add: r(2)\<close>)
qed

lemma call_simulated:
  assumes "related q hosts names files st rm ag" and "fs_ok p q hosts names call ag"
    and "aggregate_do hosts call ag = (r, ag')"
  shows "\<exists>st' rm'. world_call (fs_op p net call) st rm r st' rm' \<and> related q hosts names files st' rm' ag'"
proof (cases call)
  case (Open_call n m)
  show ?thesis using assms unfolding Open_call by (rule open_simulated)
next
  case (Read_call fh buf off)
  show ?thesis using assms unfolding Read_call by (rule read_simulated)
next
  case (Write_call fh buf off)
  show ?thesis using assms unfolding Write_call by (rule write_simulated)
next
  case (Release_call fh)
  show ?thesis using assms unfolding Release_call by (rule release_simulated)
next
  case (Getattr_call n)
  show ?thesis using assms unfolding Getattr_call by (rule getattr_simulated)
next
  case (Access_call n)
  show ?thesis using assms unfolding Access_call by (rule access_simulated)
next
  case (Thread_call k)
  show ?thesis using assms unfolding Thread_call by (rule thread_simulated)
qed

text \<open>
  The program starts as the aggregate without handles, when the connections that it has made
  are up and the processes at their other ends serve stores.
\<close>

lemma main_related:
  assumes "\<forall>e \<in> set keydir. network_ok (de_network e)"
    and "st = agfs_main p extension keydir" and "hosts = map fst (connections st)" and "'''' \<notin> set hosts"
    and "\<And>k c. map_find (connections st) k = Some c \<Longrightarrow> linked q names files rm F k c"
  shows "related q hosts names files st rm \<lparr>ag_files = F, ag_handles = []\<rparr>"
proof -
  have ok: "map_ok (connections st)"
    using main_ok [OF assms(1), of p extension] by (simp add: assms(2) mount_ok_def table_ok_def)
  let ?c = "\<lambda>k. the (map_find (connections st) k)"
  have conns: "connections st = table hosts ?c" using table_of_map [OF ok] assms(3) by simp
  have "heartbeatThreads st = map (\<lambda>(k, c). (k, Check)) (connections st)"
    by (simp add: assms(2) agfs_main_def Let_def)
  also have "\<dots> = table hosts (\<lambda>k. Check)" by (subst conns) (simp add: table_def comp_def)
  finally have threads: "heartbeatThreads st = table hosts (\<lambda>k. Check)" .
  have "linked q names files rm F k (?c k)" if "k \<in> set hosts" for k
  proof -
    have "map_find (connections st) k = Some (?c k)"
      using that by (subst (1) conns) (simp add: map_find_table)
    then show ?thesis by (rule assms(5))
  qed
  moreover have "sorted_wrt (<) hosts" using ok by (simp add: map_ok_def assms(3))
  moreover have "handles st = []" by (simp add: assms(2) agfs_main_def Let_def)
  ultimately show ?thesis
    unfolding related_def using assms(4) conns threads
    by (intro conjI exI [of _ ?c] exI [of _ "\<lambda>k. Check"]) (simp_all add: ag_ok_def)
qed

text \<open>Every call is a step of the mount.\<close>

lemma fs_op_step:
  assumes "fs_op p net call st = Some (r, st')" and "\<not> unmounted st" and "network_ok net"
  shows "mount_step p st st'"
  using assms
  by (cases call)
     (auto simp: thread_op_def bind_eq_Some_conv split_beta Let_def prod_eq_iff
       intro: mount_step.intros(1-7) mount_step.thread)

text \<open>A run of the whole follows the calls one by one.\<close>

lemma run_simulated:
  assumes "related q hosts names files st rm ag"
    and "all_ok (fs_ok p q hosts names) (aggregate_do hosts) calls ag"
    and "run_spec (aggregate_do hosts) calls ag = (rs, ag')"
  shows "\<exists>st' rm'. world_run p net calls st rm rs st' rm' \<and> related q hosts names files st' rm' ag'"
  using assms
proof (induction calls arbitrary: st rm ag rs)
  case Nil
  then show ?case using world_run.quiet by fastforce
next
  case (Cons call calls)
  from Cons.prems(3) obtain r ag1 rs' where
    run: "aggregate_do hosts call ag = (r, ag1)" "run_spec (aggregate_do hosts) calls ag1 = (rs', ag')" "rs = r # rs'"
    by (rule run_spec_Cons)
  have ok: "fs_ok p q hosts names call ag" "all_ok (fs_ok p q hosts names) (aggregate_do hosts) calls ag1"
    using Cons.prems(2) run(1) by simp_all
  obtain st1 rm1 where one: "world_call (fs_op p net call) st rm r st1 rm1" "related q hosts names files st1 rm1 ag1"
    using call_simulated [OF Cons.prems(1) ok(1) run(1)] by blast
  obtain st' rm' where "world_run p net calls st1 rm1 rs' st' rm'" "related q hosts names files st' rm' ag'"
    using Cons.IH [OF one(2) ok(2) run(2)] by blast
  then show ?case
    using world_run.then_call [OF one(1)] run(3) by blast
qed

section \<open>Properties\<close>

text \<open>C3: The mounted file system is one store: as long as the connections are up, any sequence of
  calls (\<^verbatim>\<open>open\<close>, \<^verbatim>\<open>read\<close>, \<^verbatim>\<open>write\<close>, \<^verbatim>\<open>release\<close>, \<^verbatim>\<open>getattr\<close>, \<^verbatim>\<open>access\<close> and steps of the
  heartbeat threads), on names with and without tags and on any handles, with the processes of
  all servers answering in turns of their command loops, returns what the sequence returns on
  the aggregate of the servers' stores. A name without a tag is opened on the only server that
  has it, and is \<^verbatim>\<open>ENOENT\<close> when none or several have it; a read or write through a handle is
  one of the bytes of that file on that server, and of no other file; and afterwards the
  system stands for the aggregate that is left, with nothing left over on any connection.\<close>

theorem aggregate_refined:
  assumes "related q hosts names files st rm ag"
    and "all_ok (fs_ok p q hosts names) (aggregate_do hosts) calls ag"
    and "run_spec (aggregate_do hosts) calls ag = (rs, ag')"
  shows "\<exists>st' rm'. world_run p net calls st rm rs st' rm' \<and> related q hosts names files st' rm' ag'"
  using assms by (rule run_simulated)

text \<open>Two servers, one with the files \<^verbatim>\<open>/a\<close> and \<^verbatim>\<open>/b\<close>, the other with \<^verbatim>\<open>/b\<close> only.\<close>

definition second_table :: store where
  "second_table path = (if path = ''/m/b'' then Some [4, 5] else None)"

definition two_stores :: mount where
  "two_stores = \<lparr>connections = table [''h1'', ''h2''] (\<lambda>k. open_client), handles = [],
     heartbeatThreads = table [''h1'', ''h2''] (\<lambda>k. Check), unmounted = False\<rparr>"

definition two_processes :: "string \<Rightarrow> (store \<times> string \<times> nat) remote" where
  "two_processes k = \<lparr>rm_os = store_os, rm_plat = ppc,
     rm_process = store_server (if k = ''h1'' then example_table else second_table)\<rparr>"

definition two_files :: "string \<Rightarrow> store" where
  "two_files k = under ''/m'' (if k = ''h1'' then example_table else second_table)"

lemma second_files [simp]:
  "under ''/m'' second_table ''/a'' = None" "under ''/m'' second_table ''/b'' = Some [4, 5]"
  by (simp_all add: under_def second_table_def)

lemma two_related:
  "related (\<lambda>k. ppc) [''h1'', ''h2''] names (\<lambda>k. store_files) two_stores two_processes
     \<lparr>ag_files = two_files, ag_handles = []\<rparr>"
proof -
  have "linked (\<lambda>k. ppc) names (\<lambda>k. store_files) two_processes two_files k open_client" for k
    using store_server_ready [of names]
    by (simp add: linked_def two_processes_def two_files_def closed_def open_client_def idle_client_def
          healthy_def live_def)
  then show ?thesis
    unfolding related_def
    by (intro conjI exI [of _ "\<lambda>k. open_client"] exI [of _ "\<lambda>k. Check"]) (simp_all add: two_stores_def ag_ok_def)
qed

theorem aggregate_refined_witness:
  "\<exists>st' rm'. world_run x86 (answering cmd_ACCEPT)
     [Open_call (Plain ''/a'') 0, Open_call (Plain ''/b'') 0, Open_call (Tagged ''/b'' ''h2'') 1,
      Thread_call ''h1'', Write_call 2 [7] 3, Read_call 1 [0, 0] 1, Getattr_call (Plain ''/b''), Thread_call ''h1'',
      Release_call 1]
     two_stores two_processes
     [Opened 0 1, Opened (-2) 0, Opened 0 2, Ticked, Result 1, Got 2 [2, 3], Attr 0 0, Ticked, Result 0] st' rm' \<and>
     store_files (cc_host (rm_process (rm' ''h2''))) ''/b'' = Some [4, 5, 0, 7]"
proof -
  let ?calls = "[Open_call (Plain ''/a'') 0, Open_call (Plain ''/b'') 0, Open_call (Tagged ''/b'' ''h2'') 1,
      Thread_call ''h1'', Write_call 2 [7] 3, Read_call 1 [0, 0] 1, Getattr_call (Plain ''/b''), Thread_call ''h1'',
      Release_call 1]"
  let ?hosts = "[''h1'', ''h2'']" and ?names = "{''/a'', ''/b''}" and ?ag = "\<lparr>ag_files = two_files, ag_handles = []\<rparr>"
  let ?rs = "[Opened 0 1, Opened (-2) 0, Opened 0 2, Ticked, Result 1, Got 2 [2, 3], Attr 0 0, Ticked, Result 0]"
  have files: "two_files ''h1'' ''/a'' = Some [1, 2, 3]" "two_files ''h1'' ''/b'' = Some []"
    "two_files ''h2'' ''/a'' = None" "two_files ''h2'' ''/b'' = Some [4, 5]"
    by (simp_all add: two_files_def)
  have names: "name_ok (\<lambda>k. ppc) ?hosts ?names (Plain ''/a'')" "name_ok (\<lambda>k. ppc) ?hosts ?names (Plain ''/b'')"
    "name_ok (\<lambda>k. ppc) ?hosts ?names (Tagged ''/b'' ''h2'')"
    by (simp_all add: name_ok.simps clean_name_def clean_server_def BEGIN_BRACE_def END_BRACE_def path_ok_def
          string_ok_def NUL_def MAX_RW_def)
  have ok: "all_ok (fs_ok x86 (\<lambda>k. ppc) ?hosts ?names) (aggregate_do ?hosts) ?calls ?ag"
    using names files
    by (simp add: plain_mode_def O_RDONLY_def O_WRONLY_def ag_handle_def ag_content_def put_content_def MAX_RW_def)
  obtain ag' where run: "run_spec (aggregate_do ?hosts) ?calls ?ag = (?rs, ag')"
    and ag': "ag_files ag' ''h2'' ''/b'' = Some [4, 5, 0, 7]"
    using files
    by (simp add: ag_handle_def ag_content_def put_content_def put_at_def ENOENT_def)
  obtain st' rm' where r: "world_run x86 (answering cmd_ACCEPT) ?calls two_stores two_processes ?rs st' rm'"
    "related (\<lambda>k. ppc) ?hosts ?names (\<lambda>k. store_files) st' rm' ag'"
    using aggregate_refined [OF two_related ok run] by blast
  from r(2) have "store_files (cc_host (rm_process (rm' ''h2''))) = ag_files ag' ''h2''"
    by (auto simp: related_def linked_def store_ready_def)
  then have "store_files (cc_host (rm_process (rm' ''h2''))) ''/b'' = Some [4, 5, 0, 7]" using ag' by simp
  with r(1) show ?thesis by (intro exI conjI)
qed

end
