(* ===== verification/Agfsd.thy ===== *)
theory Agfsd
  imports Serving
begin

text \<open>
  \<^verbatim>\<open>agfsd.cpp\<close>: the daemon that accepts connections and forks a process for each. The
  results of the system calls are parameters. The daemon never ends its loop; a list of what
  \<^verbatim>\<open>accept\<close> and \<^verbatim>\<open>fork\<close> return is the part of its life that has happened so far.
\<close>

section \<open>Listening\<close>

record port_calls =
  pc_getaddrinfo :: int
  pc_socket :: int
  pc_setsockopt :: int
  pc_bind :: int
  pc_listen :: int

definition openPort :: "port_calls \<Rightarrow> int" where
  "openPort calls =
     (if pc_getaddrinfo calls \<noteq> 0 then -2
      else (let listenfd = pc_socket calls in
            if listenfd = -1 then -1
            else if pc_setsockopt calls = -1 then -1
            else if pc_bind calls = -1 then -1
            else if pc_listen calls = -1 then -1
            else listenfd))"

section \<open>A client's process\<close>

text \<open>The process that is forked for the connection \<open>connfd\<close>.\<close>

definition run_child ::
  "'h os \<Rightarrow> plat \<Rightarrow> int \<Rightarrow> 'h client_connection \<Rightarrow> 'h client_connection option" where
  "run_child os p connfd c = do {
     client \<leftarrow> new_client_connection os p connfd c;
     if connected client then processCommands os p client else Some client }"

section \<open>The loop\<close>

text \<open>
  One turn: the descriptor that \<^verbatim>\<open>accept\<close> returned, whether \<^verbatim>\<open>fork\<close> failed, and the state in
  which the child, if there is one, finds its socket and the system.
\<close>

record 'h arrival =
  ar_connfd :: int
  ar_fork_fails :: bool
  ar_child :: "'h client_connection"

text \<open>\<open>fds\<close> are the descriptors that the daemon holds, \<open>children\<close> how its children end.\<close>

fun accept_loop ::
  "'h os \<Rightarrow> plat \<Rightarrow> int list \<Rightarrow> 'h client_connection option list \<Rightarrow> 'h arrival list \<Rightarrow>
     int list \<times> 'h client_connection option list" where
  "accept_loop os p fds children [] = (fds, children)"
| "accept_loop os p fds children (a # as) =
     (let connfd = ar_connfd a in
      if connfd = -1 then accept_loop os p fds children as
      else
        (let fds = connfd # fds;
             children = (if ar_fork_fails a then children
                         else children @ [run_child os p connfd (ar_child a)]);
             fds = removeAll connfd fds
         in accept_loop os p fds children as))"

text \<open>The exit status when the daemon gives up, or the state of its loop.\<close>

definition agfsd ::
  "'h os \<Rightarrow> plat \<Rightarrow> string list \<Rightarrow> int \<Rightarrow> port_calls \<Rightarrow> 'h arrival list \<Rightarrow>
     int + int list \<times> 'h client_connection option list" where
  "agfsd os p argv setuid_result calls arrivals =
     (if length argv \<noteq> 2 then Inl 0
      else if setuid_result = -1 then Inl 1
      else (let lfd = openPort calls in
            if lfd < 0 then Inl 1 else Inr (accept_loop os p [lfd] [] arrivals)))"

section \<open>Properties\<close>

lemma openPort_listening:
  "0 \<le> openPort calls \<Longrightarrow> pc_getaddrinfo calls = 0 \<and> openPort calls = pc_socket calls \<and>
     pc_setsockopt calls \<noteq> -1 \<and> pc_bind calls \<noteq> -1 \<and> pc_listen calls \<noteq> -1"
  by (auto simp: openPort_def Let_def split: if_splits)

text \<open>
  The constructor either gives the connection up, with the socket closed, or keeps it as it
  is.
\<close>

lemma constructor_outcome:
  assumes "new_client_connection os p connfd c = Some c'" and "0 \<le> connfd" and "sock_open c"
  shows "conn_ok c' \<and> (connected c' \<longrightarrow> socket c' = connfd)"
proof -
  obtain r key s where read: "agfs_read_string p connfd '''' c = Some ((r, key), s)"
    using assms(1) by (cases "agfs_read_string p connfd '''' c") (auto simp: new_client_connection_def)
  have s: "sock_open s" using io_frame_read_string [OF read] assms(3) by (simp add: io_frame_def)
  have closed: "conn_ok (reject p connfd cmd c1)" "\<not> connected (reject p connfd cmd c1)"
    for cmd and c1 :: "'a client_connection"
    using reject_closed [OF assms(2), of p cmd c1] by (simp_all add: conn_ok_def)
  show ?thesis
    using assms(1,2) read s closed
    by (auto simp: new_client_connection_def os_query_def bind_eq_Some_conv c_setuid_def c_setgid_def
          conn_ok_def connected_def Let_def split: if_splits option.splits prod.splits)
qed

lemma run_child_closed:
  assumes "run_child os p connfd c = Some c'" and "0 \<le> connfd" and "sock_open c"
  shows "\<not> sock_open c' \<and> \<not> connected c'"
proof -
  obtain c1 where c1: "new_client_connection os p connfd c = Some c1"
    and c': "(if connected c1 then processCommands os p c1 else Some c1) = Some c'"
    using assms(1) by (auto simp: run_child_def bind_eq_Some_conv)
  have "conn_ok c1" using constructor_outcome [OF c1 assms(2,3)] by simp
  then show ?thesis
    using c' processCommands_closed [of c1 os p c'] by (auto simp: conn_ok_def split: if_splits)
qed

text \<open>
  A descriptor that \<^verbatim>\<open>accept\<close> returns is not one the daemon holds already; so the daemon
  holds nothing but its listening socket, however many clients have come.
\<close>

lemma accept_loop_fds:
  assumes "\<forall>a \<in> set as. ar_connfd a \<noteq> lfd"
  shows "fst (accept_loop os p [lfd] children as) = [lfd]"
  using assms by (induction as arbitrary: children) (auto simp: Let_def)

lemma accept_loop_children:
  assumes "\<forall>a \<in> set as. - 1 \<le> ar_connfd a \<and> sock_open (ar_child a)"
    and "Some c \<in> set (snd (accept_loop os p fds children as))"
  shows "Some c \<in> set children \<or> (\<not> sock_open c \<and> \<not> connected c)"
  using assms
proof (induction as arbitrary: fds children)
  case (Cons a as)
  show ?case
  proof (cases "ar_connfd a = -1 \<or> ar_fork_fails a")
    case True
    then show ?thesis
      using Cons.IH [of fds children] Cons.IH [of "removeAll (ar_connfd a) (ar_connfd a # fds)" children]
        Cons.prems by (auto simp: Let_def split: if_splits)
  next
    case False
    then have "0 \<le> ar_connfd a" using Cons.prems(1) by force
    then show ?thesis
      using Cons.IH [of "removeAll (ar_connfd a) (ar_connfd a # fds)"
          "children @ [run_child os p (ar_connfd a) (ar_child a)]"] Cons.prems False
        run_child_closed [of os p "ar_connfd a" "ar_child a" c]
      by (auto simp: Let_def)
  qed
qed simp

text \<open>C40: The daemon's descriptors: whatever \<^verbatim>\<open>accept\<close> and \<^verbatim>\<open>fork\<close> return, a daemon that runs
  holds its listening socket and no other descriptor, however many clients have come; and the
  process of every client whose life has ended, after its key was refused, after \<^verbatim>\<open>STOP\<close> or
  after missed beats, has closed its socket. There are never more processes than clients.\<close>

theorem daemon_descriptors:
  assumes "agfsd os p argv setuid_result calls arrivals = Inr (fds, children)"
    and "\<forall>a \<in> set arrivals. - 1 \<le> ar_connfd a \<and> ar_connfd a \<noteq> pc_socket calls \<and> sock_open (ar_child a)"
  shows "fds = [pc_socket calls] \<and> 0 \<le> pc_socket calls \<and>
         (\<forall>c. Some c \<in> set children \<longrightarrow> \<not> sock_open c \<and> \<not> connected c) \<and>
         length children = length (filter (\<lambda>a. ar_connfd a \<noteq> - 1 \<and> \<not> ar_fork_fails a) arrivals)"
proof -
  have "0 \<le> openPort calls" and run: "accept_loop os p [openPort calls] [] arrivals = (fds, children)"
    using assms(1) by (auto simp: agfsd_def Let_def split: if_splits)
  then have lfd: "openPort calls = pc_socket calls" "0 \<le> pc_socket calls"
    using openPort_listening [of calls] by simp_all
  have "length (snd (accept_loop os p fds cs as)) =
      length cs + length (filter (\<lambda>a. ar_connfd a \<noteq> - 1 \<and> \<not> ar_fork_fails a) as)" for fds cs as
    by (induction as arbitrary: fds cs) (auto simp: Let_def)
  from this [of "[openPort calls]" "[]" arrivals]
  have "length children = length (filter (\<lambda>a. ar_connfd a \<noteq> - 1 \<and> \<not> ar_fork_fails a) arrivals)"
    using run by simp
  moreover have "fds = [pc_socket calls]"
    using accept_loop_fds [of arrivals "pc_socket calls" os p "[]"] assms(2) run lfd by simp
  ultimately show ?thesis
    using accept_loop_children [of arrivals _ os p "[openPort calls]" "[]"] assms(2) run lfd by auto
qed

theorem daemon_descriptors_witness:
  "\<exists>children. agfsd file_os x86 [''agfsd'', ''4000''] 0
     \<lparr>pc_getaddrinfo = 0, pc_socket = 3, pc_setsockopt = 0, pc_bind = 0, pc_listen = 0\<rparr>
     [\<lparr>ar_connfd = 4, ar_fork_fails = False, ar_child = forked ''K''\<rparr>,
      \<lparr>ar_connfd = 4, ar_fork_fails = True, ar_child = forked ''J''\<rparr>] = Inr ([3], children) \<and>
     length children = 1 \<and> filter (\<lambda>c. c \<noteq> None \<and> sock_open (the c)) children = []"
proof -
  let ?calls = "\<lparr>pc_getaddrinfo = 0, pc_socket = 3, pc_setsockopt = 0, pc_bind = 0, pc_listen = 0\<rparr>"
  let ?as = "[\<lparr>ar_connfd = 4, ar_fork_fails = False, ar_child = forked ''K''\<rparr>,
      \<lparr>ar_connfd = 4, ar_fork_fails = True, ar_child = forked ''J''\<rparr>]"
  have "\<exists>r. agfsd file_os x86 [''agfsd'', ''4000''] 0 ?calls ?as = Inr r"
    by (simp add: agfsd_def openPort_def Let_def del: accept_loop.simps)
  then obtain fds children where run: "agfsd file_os x86 [''agfsd'', ''4000''] 0 ?calls ?as = Inr (fds, children)"
    by (metis prod.exhaust)
  have "sock_open (forked key)" for key by (simp add: forked_def file_server_def)
  then have "\<forall>a \<in> set ?as. - 1 \<le> ar_connfd a \<and> ar_connfd a \<noteq> pc_socket ?calls \<and> sock_open (ar_child a)"
    by simp
  note ends = daemon_descriptors [OF run this]
  have "fds = [3]" and "length children = 1" using ends by simp_all
  moreover have "filter (\<lambda>c. c \<noteq> None \<and> sock_open (the c)) children = []"
    using ends by (auto simp: filter_empty_conv)
  ultimately show ?thesis using run by (intro exI [of _ children]) (simp only:)
qed

end
