(* ===== verification/DisamSpec.thy ===== *)
theory DisamSpec
  imports Disambiguater
begin

text \<open>
  The disambiguater as an abstract catalogue: for each path the servers that have the file, in
  the order they were added, and the metadata of the directory. The two sorted maps implement
  it operation by operation, and the listing is a function of the catalogue.
\<close>

section \<open>The catalogue\<close>

type_synonym catalogue = "(string \<Rightarrow> (string \<times> stat) list) \<times> (string \<Rightarrow> stat option)"

definition no_entries :: catalogue where
  "no_entries = (\<lambda>path. [], \<lambda>path. None)"

fun add_entry :: "string \<times> stat \<Rightarrow> string \<Rightarrow> catalogue \<Rightarrow> agerr_t \<times> catalogue" where
  "add_entry (path, st) server (files, dirs) =
     (if S_ISDIR (st_mode st) then (0, files, dirs(path \<mapsto> st))
      else if server \<in> fst ` set (files path) then (word_of_int (- EEXIST), files, dirs)
      else (0, files(path := files path @ [(server, st)]), dirs))"

fun add_entries :: "(string \<times> stat) list \<Rightarrow> string \<Rightarrow> catalogue \<Rightarrow> agerr_t \<times> catalogue" where
  "add_entries [] server cat = (0, cat)"
| "add_entries (v # vs) server cat =
     (case add_entry v server cat of
        (err, cat) \<Rightarrow> if neg_err err then (err, cat) else add_entries vs server cat)"

definition catalogue_of :: "disambiguater \<Rightarrow> catalogue" where
  "catalogue_of d = (files_of d, dir_of d)"

lemma catalogue_put:
  "catalogue_of (d\<lparr>filemap := map_put path servers (filemap d)\<rparr>) =
     ((files_of d)(path := servers), dir_of d)"
  "catalogue_of (d\<lparr>directorymap := map_put path st (directorymap d)\<rparr>) =
     (files_of d, (dir_of d)(path \<mapsto> st))"
  by (auto simp: catalogue_of_def)

lemma catalogue_empty: "catalogue_of new_disambiguater = no_entries" "catalogue_of (clearPaths d) = no_entries"
  by (auto simp: catalogue_of_def no_entries_def files_of_def dir_of_def map_at_def
        new_disambiguater_def clearPaths_def)

section \<open>Every operation implements its specification\<close>

lemma add_stat_refines:
  assumes "disam_ok d"
  shows "map_prod id catalogue_of (addFilepath_stat v server d) = add_entry v server (catalogue_of d)"
proof (cases v)
  case (Pair path st)
  consider "S_ISDIR (st_mode st)"
    | "\<not> S_ISDIR (st_mode st)" "server \<in> fst ` set (files_of d path)"
    | "\<not> S_ISDIR (st_mode st)" "server \<notin> fst ` set (files_of d path)"
    by blast
  then show ?thesis
    by cases (simp_all add: Pair assms addFilepath_stat_cases catalogue_put, simp_all add: catalogue_of_def)
qed

lemma eexist_neg_minus [simp]: "neg_err (- word_of_int EEXIST)"
  by (simp add: EEXIST_def)

lemma zero_stat_file: "\<not> S_ISDIR (st_mode zero_stat)"
  by (simp add: S_ISDIR_def zero_stat_def)

lemma add_name_refines:
  assumes "disam_ok d"
  shows "map_prod id catalogue_of (addFilepath_name path server d) =
         add_entry (path, zero_stat) server (catalogue_of d)"
  using assms zero_stat_file
  by (cases "server \<in> fst ` set (files_of d path)")
     (simp_all add: addFilepath_name_eq catalogue_put, simp_all add: catalogue_of_def)

text \<open>The result of an addition is an error or 0, so the loops hand on nothing else.\<close>

lemma add_entry_result: "fst (add_entry v server cat) = 0 \<or> neg_err (fst (add_entry v server cat))"
  by (cases v; cases cat) simp

lemma add_stats_refines:
  assumes "disam_ok d"
  shows "map_prod id catalogue_of (addFilepaths_stat_loop 0 vs server d) = add_entries vs server (catalogue_of d)"
  using assms
proof (induction vs arbitrary: d)
  case (Cons v vs)
  obtain err d1 where a: "addFilepath_stat v server d = (err, d1)" by fastforce
  have s: "add_entry v server (catalogue_of d) = (err, catalogue_of d1)"
    using add_stat_refines [OF Cons.prems, of v server] a by simp
  have "disam_ok d1" using disam_ok_addFilepath_stat [OF Cons.prems, of v server] a by simp
  then show ?case
    using Cons.IH [of d1] a s add_entry_result [of v server "catalogue_of d"] by auto
qed simp

lemma add_names_refines:
  assumes "disam_ok d"
  shows "map_prod id catalogue_of (addFilepaths_name_loop 0 paths server d) =
         add_entries (map (\<lambda>path. (path, zero_stat)) paths) server (catalogue_of d)"
  using assms
proof (induction paths arbitrary: d)
  case (Cons path paths)
  obtain err d1 where a: "addFilepath_name path server d = (err, d1)" by fastforce
  have s: "add_entry (path, zero_stat) server (catalogue_of d) = (err, catalogue_of d1)"
    using add_name_refines [OF Cons.prems, of path server] a by simp
  have "disam_ok d1" using disam_ok_addFilepath_name [OF Cons.prems, of path server] a by simp
  then show ?case
    using Cons.IH [of d1] a s add_entry_result [of "(path, zero_stat)" server "catalogue_of d"]
    by (auto simp del: add_entry.simps)
qed simp

section \<open>The listing is a function of the catalogue\<close>

lemma filemap_by_files:
  assumes "disam_ok d"
  shows "map_find (filemap d) path = (if files_of d path = [] then None else Some (files_of d path))"
  using disam_ok_files [OF assms, of path]
  by (cases "map_find (filemap d) path") (auto simp: files_of_def map_at_def)

lemma catalogue_inj:
  assumes "disam_ok d" and "disam_ok d'" and "catalogue_of d = catalogue_of d'"
  shows "filemap d = filemap d'" and "directorymap d = directorymap d'"
proof -
  have same: "files_of d = files_of d'" "dir_of d = dir_of d'"
    using assms(3) by (simp_all add: catalogue_of_def)
  show "filemap d = filemap d'"
    using assms(1,2) same(1)
    by (intro smap.entries_ext disam_ok_maps) (simp_all add: filemap_by_files)
  show "directorymap d = directorymap d'"
    using assms(1,2) same(2)
    by (intro smap.entries_ext disam_ok_maps) (simp_all add: dir_of_def fun_eq_iff)
qed

section \<open>Properties\<close>

text \<open>C15: The disambiguater implements the catalogue: each of its operations, single additions with
  and without metadata, whole listings, the clearing and the constructor, does to the two
  sorted maps what its specification does to the abstract catalogue, and returns the same
  error, also when a listing is given up in the middle.\<close>

theorem disambiguater_refines:
  assumes "disam_ok d"
  shows "map_prod id catalogue_of (addFilepath_stat v server d) = add_entry v server (catalogue_of d) \<and>
         map_prod id catalogue_of (addFilepath_name path server d) =
           add_entry (path, zero_stat) server (catalogue_of d) \<and>
         map_prod id catalogue_of (addFilepaths_stat vs server d) = add_entries vs server (catalogue_of d) \<and>
         map_prod id catalogue_of (addFilepaths_name paths server d) =
           add_entries (map (\<lambda>path. (path, zero_stat)) paths) server (catalogue_of d) \<and>
         catalogue_of (clearPaths d) = no_entries \<and> catalogue_of new_disambiguater = no_entries"
  unfolding addFilepaths_stat_def addFilepaths_name_def
  using add_stat_refines add_name_refines add_stats_refines add_names_refines catalogue_empty assms
  by (intro conjI) blast+

theorem disambiguater_refines_witness:
  "fst (addFilepaths_name [''b'', ''a''] ''h1'' two_servers) = word_of_int (- EEXIST) \<and>
   files_of (snd (addFilepaths_name [''b'', ''a''] ''h1'' two_servers)) ''b'' = [(''h1'', zero_stat)]"
proof -
  have "map_prod id catalogue_of (addFilepaths_name [''b'', ''a''] ''h1'' two_servers) =
      add_entries [(''b'', zero_stat), (''a'', zero_stat)] ''h1'' (catalogue_of two_servers)"
    using disambiguater_refines [OF two_servers_ok(1), of _ "''h1''" _ _ "[''b'', ''a'']"] by simp
  also have "\<dots> = (word_of_int (- EEXIST),
      (files_of two_servers)(''b'' := [(''h1'', zero_stat)]), dir_of two_servers)"
    using zero_stat_file by (simp add: catalogue_of_def two_servers_files)
  finally show ?thesis
    by (cases "addFilepaths_name [''b'', ''a''] ''h1'' two_servers") (simp add: catalogue_of_def)
qed

text \<open>The order in which the paths were added leaves no trace: two disambiguaters with the same
  catalogue produce the same listing, line by line, with and without metadata.\<close>

theorem listing_determined:
  assumes "disam_ok d" and "disam_ok d'" and "catalogue_of d = catalogue_of d'"
  shows "disambiguatedFilepathsWithStats d = disambiguatedFilepathsWithStats d' \<and>
         disambiguatedFilepaths d = disambiguatedFilepaths d'"
  using catalogue_inj [OF assms]
  by (simp add: disambiguatedFilepathsWithStats_def disambiguatedFilepaths_def)

theorem listing_determined_witness:
  "disambiguatedFilepaths (snd (addFilepaths_name [''b'', ''a''] ''h1'' new_disambiguater)) =
   disambiguatedFilepaths (snd (addFilepaths_name [''a'', ''b''] ''h1'' new_disambiguater))"
proof -
  let ?d = "\<lambda>paths. snd (addFilepaths_name paths ''h1'' new_disambiguater)"
  have cat: "catalogue_of (?d paths) =
      snd (add_entries (map (\<lambda>path. (path, zero_stat)) paths) ''h1'' no_entries)" for paths
    using arg_cong [where f = snd, OF add_names_refines [OF disam_ok_new, of paths "''h1''"]]
    by (simp add: addFilepaths_name_def catalogue_empty)
  have ok: "disam_ok (?d paths)" for paths
    by (simp add: addFilepaths_name_def disam_ok_ops)
  have "catalogue_of (?d [''b'', ''a'']) = catalogue_of (?d [''a'', ''b''])"
    unfolding cat using zero_stat_file by (simp add: no_entries_def) (rule fun_upd_twist, simp)
  then show ?thesis
    by (rule listing_determined [OF ok ok, THEN conjunct2])
qed

end
