(* ===== verification/DownServers.thy ===== *)
theory DownServers
  imports AgfsFuse
begin

text \<open>
  What servers that are down do to the mount. Only \<^verbatim>\<open>getattr\<close>, \<^verbatim>\<open>open\<close> of a known server and
  the calls on handles test for a connection; \<^verbatim>\<open>readdir\<close>, \<^verbatim>\<open>access\<close> and the search of
  \<^verbatim>\<open>open\<close> ask every server of the table. A server that is down then answers what the variables
  held before the failed reads: 0 where they are initialised, and in \<^verbatim>\<open>access\<close>, where they
  are not, what was on the stack.
\<close>

section \<open>One server that is down\<close>

definition stale :: "plat \<Rightarrow> agerr_t" where
  "stale p = betoh (host_endian p) (uninit p)"

lemma access_disconnected:
  assumes "conn_ok c" and "\<not> connected c"
  shows "fst (access p path m c) = stale p"
proof -
  define c1 where "c1 = snd (agfs_write_mask p (socket c) m
      (snd (agfs_write_string p (socket c) (c_string path)
        (snd (agfs_write_cmd p (socket c) cmd_ACCESS c)))))"
  have f: "io_frame c c1"
    unfolding c1_def by (intro frame_chain frame_chain_items io_frame_refl)
  have "sys_read (socket c) 8 c1 = ((-1, []), c1\<lparr>errno := EBADF\<rparr>)"
    using io_frame_dead [OF f assms] by (rule sys_read_dead)
  from read_int_none(4) [OF this, of p "uninit p"] show ?thesis
    by (simp add: access_def c1_def split_beta stale_def)
qed

text \<open>Which servers are taken to have a name.\<close>

definition counted :: "plat \<Rightarrow> string \<Rightarrow> string \<times> server_connection \<Rightarrow> bool" where
  "counted p file e \<longleftrightarrow>
     (if connected (snd e) then \<not> neg_err (fst (access p file F_OK (snd e))) else \<not> neg_err (stale p))"

lemma counted_access:
  "conn_ok (snd e) \<Longrightarrow> \<not> neg_err (fst (access p file F_OK (snd e))) \<longleftrightarrow> counted p file e"
  using access_disconnected [of "snd e" p "file" F_OK] by (auto simp: counted_def)

lemma holders_counted:
  assumes "\<forall>e \<in> set (connections st). conn_ok (snd e)"
  shows "holders p file st = map fst (filter (counted p file) (connections st))"
proof -
  have "filter (\<lambda>e. \<not> neg_err (fst (access p file F_OK (snd e)))) (connections st) =
      filter (counted p file) (connections st)"
    using assms counted_access by (intro filter_cong refl) blast
  then show ?thesis by (simp add: holders_def)
qed

section \<open>A table with servers that are down\<close>

lemma first_ok_neg: "neg_err r \<Longrightarrow> neg_err (first_ok (\<lambda>e. e) r rs) \<longleftrightarrow> (\<forall>x \<in> set rs. neg_err x)"
  by (induction rs arbitrary: r) (auto simp: first_ok_Cons)

lemma first_ok_neg_any: "rs \<noteq> [] \<Longrightarrow> neg_err (first_ok (\<lambda>e. e) r rs) \<longleftrightarrow> (\<forall>x \<in> set rs. neg_err x)"
  using first_ok_neg by (cases rs) (auto simp: first_ok_Cons)

lemma access_counted:
  assumes "ambiguate (c_string path) = Some (server, file)" and "map_find (connections st) server = None"
    and "\<forall>e \<in> set (connections st). conn_ok (snd e)" and "connections st \<noteq> []"
  shows "\<exists>e st'. agfs_access p path F_OK st = Some (int_of_err e, st') \<and>
    (\<not> neg_err e \<longleftrightarrow> (\<exists>c \<in> set (connections st). counted p file c))"
proof -
  obtain e conns where loop: "access_loop p file F_OK 0 (connections st) = (e, conns)" by fastforce
  then have "e = first_ok (\<lambda>err. err) 0 (map (\<lambda>e. fst (access p file F_OK (snd e))) (connections st))"
    using access_loop_result [of p "file" F_OK 0 "connections st"] by simp
  then have "neg_err e \<longleftrightarrow> (\<forall>x \<in> set (connections st). neg_err (fst (access p file F_OK (snd x))))"
    using first_ok_neg_any [of "map (\<lambda>e. fst (access p file F_OK (snd e))) (connections st)" 0] assms(4) by simp
  then have "\<not> neg_err e \<longleftrightarrow> (\<exists>c \<in> set (connections st). counted p file c)"
    using assms(3) counted_access by blast
  then show ?thesis
    using assms(1,2) loop by (intro exI [of _ e] exI [of _ "st\<lparr>connections := conns\<rparr>"]) (simp add: agfs_access_def)
qed

lemma readdir_all_ok:
  assumes "readdir_all p file err d m = Some (err', d', m')"
    and "\<not> neg_err err \<or> (\<exists>e \<in> set m. \<exists>files. map_option fst (readdir p file (snd e)) = Some (files, 0))"
  shows "\<not> neg_err err'"
  using assms
proof (induction m arbitrary: err d m')
  case (Cons e m)
  obtain k c where e: "e = (k, c)" by fastforce
  obtain files temp c' where r: "readdir p file c = Some ((files, temp), c')"
    using Cons.prems(1) by (auto simp: e readdir_one_def bind_eq_Some_conv)
  let ?err = "if neg_err temp then err else temp"
  let ?d = "if neg_err temp then d else snd (addFilepaths_stat files k d)"
  obtain m1 where rest: "readdir_all p file ?err ?d m = Some (err', d', m1)"
    using Cons.prems(1) r by (auto simp: e readdir_one_def bind_eq_Some_conv split: if_splits)
  show ?case
  proof (rule Cons.IH [OF rest])
    show "\<not> neg_err ?err \<or> (\<exists>e \<in> set m. \<exists>files. map_option fst (readdir p file (snd e)) = Some (files, 0))"
      using Cons.prems(2) r e by auto
  qed
qed simp

lemma readdir_with_down:
  assumes "ambiguate (c_string path) = Some (server, file)" and "map_find (connections st) server = None"
    and "e \<in> set (connections st)" and "conn_ok (snd e)" and "\<not> connected (snd e)"
    and "agfs_readdir p path st = Some ((r, entries), st')"
  shows "\<exists>err. r = int_of_err err \<and> \<not> neg_err err"
proof -
  obtain err d m where all: "readdir_all p file (word_of_int (- ENOTDIR)) new_disambiguater (connections st) = Some (err, d, m)"
    and "r = int_of_err err"
    using assms(1,2,6) by (auto simp: agfs_readdir_def bind_eq_Some_conv)
  moreover have "\<not> neg_err err"
    using readdir_disconnected [OF assms(4,5), of p "file"] assms(3) by (intro readdir_all_ok [OF all]) blast
  ultimately show ?thesis by blast
qed

section \<open>Properties\<close>


text \<open>A server that is down and one that has the file.\<close>

definition up_client :: server_connection where
  "up_client = open_client\<lparr>rx := rx_push (readdir_reply [] 0) []\<rparr>"

definition half_down :: fuse where
  "half_down = \<lparr>connections = [(''h1'', idle_client), (''h2'', up_client)], handles = []\<rparr>"

lemma up_client_answers:
  "fst (access p ''/f'' F_OK up_client) = 0"
  "\<exists>c'. readdir p ''/f'' up_client = Some (([], 0), c')"
proof -
  have c: "healthy up_client" "path_ok ''/f''"
    by (simp_all add: up_client_def healthy_def live_def open_client_def idle_client_def path_ok_def NUL_def MAX_RW_def)
  have "rx up_client = rx_push (be_bytes (0 :: agerr_t) @ be_bytes (0 :: agsize_t)) []"
    by (simp add: up_client_def readdir_reply_def)
  from access_answered [OF c this, of p F_OK] show "fst (access p ''/f'' F_OK up_client) = 0" by simp
  have "rx up_client = rx_push (readdir_reply [] 0 @ []) []" by (simp add: up_client_def)
  from readdir_answered [OF c _ _ this, of p] show "\<exists>c'. readdir p ''/f'' up_client = Some (([], 0), c')" by simp
qed

lemma stale_ppc: "\<not> neg_err (stale ppc)"
proof -
  have "[0..<8 :: nat] = [0, 1, 2, 3, 4, 5, 6, 7]" by (simp add: upt_rec)
  then have "stale ppc = 0x5555555555555555"
    by (simp add: stale_def uninit_def ppc_def)
  then show ?thesis by simp
qed


end
