(* ===== verification/LocalFs.thy ===== *)
theory LocalFs
  imports Prelude "HOL-Library.Signed_Division"
begin

text \<open>
  The operations of \<^verbatim>\<open>agfs.cpp\<close> that do not ask a server: they hand their path to the
  system call of the same name, which resolves it in the file system of the machine that
  mounts. The calls are parameters, functions on a state; a failing call returns its errno.
\<close>

record timespec =
  tv_sec :: int
  tv_nsec :: int

record timeval =
  tm_sec :: int
  tm_usec :: int

record ('h, 'v) local_fs =
  fs_readlink :: "string \<Rightarrow> nat \<Rightarrow> 'h \<Rightarrow> (int + string) \<times> 'h"
  fs_open :: "string \<Rightarrow> agmask_t \<Rightarrow> agmode_t \<Rightarrow> 'h \<Rightarrow> (int + int) \<times> 'h"
  fs_close :: "int \<Rightarrow> 'h \<Rightarrow> (int + unit) \<times> 'h"
  fs_mkfifo :: "string \<Rightarrow> agmode_t \<Rightarrow> 'h \<Rightarrow> (int + unit) \<times> 'h"
  fs_mknod :: "string \<Rightarrow> agmode_t \<Rightarrow> agdev_t \<Rightarrow> 'h \<Rightarrow> (int + unit) \<times> 'h"
  fs_mkdir :: "string \<Rightarrow> agmode_t \<Rightarrow> 'h \<Rightarrow> (int + unit) \<times> 'h"
  fs_unlink :: "string \<Rightarrow> 'h \<Rightarrow> (int + unit) \<times> 'h"
  fs_rmdir :: "string \<Rightarrow> 'h \<Rightarrow> (int + unit) \<times> 'h"
  fs_symlink :: "string \<Rightarrow> string \<Rightarrow> 'h \<Rightarrow> (int + unit) \<times> 'h"
  fs_rename :: "string \<Rightarrow> string \<Rightarrow> 'h \<Rightarrow> (int + unit) \<times> 'h"
  fs_link :: "string \<Rightarrow> string \<Rightarrow> 'h \<Rightarrow> (int + unit) \<times> 'h"
  fs_chmod :: "string \<Rightarrow> agmode_t \<Rightarrow> 'h \<Rightarrow> (int + unit) \<times> 'h"
  fs_lchown :: "string \<Rightarrow> nat \<Rightarrow> nat \<Rightarrow> 'h \<Rightarrow> (int + unit) \<times> 'h"
  fs_truncate :: "string \<Rightarrow> int \<Rightarrow> 'h \<Rightarrow> (int + unit) \<times> 'h"
  fs_utimes :: "string \<Rightarrow> timeval \<times> timeval \<Rightarrow> 'h \<Rightarrow> (int + unit) \<times> 'h"
  fs_statvfs :: "string \<Rightarrow> 'h \<Rightarrow> (int + 'v) \<times> 'h"
  fs_lsetxattr :: "string \<Rightarrow> string \<Rightarrow> byte list \<Rightarrow> int \<Rightarrow> 'h \<Rightarrow> (int + unit) \<times> 'h"
  fs_lgetxattr :: "string \<Rightarrow> string \<Rightarrow> nat \<Rightarrow> 'h \<Rightarrow> (int + int \<times> byte list) \<times> 'h"
  fs_llistxattr :: "string \<Rightarrow> nat \<Rightarrow> 'h \<Rightarrow> (int + int \<times> byte list) \<times> 'h"
  fs_lremovexattr :: "string \<Rightarrow> string \<Rightarrow> 'h \<Rightarrow> (int + unit) \<times> 'h"

text \<open>\<^verbatim>\<open>if (res == -1) return -errno; return 0;\<close>\<close>

definition returned :: "(int + 'a) \<times> 'h \<Rightarrow> int \<times> 'h" where
  "returned r = (case r of (Inl e, h) \<Rightarrow> (- e, h) | (Inr a, h) \<Rightarrow> (0, h))"

text \<open>
  The result is copied into the buffer \<open>buf\<close> of \<open>size\<close> bytes, after it a zero byte. A size of
  0 wraps around, and the call may write past the buffer.
\<close>

definition agfs_readlink ::
  "('h, 'v) local_fs \<Rightarrow> string \<Rightarrow> string \<Rightarrow> 'h \<Rightarrow> ((int \<times> string) \<times> 'h) option" where
  "agfs_readlink fs path buf h =
     (if buf = [] then None
      else (case fs_readlink fs path (length buf - 1) h of
              (Inl e, h) \<Rightarrow> Some ((- e, buf), h)
            | (Inr target, h) \<Rightarrow>
                (let res = take (length buf - 1) target
                 in Some ((0, res @ [NUL] @ drop (length res + 1) buf), h))))"

definition S_ISREG :: "agmode_t \<Rightarrow> bool" where
  "S_ISREG mode = (mode AND 0xF000 = 0x8000)"

definition S_ISFIFO :: "agmode_t \<Rightarrow> bool" where
  "S_ISFIFO mode = (mode AND 0xF000 = 0x1000)"

text \<open>\<^verbatim>\<open>O_CREAT | O_EXCL | O_WRONLY\<close>\<close>

definition O_CREAT_EXCL_WRONLY :: agmask_t where
  "O_CREAT_EXCL_WRONLY = 0x40 OR 0x80 OR 0x1"

definition agfs_mknod ::
  "('h, 'v) local_fs \<Rightarrow> string \<Rightarrow> agmode_t \<Rightarrow> agdev_t \<Rightarrow> 'h \<Rightarrow> int \<times> 'h" where
  "agfs_mknod fs path mode rdev h =
     (if S_ISREG mode then
        (case fs_open fs path O_CREAT_EXCL_WRONLY mode h of
           (Inl e, h) \<Rightarrow> (- e, h)
         | (Inr fd, h) \<Rightarrow> (if 0 \<le> fd then returned (fs_close fs fd h) else (0, h)))
      else if S_ISFIFO mode then returned (fs_mkfifo fs path mode h)
      else returned (fs_mknod fs path mode rdev h))"

definition agfs_mkdir :: "('h, 'v) local_fs \<Rightarrow> string \<Rightarrow> agmode_t \<Rightarrow> 'h \<Rightarrow> int \<times> 'h" where
  "agfs_mkdir fs path mode h = returned (fs_mkdir fs path mode h)"

definition agfs_unlink :: "('h, 'v) local_fs \<Rightarrow> string \<Rightarrow> 'h \<Rightarrow> int \<times> 'h" where
  "agfs_unlink fs path h = returned (fs_unlink fs path h)"

definition agfs_rmdir :: "('h, 'v) local_fs \<Rightarrow> string \<Rightarrow> 'h \<Rightarrow> int \<times> 'h" where
  "agfs_rmdir fs path h = returned (fs_rmdir fs path h)"

definition agfs_symlink :: "('h, 'v) local_fs \<Rightarrow> string \<Rightarrow> string \<Rightarrow> 'h \<Rightarrow> int \<times> 'h" where
  "agfs_symlink fs target linkpath h = returned (fs_symlink fs target linkpath h)"

definition agfs_rename :: "('h, 'v) local_fs \<Rightarrow> string \<Rightarrow> string \<Rightarrow> 'h \<Rightarrow> int \<times> 'h" where
  "agfs_rename fs old new h = returned (fs_rename fs old new h)"

definition agfs_link :: "('h, 'v) local_fs \<Rightarrow> string \<Rightarrow> string \<Rightarrow> 'h \<Rightarrow> int \<times> 'h" where
  "agfs_link fs old new h = returned (fs_link fs old new h)"

definition agfs_chmod :: "('h, 'v) local_fs \<Rightarrow> string \<Rightarrow> agmode_t \<Rightarrow> 'h \<Rightarrow> int \<times> 'h" where
  "agfs_chmod fs path mode h = returned (fs_chmod fs path mode h)"

definition agfs_chown :: "('h, 'v) local_fs \<Rightarrow> string \<Rightarrow> nat \<Rightarrow> nat \<Rightarrow> 'h \<Rightarrow> int \<times> 'h" where
  "agfs_chown fs path uid gid h = returned (fs_lchown fs path uid gid h)"

definition agfs_truncate :: "('h, 'v) local_fs \<Rightarrow> string \<Rightarrow> int \<Rightarrow> 'h \<Rightarrow> int \<times> 'h" where
  "agfs_truncate fs path len h = returned (fs_truncate fs path len h)"

text \<open>Nanoseconds become microseconds, rounded towards zero.\<close>

definition timeval_of :: "timespec \<Rightarrow> timeval" where
  "timeval_of ts = \<lparr>tm_sec = tv_sec ts, tm_usec = tv_nsec ts sdiv 1000\<rparr>"

definition agfs_utimens ::
  "('h, 'v) local_fs \<Rightarrow> string \<Rightarrow> timespec \<times> timespec \<Rightarrow> 'h \<Rightarrow> int \<times> 'h" where
  "agfs_utimens fs path ts h =
     (let tv = (timeval_of (fst ts), timeval_of (snd ts)) in returned (fs_utimes fs path tv h))"

definition agfs_statfs :: "('h, 'v) local_fs \<Rightarrow> string \<Rightarrow> 'v \<Rightarrow> 'h \<Rightarrow> (int \<times> 'v) \<times> 'h" where
  "agfs_statfs fs path stbuf h =
     (case fs_statvfs fs path h of
        (Inl e, h) \<Rightarrow> ((- e, stbuf), h)
      | (Inr v, h) \<Rightarrow> ((0, v), h))"

text \<open>
  The operations on extended attributes, which a build with \<^verbatim>\<open>HAVE_SETXATTR\<close> has. The two
  that return data give the number of bytes and what is copied to the start of the caller's
  buffer; a buffer of size 0 only asks for the number.
\<close>

definition agfs_setxattr ::
  "('h, 'v) local_fs \<Rightarrow> string \<Rightarrow> string \<Rightarrow> byte list \<Rightarrow> int \<Rightarrow> 'h \<Rightarrow> int \<times> 'h" where
  "agfs_setxattr fs path name val flags h = returned (fs_lsetxattr fs path name val flags h)"

definition agfs_getxattr ::
  "('h, 'v) local_fs \<Rightarrow> string \<Rightarrow> string \<Rightarrow> byte list \<Rightarrow> 'h \<Rightarrow> (int \<times> byte list) \<times> 'h" where
  "agfs_getxattr fs path name buf h =
     (case fs_lgetxattr fs path name (length buf) h of
        (Inl e, h) \<Rightarrow> ((- e, buf), h)
      | (Inr (res, bs), h) \<Rightarrow> ((res, overlay (take (length buf) bs) buf), h))"

definition agfs_listxattr ::
  "('h, 'v) local_fs \<Rightarrow> string \<Rightarrow> byte list \<Rightarrow> 'h \<Rightarrow> (int \<times> byte list) \<times> 'h" where
  "agfs_listxattr fs path buf h =
     (case fs_llistxattr fs path (length buf) h of
        (Inl e, h) \<Rightarrow> ((- e, buf), h)
      | (Inr (res, bs), h) \<Rightarrow> ((res, overlay (take (length buf) bs) buf), h))"

definition agfs_removexattr :: "('h, 'v) local_fs \<Rightarrow> string \<Rightarrow> string \<Rightarrow> 'h \<Rightarrow> int \<times> 'h" where
  "agfs_removexattr fs path name h = returned (fs_lremovexattr fs path name h)"

section \<open>Properties\<close>

lemma returned_cases:
  "returned (Inl e, h) = (- e, h)" "returned (Inr a, h) = (0, h)"
  by (simp_all add: returned_def)

lemma readlink_target:
  assumes "fs_readlink fs path (length buf - 1) h = (Inr target, h')" and "NUL \<notin> set target"
    and "buf \<noteq> []"
  shows "\<exists>buf'. agfs_readlink fs path buf h = Some ((0, buf'), h') \<and> length buf' = length buf \<and>
           takeWhile (\<lambda>c. c \<noteq> NUL) buf' = take (length buf - 1) target"
proof -
  let ?t = "take (length buf - 1) target"
  have t: "NUL \<notin> set ?t" using assms(2) by (auto dest: in_set_takeD)
  have "takeWhile (\<lambda>c. c \<noteq> NUL) (?t @ NUL # r) = ?t" for r
    using t by (subst takeWhile_append2) auto
  moreover have "length ?t < length buf" using assms(3) by (cases buf) auto
  ultimately show ?thesis
    using assms by (simp add: agfs_readlink_def Let_def)
qed

lemma timeval_range:
  assumes "0 \<le> tv_nsec ts" and "tv_nsec ts < 10 ^ 9"
  shows "0 \<le> tm_usec (timeval_of ts)" "tm_usec (timeval_of ts) < 10 ^ 6"
    "tm_usec (timeval_of ts) * 1000 \<le> tv_nsec ts"
    "tv_nsec ts < (tm_usec (timeval_of ts) + 1) * 1000"
  using assms by (simp_all add: timeval_of_def signed_divide_int_def sgn_if) auto

text \<open>The state of the examples: the calls succeed and change nothing, a link leads to \<open>/target\<close>.\<close>

definition example_fs :: "(unit, unit) local_fs" where
  "example_fs = \<lparr>fs_readlink = (\<lambda>path n h. (Inr (take n ''/target''), h)),
     fs_open = (\<lambda>path flags mode h. (Inr 3, h)), fs_close = (\<lambda>fd h. (Inr (), h)),
     fs_mkfifo = (\<lambda>path mode h. (Inr (), h)), fs_mknod = (\<lambda>path mode dev h. (Inr (), h)),
     fs_mkdir = (\<lambda>path mode h. (Inr (), h)), fs_unlink = (\<lambda>path h. (Inl 2, h)),
     fs_rmdir = (\<lambda>path h. (Inr (), h)), fs_symlink = (\<lambda>a b h. (Inr (), h)),
     fs_rename = (\<lambda>a b h. (Inr (), h)), fs_link = (\<lambda>a b h. (Inr (), h)),
     fs_chmod = (\<lambda>path mode h. (Inr (), h)), fs_lchown = (\<lambda>path u g h. (Inr (), h)),
     fs_truncate = (\<lambda>path n h. (Inr (), h)), fs_utimes = (\<lambda>path tv h. (Inr (), h)),
     fs_statvfs = (\<lambda>path h. (Inr (), h)), fs_lsetxattr = (\<lambda>path name bs fl h. (Inr (), h)),
     fs_lgetxattr = (\<lambda>path name n h. (Inr (2, [1, 2]), h)), fs_llistxattr = (\<lambda>path n h. (Inr (0, []), h)),
     fs_lremovexattr = (\<lambda>path name h. (Inr (), h))\<rparr>"

text \<open>The target of a link stays within the caller's buffer: \<^verbatim>\<open>readlink\<close> of the mounted file
  system leaves a buffer of the same size, that holds the target, cut to one byte less than
  the size, as a string that is always terminated.\<close>

theorem readlink_bounded:
  assumes "fs_readlink fs path (length buf - 1) h = (Inr target, h')" and "NUL \<notin> set target"
    and "buf \<noteq> []"
  shows "\<exists>buf'. agfs_readlink fs path buf h = Some ((0, buf'), h') \<and> length buf' = length buf \<and>
           NUL \<in> set buf' \<and> takeWhile (\<lambda>c. c \<noteq> NUL) buf' = take (length buf - 1) target"
proof -
  obtain buf' where b: "agfs_readlink fs path buf h = Some ((0, buf'), h')" "length buf' = length buf"
    "takeWhile (\<lambda>c. c \<noteq> NUL) buf' = take (length buf - 1) target"
    using readlink_target [OF assms] by blast
  have "NUL \<in> set buf'"
  proof (rule ccontr)
    assume "NUL \<notin> set buf'"
    then have "takeWhile (\<lambda>c. c \<noteq> NUL) buf' = buf'" by simp
    then have "length buf \<le> length buf - 1"
      using b(2,3) by (metis length_take min.cobounded2)
    then show False using assms(3) by (cases buf) simp_all
  qed
  with b show ?thesis by blast
qed

theorem readlink_bounded_witness:
  "\<exists>buf'. agfs_readlink example_fs ''/l'' ''xxxx'' () = Some ((0, buf'), ()) \<and> length buf' = 4 \<and>
     takeWhile (\<lambda>c. c \<noteq> NUL) buf' = ''/ta''"
proof -
  have "fs_readlink example_fs ''/l'' (length ''xxxx'' - 1) () = (Inr ''/ta'', ())"
    by (simp add: example_fs_def)
  from readlink_bounded [OF this] show ?thesis
    by (auto simp: NUL_def)
qed

text \<open>The times that \<^verbatim>\<open>utimens\<close> hands on are in the range of the call: for nanoseconds within
  a second the microseconds are within the second too, and less than a microsecond is lost.\<close>

theorem utimens_range:
  assumes "0 \<le> tv_nsec a" and "tv_nsec a < 10 ^ 9" and "0 \<le> tv_nsec b" and "tv_nsec b < 10 ^ 9"
  shows "\<exists>u v. agfs_utimens fs path (a, b) h =
           returned (fs_utimes fs path (\<lparr>tm_sec = tv_sec a, tm_usec = u\<rparr>, \<lparr>tm_sec = tv_sec b, tm_usec = v\<rparr>) h) \<and>
         0 \<le> u \<and> u < 10 ^ 6 \<and> u * 1000 \<le> tv_nsec a \<and> tv_nsec a < (u + 1) * 1000 \<and>
         0 \<le> v \<and> v < 10 ^ 6 \<and> v * 1000 \<le> tv_nsec b \<and> tv_nsec b < (v + 1) * 1000"
  using timeval_range [OF assms(1,2)] timeval_range [OF assms(3,4)]
  by (intro exI [of _ "tm_usec (timeval_of a)"] exI [of _ "tm_usec (timeval_of b)"])
     (simp add: agfs_utimens_def timeval_of_def)

theorem utimens_range_witness:
  "fst (agfs_utimens example_fs ''/f''
     (\<lparr>tv_sec = 1, tv_nsec = 999999999\<rparr>, \<lparr>tv_sec = 2, tv_nsec = 0\<rparr>) ()) = 0"
  using utimens_range [of "\<lparr>tv_sec = 1, tv_nsec = 999999999\<rparr>" "\<lparr>tv_sec = 2, tv_nsec = 0\<rparr>"
      example_fs "''/f''" "()"]
  by (auto simp: example_fs_def returned_def)

end
