(* ===== verification/FuseOps.thy ===== *)
theory FuseOps
  imports Mount LocalFs
begin

text \<open>
  The table of operations that \<^verbatim>\<open>main\<close> of \<^verbatim>\<open>agfs.cpp\<close> hands to FUSE: which function answers
  which call. Half of the calls go to the servers, the other half to the file system of the
  machine that mounts.
\<close>

section \<open>Calls and replies\<close>

text \<open>
  A call with its arguments: a path, and what the caller passes in besides, its buffer or the
  value of \<^verbatim>\<open>fi->fh\<close> among it. \<open>'v\<close> is \<^verbatim>\<open>struct statvfs\<close>.
\<close>

datatype 'v fuse_call =
    Call_destroy
  | Call_getattr string
  | Call_access string agmask_t
  | Call_readlink string string
  | Call_opendir string
  | Call_readdir string
  | Call_releasedir string
  | Call_mknod string agmode_t agdev_t
  | Call_mkdir string agmode_t
  | Call_symlink string string
  | Call_unlink string
  | Call_rmdir string
  | Call_rename string string
  | Call_link string string
  | Call_chmod string agmode_t
  | Call_chown string nat nat
  | Call_truncate string int
  | Call_utimens string "timespec \<times> timespec"
  | Call_open string agmask_t nat
  | Call_read string "byte list" agsize_t nat
  | Call_write string "byte list" agsize_t nat
  | Call_statfs string 'v
  | Call_release string nat
  | Call_fsync string int nat
  | Call_setxattr string string "byte list" int
  | Call_getxattr string string "byte list"
  | Call_listxattr string "byte list"
  | Call_removexattr string string

text \<open>The \<^verbatim>\<open>int\<close> that is returned, and what was put where the caller's pointer leads.\<close>

datatype 'v fuse_reply =
    Void
  | Status int
  | Status_stat int stat
  | Status_target int string
  | Status_entries int "(string \<times> stat option) list"
  | Status_handle int nat
  | Status_bytes int "byte list"
  | Status_vfs int 'v

text \<open>A function that does not touch the servers, or one that does not touch the local machine.\<close>

definition on_local :: "mount \<Rightarrow> 'r \<times> 'h \<Rightarrow> ('r \<times> mount \<times> 'h)" where
  "on_local st rh = (fst rh, st, snd rh)"

definition on_servers :: "'h \<Rightarrow> ('r \<times> mount) option \<Rightarrow> ('r \<times> mount \<times> 'h) option" where
  "on_servers h = map_option (\<lambda>(r, st). (r, st, h))"

definition reply_with :: "('r \<Rightarrow> 'v fuse_reply) \<Rightarrow> ('r \<times> 's) option \<Rightarrow> ('v fuse_reply \<times> 's) option" where
  "reply_with f = map_option (map_prod f id)"

section \<open>The table\<close>

text \<open>
  \<open>have_xattr\<close> says whether the program was built with \<^verbatim>\<open>HAVE_SETXATTR\<close>; without it the table
  has null pointers in the last four places. After \<^verbatim>\<open>destroy\<close> FUSE makes no call.
\<close>

fun agfs_oper ::
  "bool \<Rightarrow> plat \<Rightarrow> ('h, 'v) local_fs \<Rightarrow> 'v fuse_call \<Rightarrow> mount \<times> 'h \<Rightarrow> ('v fuse_reply \<times> mount \<times> 'h) option" where
  "agfs_oper have_xattr p fs Call_destroy (st, h) = Some (Void, (agfs_destroy p st)\<lparr>unmounted := True\<rparr>, h)"
| "agfs_oper have_xattr p fs (Call_getattr path) (st, h) =
     reply_with (\<lambda>(r, stbuf). Status_stat r stbuf) (on_servers h (agfs_getattr p path st))"
| "agfs_oper have_xattr p fs (Call_access path m) (st, h) =
     reply_with Status (on_servers h (agfs_access p path m st))"
| "agfs_oper have_xattr p fs (Call_readlink path buf) (st, h) =
     reply_with (\<lambda>(r, buf). Status_target r buf) (map_option (on_local st) (agfs_readlink fs path buf h))"
| "agfs_oper have_xattr p fs (Call_opendir path) (st, h) = Some (Status (agfs_opendir path), st, h)"
| "agfs_oper have_xattr p fs (Call_readdir path) (st, h) =
     reply_with (\<lambda>(r, entries). Status_entries r entries) (on_servers h (agfs_readdir p path st))"
| "agfs_oper have_xattr p fs (Call_releasedir path) (st, h) = Some (Status (agfs_releasedir path), st, h)"
| "agfs_oper have_xattr p fs (Call_mknod path mode rdev) (st, h) =
     reply_with Status (Some (on_local st (agfs_mknod fs path mode rdev h)))"
| "agfs_oper have_xattr p fs (Call_mkdir path mode) (st, h) =
     reply_with Status (Some (on_local st (agfs_mkdir fs path mode h)))"
| "agfs_oper have_xattr p fs (Call_symlink target linkpath) (st, h) =
     reply_with Status (Some (on_local st (agfs_symlink fs target linkpath h)))"
| "agfs_oper have_xattr p fs (Call_unlink path) (st, h) =
     reply_with Status (Some (on_local st (agfs_unlink fs path h)))"
| "agfs_oper have_xattr p fs (Call_rmdir path) (st, h) =
     reply_with Status (Some (on_local st (agfs_rmdir fs path h)))"
| "agfs_oper have_xattr p fs (Call_rename old new) (st, h) =
     reply_with Status (Some (on_local st (agfs_rename fs old new h)))"
| "agfs_oper have_xattr p fs (Call_link old new) (st, h) =
     reply_with Status (Some (on_local st (agfs_link fs old new h)))"
| "agfs_oper have_xattr p fs (Call_chmod path mode) (st, h) =
     reply_with Status (Some (on_local st (agfs_chmod fs path mode h)))"
| "agfs_oper have_xattr p fs (Call_chown path uid gid) (st, h) =
     reply_with Status (Some (on_local st (agfs_chown fs path uid gid h)))"
| "agfs_oper have_xattr p fs (Call_truncate path len) (st, h) =
     reply_with Status (Some (on_local st (agfs_truncate fs path len h)))"
| "agfs_oper have_xattr p fs (Call_utimens path ts) (st, h) =
     reply_with Status (Some (on_local st (agfs_utimens fs path ts h)))"
| "agfs_oper have_xattr p fs (Call_open path flags fh) (st, h) =
     reply_with (\<lambda>(r, fh). Status_handle r fh) (on_servers h (agfs_open p path flags fh st))"
| "agfs_oper have_xattr p fs (Call_read path buf off fh) (st, h) =
     reply_with (\<lambda>(r, buf). Status_bytes r buf) (on_servers h (agfs_read p buf off fh st))"
| "agfs_oper have_xattr p fs (Call_write path buf off fh) (st, h) =
     reply_with Status (on_servers h (agfs_write p buf off fh st))"
| "agfs_oper have_xattr p fs (Call_statfs path stbuf) (st, h) =
     reply_with (\<lambda>(r, v). Status_vfs r v) (Some (on_local st (agfs_statfs fs path stbuf h)))"
| "agfs_oper have_xattr p fs (Call_release path fh) (st, h) =
     reply_with Status (on_servers h (agfs_release fh st))"
| "agfs_oper have_xattr p fs (Call_fsync path isdatasync fh) (st, h) =
     Some (Status (agfs_fsync path isdatasync), st, h)"
| "agfs_oper have_xattr p fs (Call_setxattr path name val flags) (st, h) =
     (if have_xattr then reply_with Status (Some (on_local st (agfs_setxattr fs path name val flags h))) else None)"
| "agfs_oper have_xattr p fs (Call_getxattr path name buf) (st, h) =
     (if have_xattr then reply_with (\<lambda>(r, buf). Status_bytes r buf)
        (Some (on_local st (agfs_getxattr fs path name buf h))) else None)"
| "agfs_oper have_xattr p fs (Call_listxattr path buf) (st, h) =
     (if have_xattr then reply_with (\<lambda>(r, buf). Status_bytes r buf)
        (Some (on_local st (agfs_listxattr fs path buf h))) else None)"
| "agfs_oper have_xattr p fs (Call_removexattr path name) (st, h) =
     (if have_xattr then reply_with Status (Some (on_local st (agfs_removexattr fs path name h))) else None)"

section \<open>Who is asked\<close>

fun to_servers :: "'v fuse_call \<Rightarrow> bool" where
  "to_servers Call_destroy \<longleftrightarrow> True"
| "to_servers (Call_getattr path) \<longleftrightarrow> True"
| "to_servers (Call_access path m) \<longleftrightarrow> True"
| "to_servers (Call_readdir path) \<longleftrightarrow> True"
| "to_servers (Call_open path flags fh) \<longleftrightarrow> True"
| "to_servers (Call_read path buf off fh) \<longleftrightarrow> True"
| "to_servers (Call_write path buf off fh) \<longleftrightarrow> True"
| "to_servers (Call_release path fh) \<longleftrightarrow> True"
| "to_servers _ \<longleftrightarrow> False"

lemma reply_with_Some:
  "reply_with f x = Some (r, s) \<longleftrightarrow> (\<exists>a. x = Some (a, s) \<and> r = f a)"
  by (auto simp: reply_with_def)

lemma on_servers_Some: "on_servers h x = Some (r, st, h') \<longleftrightarrow> x = Some (r, st) \<and> h' = h"
  by (auto simp: on_servers_def)

lemma on_local_eq: "on_local st rh = (r, st', h') \<longleftrightarrow> rh = (r, h') \<and> st' = st"
  by (auto simp: on_local_def)

lemmas oper_simps = reply_with_Some on_servers_Some on_local_eq

lemma local_call:
  assumes "agfs_oper x p fs call (st, h) = Some (r, st', h')" and "\<not> to_servers call"
  shows "st' = st"
  using assms by (cases call) (auto simp: oper_simps split: if_splits)

lemma server_call:
  assumes "agfs_oper x p fs call (st, h) = Some (r, st', h')" and "to_servers call"
  shows "h' = h" and "\<not> unmounted st \<Longrightarrow> mount_step p st st'"
  using assms by (cases call; auto simp: oper_simps intro: mount_step.intros)+

section \<open>Properties\<close>


text \<open>A local machine that counts the files it has removed.\<close>

definition counting_fs :: "(nat, unit) local_fs" where
  "counting_fs = \<lparr>fs_readlink = (\<lambda>path n h. (Inr '''', h)),
     fs_open = (\<lambda>path flags mode h. (Inr 3, h)), fs_close = (\<lambda>fd h. (Inr (), h)),
     fs_mkfifo = (\<lambda>path mode h. (Inr (), h)), fs_mknod = (\<lambda>path mode dev h. (Inr (), h)),
     fs_mkdir = (\<lambda>path mode h. (Inr (), h)), fs_unlink = (\<lambda>path h. (Inr (), h + 1)),
     fs_rmdir = (\<lambda>path h. (Inr (), h)), fs_symlink = (\<lambda>a b h. (Inr (), h)),
     fs_rename = (\<lambda>a b h. (Inr (), h)), fs_link = (\<lambda>a b h. (Inr (), h)),
     fs_chmod = (\<lambda>path mode h. (Inr (), h)), fs_lchown = (\<lambda>path u g h. (Inr (), h)),
     fs_truncate = (\<lambda>path n h. (Inr (), h)), fs_utimes = (\<lambda>path tv h. (Inr (), h)),
     fs_statvfs = (\<lambda>path h. (Inr (), h)), fs_lsetxattr = (\<lambda>path name bs fl h. (Inr (), h)),
     fs_lgetxattr = (\<lambda>path name n h. (Inr (0, []), h)), fs_llistxattr = (\<lambda>path n h. (Inr (0, []), h)),
     fs_lremovexattr = (\<lambda>path name h. (Inr (), h))\<rparr>"

definition one_mount :: mount where
  "one_mount = \<lparr>connections = [(''h1'', open_client)], handles = [],
     heartbeatThreads = [(''h1'', Check)], unmounted = False\<rparr>"


end
