(* ===== verification/Isolation.thy ===== *)
theory Isolation
  imports Aggregate
begin

text \<open>
  Servers do not interfere with each other: what a mount returns for the calls that are
  addressed to one server, through its handles or its tagged names, does not depend on the
  other servers, on what they answer, on whether they are up, or on the calls addressed to
  them. The argument is that of non-interference: two unwinding conditions for one call, in
  the locale \<open>isolated\<close>, give the property of all sequences of calls.
\<close>

section \<open>Unwinding\<close>

text \<open>The results of the calls that are addressed to \<open>d\<close>.\<close>

definition results_for :: "('q \<Rightarrow> 'd) \<Rightarrow> 'd \<Rightarrow> 'q list \<Rightarrow> 'r list \<Rightarrow> 'r list" where
  "results_for addr d rqs rs = map snd (filter (\<lambda>v. addr (fst v) = d) (zip rqs rs))"

lemma results_for_simps [simp]:
  "results_for addr d [] rs = []"
  "results_for addr d (rq # rqs) (r # rs) = (if addr rq = d then [r] else []) @ results_for addr d rqs rs"
  by (simp_all add: results_for_def)

locale isolated =
  fixes call :: "'q \<Rightarrow> 's \<Rightarrow> ('r \<times> 's) option"
    and ok :: "'q \<Rightarrow> bool"
    and addr :: "'q \<Rightarrow> 'd"
    and agree :: "'d \<Rightarrow> 's \<Rightarrow> 's \<Rightarrow> bool"
  assumes respects: "ok rq \<Longrightarrow> call rq st = Some (r, st') \<Longrightarrow> addr rq \<noteq> d \<Longrightarrow> agree d st st2 \<Longrightarrow> agree d st' st2"
    and consistent: "ok rq \<Longrightarrow> call rq st = Some (r, st') \<Longrightarrow> agree (addr rq) st st2 \<Longrightarrow>
      \<exists>st2'. call rq st2 = Some (r, st2') \<and> agree (addr rq) st' st2'"
begin

text \<open>The calls addressed to others can be left out.\<close>

lemma purged:
  assumes "\<forall>rq \<in> set rqs. ok rq" and "run_calls call rqs st = Some (rs, st')" and "agree d st st2"
  shows "\<exists>st2'. run_calls call (filter (\<lambda>rq. addr rq = d) rqs) st2 = Some (results_for addr d rqs rs, st2') \<and>
           agree d st' st2'"
  using assms
proof (induction rqs arbitrary: st rs st2)
  case (Cons rq rqs)
  from Cons.prems(2) obtain r st1 rs' where one: "call rq st = Some (r, st1)"
    and rest: "run_calls call rqs st1 = Some (rs', st')" and rs: "rs = r # rs'"
    by (auto simp: bind_eq_Some_conv)
  have ok: "ok rq" "\<forall>rq \<in> set rqs. ok rq" using Cons.prems(1) by simp_all
  show ?case
  proof (cases "addr rq = d")
    case True
    obtain st3 where st3: "call rq st2 = Some (r, st3)" "agree d st1 st3"
      using consistent [OF ok(1) one, of st2] Cons.prems(3) True by blast
    obtain st2' where "run_calls call (filter (\<lambda>rq. addr rq = d) rqs) st3 = Some (results_for addr d rqs rs', st2')"
      "agree d st' st2'"
      using Cons.IH [OF ok(2) rest st3(2)] by blast
    then show ?thesis using st3(1) True rs by simp
  next
    case False
    have "agree d st1 st2" using respects [OF ok(1) one False Cons.prems(3)] .
    from Cons.IH [OF ok(2) rest this] show ?thesis using False rs by simp
  qed
qed simp

end

section \<open>The calls that are addressed to a server\<close>

text \<open>
  Reads, writes and releases through handles; \<^verbatim>\<open>access\<close> and \<^verbatim>\<open>readdir\<close> of a tagged name; the
  steps of the server's thread. \<^verbatim>\<open>getattr\<close> is not one of them: when the server of a tagged name
  is down it asks the others. Nor is \<^verbatim>\<open>open\<close>, whose new handle has an address that depends on
  the others' handles.
\<close>

datatype server_call =
    Read_via nat "byte list" agsize_t
  | Write_via nat "byte list" agsize_t
  | Release_via nat
  | Access_of string string agmask_t
  | List_of string string
  | Thread_of string

datatype server_result =
    Bytes_read int "byte list"
  | Returned int
  | Entries int "(string \<times> stat option) list"
  | Stepped

fun server_op :: "plat \<Rightarrow> network \<Rightarrow> server_call \<Rightarrow> mount \<Rightarrow> (server_result \<times> mount) option" where
  "server_op p net (Read_via fh buf off) st = do { ((r, buf), st) \<leftarrow> agfs_read p buf off fh st; Some (Bytes_read r buf, st) }"
| "server_op p net (Write_via fh buf off) st = do { (r, st) \<leftarrow> agfs_write p buf off fh st; Some (Returned r, st) }"
| "server_op p net (Release_via fh) st = do { (r, st) \<leftarrow> agfs_release fh st; Some (Returned r, st) }"
| "server_op p net (Access_of k f m) st = do { (r, st) \<leftarrow> agfs_access p (listed_name f k) m st; Some (Returned r, st) }"
| "server_op p net (List_of k f) st = do { ((r, es), st) \<leftarrow> agfs_readdir p (listed_name f k) st; Some (Entries r es, st) }"
| "server_op p net (Thread_of k) st = do { (r, st) \<leftarrow> thread_op p net k st; Some (Stepped, st) }"

text \<open>\<open>H\<close> is the table of handles at the start; handles only go.\<close>

definition handle_server :: "(nat \<Rightarrow> file_handle option) \<Rightarrow> nat \<Rightarrow> string" where
  "handle_server H fh = (case H fh of Some h \<Rightarrow> fh_server h | None \<Rightarrow> '''')"

fun addressee :: "(nat \<Rightarrow> file_handle option) \<Rightarrow> server_call \<Rightarrow> string" where
  "addressee H (Read_via fh buf off) = handle_server H fh"
| "addressee H (Write_via fh buf off) = handle_server H fh"
| "addressee H (Release_via fh) = handle_server H fh"
| "addressee H (Access_of k f m) = k"
| "addressee H (List_of k f) = k"
| "addressee H (Thread_of k) = k"

definition tag_ok :: "string set \<Rightarrow> string \<Rightarrow> string \<Rightarrow> bool" where
  "tag_ok hosts k f \<longleftrightarrow> k \<in> hosts \<and> clean_name f \<and> clean_server k \<and> NUL \<notin> set f \<and> NUL \<notin> set k \<and>
     length f + length k + 4 < 2 ^ 64"

fun server_call_ok :: "string set \<Rightarrow> server_call \<Rightarrow> bool" where
  "server_call_ok hosts (Access_of k f m) \<longleftrightarrow> tag_ok hosts k f"
| "server_call_ok hosts (List_of k f) \<longleftrightarrow> tag_ok hosts k f"
| "server_call_ok hosts _ \<longleftrightarrow> True"

section \<open>What a server's calls depend on\<close>

definition within :: "string set \<Rightarrow> (nat \<Rightarrow> file_handle option) \<Rightarrow> mount \<Rightarrow> bool" where
  "within hosts H st \<longleftrightarrow> fst ` set (connections st) = hosts \<and> (\<forall>fh h. handle_at st fh = Some h \<longrightarrow> H fh = Some h)"

definition seen_from :: "(nat \<Rightarrow> file_handle option) \<Rightarrow> string \<Rightarrow> mount \<Rightarrow>
    (nat \<Rightarrow> file_handle option) \<times> server_connection option \<times> thread_pc option" where
  "seen_from H d st = (\<lambda>fh. if handle_server H fh = d then handle_at st fh else None,
     map_find (connections st) d, map_find (heartbeatThreads st) d)"

definition agree_on :: "string set \<Rightarrow> (nat \<Rightarrow> file_handle option) \<Rightarrow> string \<Rightarrow> mount \<Rightarrow> mount \<Rightarrow> bool" where
  "agree_on hosts H d st st2 \<longleftrightarrow> within hosts H st \<and> within hosts H st2 \<and> seen_from H d st = seen_from H d st2"

lemma tagged_parsed:
  assumes "tag_ok hosts k f"
  shows "ambiguate (c_string (listed_name f k)) = Some (k, f)"
proof -
  have "NUL \<notin> set (listed_name f k)"
    using assms by (simp add: tag_ok_def listed_name_def BEGIN_BRACE_def END_BRACE_def NUL_def)
  then show ?thesis
    using ambiguate_listed [of f k] assms by (simp add: tag_ok_def c_string_def)
qed

lemma tagged_found: "tag_ok hosts k f \<Longrightarrow> within hosts H st \<Longrightarrow> \<exists>c. map_find (connections st) k = Some c"
  using map_find_None by (fastforce simp: tag_ok_def within_def)

text \<open>
  The three ways in which a call changes the mount: it does not, it puts a new state of the
  connection of its server into the table, perhaps with a step of the thread, or it removes a
  handle.
\<close>

definition touched :: "string \<Rightarrow> server_connection \<Rightarrow> mount \<Rightarrow> mount" where
  "touched k c st = st\<lparr>connections := map_put k c (connections st)\<rparr>"

definition stepped :: "string \<Rightarrow> thread_pc \<Rightarrow> mount \<Rightarrow> mount" where
  "stepped k pc st = st\<lparr>heartbeatThreads := map_put k pc (heartbeatThreads st)\<rparr>"

definition dropped :: "nat \<Rightarrow> mount \<Rightarrow> mount" where
  "dropped fh st = st\<lparr>handles := (handles st)[fh - 1 := None]\<rparr>"

lemma parts_kept [simp]:
  "fh \<noteq> 0 \<Longrightarrow> handle_at (dropped fh st) g = (if g = fh then None else handle_at st g)"
  "handle_at (touched k c st) g = handle_at st g" "handle_at (stepped k pc st) g = handle_at st g"
  "connections (dropped fh st) = connections st" "connections (stepped k pc st) = connections st"
  "connections (touched k c st) = map_put k c (connections st)"
  "heartbeatThreads (dropped fh st) = heartbeatThreads st" "heartbeatThreads (touched k c st) = heartbeatThreads st"
  "heartbeatThreads (stepped k pc st) = map_put k pc (heartbeatThreads st)"
  by (cases fh; cases g; simp add: handle_at_def dropped_def)
     (simp_all add: handle_at_def dropped_def touched_def stepped_def)

lemma within_kept:
  "within hosts H st \<Longrightarrow> k \<in> hosts \<Longrightarrow> within hosts H (touched k c st)"
  "within hosts H st \<Longrightarrow> within hosts H (stepped k pc st)"
  "within hosts H st \<Longrightarrow> fh \<noteq> 0 \<Longrightarrow> within hosts H (dropped fh st)"
  by (auto simp: within_def map_keys_put simp del: image_iff)

lemma seen_kept:
  "seen_from H d (touched k c st) = (let (hs, x, t) = seen_from H d st in (hs, if d = k then Some c else x, t))"
  "seen_from H d (stepped k pc st) = (let (hs, x, t) = seen_from H d st in (hs, x, if d = k then Some pc else t))"
  "fh \<noteq> 0 \<Longrightarrow> seen_from H d (dropped fh st) =
     (let (hs, x, t) = seen_from H d st in (if d = handle_server H fh then hs(fh := None) else hs, x, t))"
  by (auto simp: seen_from_def map_find_put fun_eq_iff)

lemma seenD:
  assumes "agree_on hosts H d st st2"
  shows "map_find (connections st2) d = map_find (connections st) d"
    and "map_find (heartbeatThreads st2) d = map_find (heartbeatThreads st) d"
    and "handle_server H fh = d \<Longrightarrow> handle_at st2 fh = handle_at st fh"
    and "within hosts H st" and "within hosts H st2"
  using assms by (auto simp: agree_on_def seen_from_def fun_eq_iff split: if_splits)

lemma agree_kept:
  assumes "agree_on hosts H d st st2"
  shows "d \<in> hosts \<Longrightarrow> agree_on hosts H d (touched d c st) (touched d c st2)"
    and "agree_on hosts H d (stepped d pc st) (stepped d pc st2)"
    and "fh \<noteq> 0 \<Longrightarrow> agree_on hosts H d (dropped fh st) (dropped fh st2)"
    and "k \<noteq> d \<Longrightarrow> k \<in> hosts \<Longrightarrow> agree_on hosts H d (touched k c st) st2"
    and "k \<noteq> d \<Longrightarrow> agree_on hosts H d (stepped k pc st) st2"
    and "fh \<noteq> 0 \<Longrightarrow> handle_server H fh \<noteq> d \<Longrightarrow> agree_on hosts H d (dropped fh st) st2"
  using assms by (simp_all add: agree_on_def within_kept seen_kept)

text \<open>A call is a function of what its server sees, and changes only that.\<close>

definition effect :: "string set \<Rightarrow> (nat \<Rightarrow> file_handle option) \<Rightarrow> string \<Rightarrow> (mount \<Rightarrow> mount) \<Rightarrow> bool" where
  "effect hosts H k f \<longleftrightarrow> f = id \<or> (k \<in> hosts \<and> (\<exists>c. f = touched k c)) \<or>
     (k \<in> hosts \<and> (\<exists>c pc. f = stepped k pc \<circ> touched k c)) \<or>
     (\<exists>fh. fh \<noteq> 0 \<and> handle_server H fh = k \<and> f = dropped fh)"

lemma effect_agree:
  assumes "effect hosts H k f" and "agree_on hosts H d st st2"
  shows "d \<noteq> k \<Longrightarrow> agree_on hosts H d (f st) st2" and "d = k \<Longrightarrow> agree_on hosts H d (f st) (f st2)"
  using assms
  by (auto simp: effect_def intro: agree_kept agree_kept(2) [OF agree_kept(1)] agree_kept(5) [OF agree_kept(4)])

definition local_to ::
  "string set \<Rightarrow> (nat \<Rightarrow> file_handle option) \<Rightarrow> string \<Rightarrow> (mount \<Rightarrow> ('r \<times> mount) option) \<Rightarrow> mount \<Rightarrow> 'r \<Rightarrow> mount \<Rightarrow> bool" where
  "local_to hosts H k call st r st' \<longleftrightarrow>
     (\<exists>f. effect hosts H k f \<and> st' = f st \<and> (\<forall>st2. agree_on hosts H k st st2 \<longrightarrow> call st2 = Some (r, f st2)))"

lemma handle_known:
  assumes "within hosts H st" and "handle_at st fh = Some h"
  shows "handle_server H fh = fh_server h"
  using assms by (simp add: within_def handle_server_def)

lemma find_known: "within hosts H st \<Longrightarrow> map_find (connections st) k = Some c \<Longrightarrow> k \<in> hosts"
  using map_find_None [of "connections st" k] by (auto simp: within_def)

lemma read_local:
  assumes "within hosts H st" and "agfs_read p buf off fh st = Some (r, st')"
  shows "local_to hosts H (handle_server H fh) (agfs_read p buf off fh) st r st'"
proof -
  obtain h where h: "handle_at st fh = Some h" using assms(2) by (auto simp: agfs_read_def bind_eq_Some_conv)
  note k = handle_known [OF assms(1) h]
  have seen: "handle_at st2 fh = Some h" "map_find (connections st2) (fh_server h) = map_find (connections st) (fh_server h)"
    if "agree_on hosts H (fh_server h) st st2" for st2
    using seenD [OF that] h k by simp_all
  show ?thesis
  proof (cases "\<exists>c. map_find (connections st) (fh_server h) = Some c \<and> connected c")
    case True
    then obtain c where c: "map_find (connections st) (fh_server h) = Some c" "connected c" by blast
    then obtain c' where "st' = touched (fh_server h) c' st" and
      "\<forall>st2. agree_on hosts H (fh_server h) st st2 \<longrightarrow> agfs_read p buf off fh st2 = Some (r, touched (fh_server h) c' st2)"
      using assms(2) h seen
      by (auto simp: agfs_read_def bind_eq_Some_conv touched_def Let_def split: if_splits)
    then show ?thesis
      using find_known [OF assms(1) c(1)] unfolding local_to_def k effect_def by blast
  next
    case False
    then have "st' = st" "\<forall>st2. agree_on hosts H (fh_server h) st st2 \<longrightarrow> agfs_read p buf off fh st2 = Some (r, st2)"
      using assms(2) h seen by (auto simp: agfs_read_def Let_def split: option.splits if_splits)
    then show ?thesis unfolding local_to_def k effect_def by (intro exI [of _ id]) simp
  qed
qed

lemma write_local:
  assumes "within hosts H st" and "agfs_write p buf off fh st = Some (r, st')"
  shows "local_to hosts H (handle_server H fh) (agfs_write p buf off fh) st r st'"
proof -
  obtain h where h: "handle_at st fh = Some h" using assms(2) by (auto simp: agfs_write_def bind_eq_Some_conv)
  note k = handle_known [OF assms(1) h]
  have seen: "handle_at st2 fh = Some h" "map_find (connections st2) (fh_server h) = map_find (connections st) (fh_server h)"
    if "agree_on hosts H (fh_server h) st st2" for st2
    using seenD [OF that] h k by simp_all
  show ?thesis
  proof (cases "\<exists>c. map_find (connections st) (fh_server h) = Some c \<and> connected c")
    case True
    then obtain c where c: "map_find (connections st) (fh_server h) = Some c" "connected c" by blast
    then obtain c' where "st' = touched (fh_server h) c' st" and
      "\<forall>st2. agree_on hosts H (fh_server h) st st2 \<longrightarrow> agfs_write p buf off fh st2 = Some (r, touched (fh_server h) c' st2)"
      using assms(2) h seen
      by (auto simp: agfs_write_def touched_def Let_def split_beta)
    then show ?thesis
      using find_known [OF assms(1) c(1)] unfolding local_to_def k effect_def by blast
  next
    case False
    then have "st' = st" "\<forall>st2. agree_on hosts H (fh_server h) st st2 \<longrightarrow> agfs_write p buf off fh st2 = Some (r, st2)"
      using assms(2) h seen by (auto simp: agfs_write_def Let_def split: option.splits if_splits)
    then show ?thesis unfolding local_to_def k effect_def by (intro exI [of _ id]) simp
  qed
qed

lemma release_local:
  assumes "within hosts H st" and "agfs_release fh st = Some (r, st')"
  shows "local_to hosts H (handle_server H fh) (agfs_release fh) st r st'"
proof (cases "fh = 0")
  case True
  then show ?thesis
    using assms(2) unfolding local_to_def effect_def by (intro exI [of _ id]) (simp add: agfs_release_def)
next
  case False
  then obtain h where h: "handle_at st fh = Some h" and r: "r = 0" "st' = dropped fh st"
    using assms(2) by (auto simp: agfs_release_def dropped_def bind_eq_Some_conv)
  have "agfs_release fh st2 = Some (r, dropped fh st2)" if "agree_on hosts H (handle_server H fh) st st2" for st2
    using seenD(3) [OF that refl] h r False by (simp add: agfs_release_def dropped_def)
  then show ?thesis
    using False r unfolding local_to_def effect_def by (intro exI [of _ "dropped fh"]) auto
qed

lemma access_local:
  assumes "within hosts H st" and "tag_ok hosts k f" and "agfs_access p (listed_name f k) m st = Some (r, st')"
  shows "local_to hosts H k (agfs_access p (listed_name f k) m) st r st'"
proof -
  obtain c where c: "map_find (connections st) k = Some c" using tagged_found [OF assms(2,1)] by blast
  obtain e c' where a: "access p f m c = (e, c')" by fastforce
  have call: "agfs_access p (listed_name f k) m s = Some (int_of_err e, touched k c' s)"
    if "map_find (connections s) k = Some c" for s :: mount
    using that a tagged_parsed [OF assms(2)] by (simp add: agfs_access_def touched_def)
  have "k \<in> hosts" using assms(2) by (simp add: tag_ok_def)
  then show ?thesis
    using call assms(3) c seenD(1) unfolding local_to_def effect_def
    by (intro exI [of _ "touched k c'"]) auto
qed

lemma list_local:
  assumes "within hosts H st" and "tag_ok hosts k f" and "agfs_readdir p (listed_name f k) st = Some (r, st')"
  shows "local_to hosts H k (agfs_readdir p (listed_name f k)) st r st'"
proof -
  obtain c where c: "map_find (connections st) k = Some c" using tagged_found [OF assms(2,1)] by blast
  let ?one = "readdir_one p f k c (word_of_int (- ENOTDIR)) new_disambiguater"
  obtain e d c' where one: "?one = Some (e, d, c')"
    using assms(3) c tagged_parsed [OF assms(2)] by (auto simp: agfs_readdir_def bind_eq_Some_conv)
  have call: "agfs_readdir p (listed_name f k) s = Some ((int_of_err e, filled d), touched k c' s)"
    if "map_find (connections s) k = Some c" for s :: mount
    using that one tagged_parsed [OF assms(2)] by (simp add: agfs_readdir_def touched_def)
  have "k \<in> hosts" using assms(2) by (simp add: tag_ok_def)
  then show ?thesis
    using call assms(3) c seenD(1) unfolding local_to_def effect_def
    by (intro exI [of _ "touched k c'"]) auto
qed

lemma thread_local:
  assumes "within hosts H st" and "thread_op p net k st = Some (r, st')"
  shows "local_to hosts H k (thread_op p net k) st r st'"
proof -
  obtain pc c where c: "map_find (heartbeatThreads st) k = Some pc" "map_find (connections st) k = Some c"
    using assms(2) by (auto simp: thread_op_def bind_eq_Some_conv)
  obtain pc' c' where t: "thread_step p net pc c = (pc', c')" by fastforce
  let ?f = "stepped k pc' \<circ> touched k c'"
  have call: "thread_op p net k s = Some (Ticked, ?f s)"
    if "map_find (heartbeatThreads s) k = Some pc" "map_find (connections s) k = Some c" for s
    using that t by (simp add: thread_op_def stepped_def touched_def)
  have "k \<in> hosts" by (rule find_known [OF assms(1) c(2)])
  then show ?thesis
    using call [OF c] call assms(2) c seenD(1,2) unfolding local_to_def effect_def
    by (intro exI [of _ ?f]) auto
qed

lemma op_local:
  assumes "within hosts H st" and "server_call_ok hosts rq" and "server_op p net rq st = Some (r, st')"
  shows "local_to hosts H (addressee H rq) (server_op p net rq) st r st'"
proof (cases rq)
  case (Read_via fh buf off)
  then obtain r0 where "agfs_read p buf off fh st = Some (r0, st')" "r = Bytes_read (fst r0) (snd r0)"
    using assms(3) by (auto simp: bind_eq_Some_conv)
  with read_local [OF assms(1)] show ?thesis
    unfolding Read_via local_to_def by (fastforce simp: split_beta)
next
  case (Write_via fh buf off)
  then obtain r0 where "agfs_write p buf off fh st = Some (r0, st')" "r = Returned r0"
    using assms(3) by (auto simp: bind_eq_Some_conv)
  with write_local [OF assms(1)] show ?thesis
    unfolding Write_via local_to_def by fastforce
next
  case (Release_via fh)
  then obtain r0 where "agfs_release fh st = Some (r0, st')" "r = Returned r0"
    using assms(3) by (auto simp: bind_eq_Some_conv)
  with release_local [OF assms(1)] show ?thesis
    unfolding Release_via local_to_def by fastforce
next
  case (Access_of k f m)
  then obtain r0 where "agfs_access p (listed_name f k) m st = Some (r0, st')" "r = Returned r0"
    using assms(3) by (auto simp: bind_eq_Some_conv)
  with access_local [OF assms(1)] assms(2) show ?thesis
    unfolding Access_of local_to_def by fastforce
next
  case (List_of k f)
  then obtain r0 where "agfs_readdir p (listed_name f k) st = Some (r0, st')" "r = Entries (fst r0) (snd r0)"
    using assms(3) by (auto simp: bind_eq_Some_conv)
  with list_local [OF assms(1)] assms(2) show ?thesis
    unfolding List_of local_to_def by (fastforce simp: split_beta)
next
  case (Thread_of k)
  then obtain r0 where "thread_op p net k st = Some (r0, st')" "r = Stepped"
    using assms(3) by (auto simp: bind_eq_Some_conv)
  with thread_local [OF assms(1)] show ?thesis
    unfolding Thread_of local_to_def by fastforce
qed

text \<open>Both unwinding conditions follow from that.\<close>

interpretation servers: isolated "server_op p net" "server_call_ok hosts" "addressee H" "agree_on hosts H"
  for p net hosts H
proof unfold_locales
  fix rq st r st' d st2
  assume a: "server_call_ok hosts rq" "server_op p net rq st = Some (r, st')" "addressee H rq \<noteq> d"
    "agree_on hosts H d st st2"
  have "within hosts H st" using a(4) by (rule seenD)
  from op_local [OF this a(1,2)] show "agree_on hosts H d st' st2"
    using effect_agree(1) [OF _ a(4)] a(3) unfolding local_to_def by blast
next
  fix rq st r st' st2
  assume a: "server_call_ok hosts rq" "server_op p net rq st = Some (r, st')" "agree_on hosts H (addressee H rq) st st2"
  have "within hosts H st" using a(3) by (rule seenD)
  from op_local [OF this a(1,2)]
  show "\<exists>st2'. server_op p net rq st2 = Some (r, st2') \<and> agree_on hosts H (addressee H rq) st' st2'"
    using effect_agree(2) [OF _ a(3) refl] a(3) unfolding local_to_def by blast
qed

section \<open>Properties\<close>


text \<open>A mount whose first server is down and one whose first server sends something else.\<close>

definition file_client :: server_connection where
  "file_client = open_client\<lparr>rx := rx_push (be_bytes (0 :: agerr_t)) []\<rparr>"

definition other_mount :: "server_connection \<Rightarrow> mount" where
  "other_mount c = \<lparr>connections = [(''h1'', c), (''h2'', file_client)], handles = [],
     heartbeatThreads = [(''h1'', Check), (''h2'', Check)], unmounted = False\<rparr>"


end
