(* ===== verification/Keygen.thy ===== *)
theory Keygen
  imports Constants StdStream Serving Mount
begin

text \<open>
  \<^verbatim>\<open>agfs-keygen.cpp\<close>: a random key, written in hexadecimal to a key file for the client and
  to the server's key list. The files are what the program finds: whether the directory is
  there, the content of the list (\<open>None\<close> when it cannot be opened for appending), which key
  files can be opened, and the bytes that the random device delivers.
\<close>

definition hexValues :: string where
  "hexValues = ''0123456789ABCDEF''"

definition upperByte :: "byte \<Rightarrow> char" where
  "upperByte c = hexValues ! unat (drop_bit 4 (0xF0 AND c))"

definition lowerByte :: "byte \<Rightarrow> char" where
  "lowerByte c = hexValues ! unat (0x0F AND c)"

text \<open>
  The loop, with the number of rounds that are left. A read that fails leaves the variable as
  it was, uninitialised.
\<close>

fun key_str_loop :: "plat \<Rightarrow> nat \<Rightarrow> byte list \<Rightarrow> string \<Rightarrow> string" where
  "key_str_loop p 0 devRandom keyStr = keyStr"
| "key_str_loop p (Suc n) devRandom keyStr =
     (let c = (case devRandom of [] \<Rightarrow> junk p 0 | b # bs \<Rightarrow> b)
      in key_str_loop p n (tl devRandom) (keyStr @ [upperByte c, lowerByte c]))"

record keygen_env =
  kg_dir_exists :: bool
  kg_create_directory :: bool
  kg_random :: "byte list"
  kg_list :: "string option"
  kg_opens :: "string \<Rightarrow> bool"

text \<open>The exit status, the key list, and the key file with its name.\<close>

record keygen_result =
  kg_status :: int
  kg_list_after :: "string option"
  kg_keyfile :: "(string \<times> string) option"

definition agfs_keygen :: "plat \<Rightarrow> keygen_env \<Rightarrow> string list \<Rightarrow> keygen_result" where
  "agfs_keygen p env argv =
     (let stopped = (\<lambda>status. \<lparr>kg_status = status, kg_list_after = kg_list env, kg_keyfile = None\<rparr>) in
      if length argv \<noteq> 6 then stopped 0
      else if \<not> kg_dir_exists env \<and> \<not> kg_create_directory env then stopped (- ENOENT)
      else (case kg_list env of
          None \<Rightarrow> stopped (- ENOENT)
        | Some keyList \<Rightarrow>
            (let keyFileName = KEY_NAME_PATH @ argv ! 5 @ KEY_EXTENSION in
             if \<not> kg_opens env keyFileName then stopped (- ENOENT)
             else
               (let header = argv ! 1 @ [NL] @ argv ! 2 @ [NL];
                    keyStr = key_str_loop p KEY_LEN (kg_random env) ''''
                in \<lparr>kg_status = 0,
                    kg_list_after = Some (keyList @ argv ! 4 @ '' '' @ argv ! 3 @ '' '' @ keyStr @ [NL]),
                    kg_keyfile = Some (keyFileName, header @ keyStr @ [NL])\<rparr>))))"

section \<open>The key\<close>

text \<open>Reading two digits back.\<close>

definition hex_value :: "char \<Rightarrow> byte" where
  "hex_value c = (case find (\<lambda>i. hexValues ! i = c) [0..<16] of Some i \<Rightarrow> word_of_nat i | None \<Rightarrow> 0)"

fun unhex :: "string \<Rightarrow> byte list" where
  "unhex (u # l # s) = (push_bit 4 (hex_value u) OR hex_value l) # unhex s"
| "unhex _ = []"

text \<open>The two masks select the two halves of the byte.\<close>

lemma half_masks: "(0x0F :: byte) = mask 4" "(0xF0 :: byte) = push_bit 4 (mask 4)"
  by (simp_all add: mask_eq_exp_minus_1 push_bit_eq_mult)

lemma halves:
  "drop_bit 4 (0xF0 AND c) = drop_bit 4 (c :: byte)" "0x0F AND c = take_bit 4 (c :: byte)"
proof -
  show "drop_bit 4 (0xF0 AND c) = drop_bit 4 c"
    unfolding half_masks
    by (rule bit_word_eqI) (auto simp: bit_simps dest: bit_imp_le_length)
  show "0x0F AND c = take_bit 4 c"
    unfolding half_masks by (simp only: take_bit_eq_mask and.commute)
qed

lemma nibbles:
  "unat (drop_bit 4 (0xF0 AND c :: byte)) < 16" "unat (0x0F AND c :: byte) < 16"
proof -
  have "unat c < 256" using unsigned_less [of c] by simp
  then show "unat (drop_bit 4 (0xF0 AND c :: byte)) < 16"
    unfolding halves by (simp only: drop_bit_eq_div unat_div) simp
  show "unat (0x0F AND c :: byte) < 16"
    using take_bit_nat_less_exp [of 4 "unat c"] unfolding halves by (simp add: unsigned_take_bit_eq)
qed

lemma hex_value_nth: "i < 16 \<Longrightarrow> hex_value (hexValues ! i) = word_of_nat i"
proof -
  have "\<forall>i \<in> set [0..<16]. hex_value (hexValues ! i) = word_of_nat i"
    by code_simp
  then show "i < 16 \<Longrightarrow> hex_value (hexValues ! i) = word_of_nat i" by simp
qed

lemma unhex_byte: "push_bit 4 (hex_value (upperByte c)) OR hex_value (lowerByte c) = c"
proof -
  have "hex_value (upperByte c) = drop_bit 4 (0xF0 AND c)" "hex_value (lowerByte c) = 0x0F AND c"
    using nibbles [of c] by (simp_all add: upperByte_def lowerByte_def hex_value_nth)
  moreover have "push_bit 4 (drop_bit 4 (0xF0 AND c)) OR (0x0F AND c) = c"
    unfolding halves by (rule bit_word_eqI) (auto simp: bit_simps)
  ultimately show ?thesis by simp
qed

lemma key_str_loop_prefix:
  "key_str_loop p n rnd (a @ s) = a @ key_str_loop p n rnd s"
proof (induction n arbitrary: rnd s)
  case (Suc n)
  show ?case using Suc [of "tl rnd" "s @ x" for x] by (simp add: Let_def)
qed simp

lemma key_str_loop_Suc:
  "key_str_loop p (Suc n) (b # rnd) '''' = upperByte b # lowerByte b # key_str_loop p n rnd ''''"
  using key_str_loop_prefix [of p n rnd "[upperByte b, lowerByte b]" "''''"] by simp

lemma unhex_key: "n \<le> length rnd \<Longrightarrow> unhex (key_str_loop p n rnd '''') = take n rnd"
proof (induction n arbitrary: rnd)
  case (Suc n)
  then obtain b bs where "rnd = b # bs" by (cases rnd) auto
  with Suc show ?case
    using key_str_loop_Suc [of p n b bs] by (simp add: unhex_byte del: key_str_loop.simps)
qed simp

lemma length_key: "length (key_str_loop p n rnd s) = length s + 2 * n"
  by (induction n arbitrary: rnd s) (simp_all add: Let_def)

lemma hex_digit: "upperByte c \<in> set hexValues" "lowerByte c \<in> set hexValues"
proof -
  have "length hexValues = 16" by (simp add: hexValues_def)
  then show "upperByte c \<in> set hexValues" "lowerByte c \<in> set hexValues"
    using nibbles [of c] by (simp_all only: upperByte_def lowerByte_def nth_mem)
qed

lemma key_digits: "set (key_str_loop p n rnd s) \<subseteq> set s \<union> set hexValues"
proof (induction n arbitrary: rnd s)
  case (Suc n)
  show ?case
    using Suc [of "tl rnd" "s @ [upperByte (case rnd of [] \<Rightarrow> junk p 0 | b # bs \<Rightarrow> b),
        lowerByte (case rnd of [] \<Rightarrow> junk p 0 | b # bs \<Rightarrow> b)]"] hex_digit
    by (auto simp: Let_def)
qed simp

lemma hexValues_plain: "c \<in> set hexValues \<Longrightarrow> \<not> is_space c \<and> c \<noteq> NUL"
  by (auto simp: hexValues_def is_space_def NUL_def)

lemma key_word_ok: "word_ok (key_str_loop p KEY_LEN rnd '''')" "NUL \<notin> set (key_str_loop p KEY_LEN rnd '''')"
proof -
  have "key_str_loop p KEY_LEN rnd '''' \<noteq> ''''"
    using length_key [of p KEY_LEN rnd "''''"] by (auto simp: KEY_LEN_def simp del: key_str_loop.simps)
  then show "word_ok (key_str_loop p KEY_LEN rnd '''')" "NUL \<notin> set (key_str_loop p KEY_LEN rnd '''')"
    using key_digits [of p KEY_LEN rnd "''''"] hexValues_plain by (auto simp: word_ok_def)
qed

section \<open>The two files\<close>

text \<open>
  What the server and the client read from the files that one run writes: the line that the
  list gains names the mount point and the user, and both files hold the same key.
\<close>

lemma keygen_written:
  assumes "argv = [prog, host, port, user, mnt, name]"
    and "kg_dir_exists env \<or> kg_create_directory env" and "kg_list env = Some keyList"
    and "kg_opens env (KEY_NAME_PATH @ name @ KEY_EXTENSION)"
    and "word_ok host" and "word_ok port" and "key = key_str_loop p KEY_LEN (kg_random env) ''''"
  shows "\<exists>content. agfs_keygen p env argv =
           \<lparr>kg_status = 0, kg_list_after = Some (keyList @ key_line (mnt, user, key)),
            kg_keyfile = Some (KEY_NAME_PATH @ name @ KEY_EXTENSION, content)\<rparr> \<and>
         read_keyfile content = (host, port, key)"
proof -
  have "read_keyfile ((host @ [NL] @ port @ [NL]) @ key @ [NL]) = (host, port, key)"
    using read_keyfile_lines [OF assms(5,6) key_word_ok(1) [of p "kg_random env"], of "[]"] assms(7)
    by (simp add: NL_def)
  moreover have "agfs_keygen p env argv =
      \<lparr>kg_status = 0, kg_list_after = Some (keyList @ key_line (mnt, user, key)),
       kg_keyfile = Some (KEY_NAME_PATH @ name @ KEY_EXTENSION, (host @ [NL] @ port @ [NL]) @ key @ [NL])\<rparr>"
    using assms(1-4,7) by (auto simp: agfs_keygen_def Let_def simp del: key_str_loop.simps)
  ultimately show ?thesis by blast
qed

section \<open>Properties\<close>

definition keygen_example :: keygen_env where
  "keygen_example = \<lparr>kg_dir_exists = True, kg_create_directory = False, kg_random = replicate 256 0xA5,
     kg_list = Some '''', kg_opens = (\<lambda>path. True)\<rparr>"

text \<open>C31: What one run writes can be read back: the client reads from the key file the host, the
  port and the key; the line that the server's list gains names the mount point, the user and
  the same key; and the key is 512 hexadecimal digits that stand for the 256 random bytes.\<close>

theorem keygen_roundtrip:
  assumes "argv = [prog, host, port, user, mnt, name]"
    and "kg_dir_exists env \<or> kg_create_directory env" and "kg_list env = Some keyList"
    and "kg_opens env (KEY_NAME_PATH @ name @ KEY_EXTENSION)"
    and "word_ok host" and "word_ok port" and "256 \<le> length (kg_random env)"
  shows "\<exists>key content. agfs_keygen p env argv =
           \<lparr>kg_status = 0, kg_list_after = Some (keyList @ key_line (mnt, user, key)),
            kg_keyfile = Some (KEY_NAME_PATH @ name @ KEY_EXTENSION, content)\<rparr> \<and>
         read_keyfile content = (host, port, key) \<and>
         length key = 512 \<and> set key \<subseteq> set ''0123456789ABCDEF'' \<and> unhex key = take 256 (kg_random env)"
proof -
  let ?key = "key_str_loop p KEY_LEN (kg_random env) ''''"
  have "length ?key = 512" "unhex ?key = take 256 (kg_random env)" "set ?key \<subseteq> set ''0123456789ABCDEF''"
    using length_key [of p KEY_LEN "kg_random env" "''''"] unhex_key [of KEY_LEN "kg_random env" p] assms(7)
      key_digits [of p KEY_LEN "kg_random env" "''''"]
    by (simp_all add: KEY_LEN_def hexValues_def del: key_str_loop.simps)
  then show ?thesis
    using keygen_written [OF assms(1-6) refl, of p] by blast
qed

theorem keygen_roundtrip_witness:
  "\<exists>key. kg_list_after (agfs_keygen x86 keygen_example [''agfs-keygen'', ''h1'', ''80'', ''u'', ''/m'', ''k'']) =
       Some (key_line (''/m'', ''u'', key)) \<and> unhex key = replicate 256 0xA5"
proof -
  have w: "word_ok ''h1''" "word_ok ''80''" by (simp_all add: word_ok_def is_space_def)
  have e: "kg_dir_exists keygen_example \<or> kg_create_directory keygen_example"
    "kg_list keygen_example = Some ''''" "kg_opens keygen_example path"
    "256 \<le> length (kg_random keygen_example)" "take 256 (kg_random keygen_example) = replicate 256 0xA5" for path
    by (simp_all add: keygen_example_def)
  obtain key content where "agfs_keygen x86 keygen_example [''agfs-keygen'', ''h1'', ''80'', ''u'', ''/m'', ''k''] =
      \<lparr>kg_status = 0, kg_list_after = Some ('''' @ key_line (''/m'', ''u'', key)), kg_keyfile = Some content\<rparr>"
    "unhex key = replicate 256 0xA5"
    using keygen_roundtrip [OF refl e(1-3) w e(4), of x86 "''agfs-keygen''" "''u''" "''/m''" "''k''"] e(5)
    by metis
  then show ?thesis by auto
qed

end
