(* ===== verification/ListedNames.thy ===== *)
theory ListedNames
  imports AgfsFuse
begin

text \<open>
  The names of a listing of the mounted file system, and what opening them does: \<^verbatim>\<open>readdir\<close>
  merges what the servers list, and \<^verbatim>\<open>open\<close> takes a name apart again or asks every server
  for it. The two agree but for one case, a file whose name is that of a directory elsewhere.
\<close>

section \<open>Listings and existence\<close>

text \<open>
  The servers of the table say that they have the file \<open>f\<close> of the directory exactly if they
  have listed it, as a file or as a directory.
\<close>

definition says_listed ::
  "plat \<Rightarrow> string \<Rightarrow> (string \<Rightarrow> (string \<times> stat) list) \<Rightarrow> (string \<Rightarrow> agerr_t) \<Rightarrow> string \<Rightarrow> 'a fuse_scheme \<Rightarrow> bool" where
  "says_listed p dir files err f st \<longleftrightarrow>
     (\<forall>e \<in> set (connections st). \<not> neg_err (fst (access p (dir @ f) F_OK (snd e))) \<longleftrightarrow>
        \<not> neg_err (err (fst e)) \<and> f \<in> fst ` set (files (fst e)))"

lemma holders_listed:
  assumes "says_listed p dir files err f st"
  shows "holders p (dir @ f) st =
     filter (\<lambda>k. \<not> neg_err (err k) \<and> f \<in> fst ` set (files k)) (map fst (connections st))"
proof -
  have "filter (\<lambda>e. \<not> neg_err (fst (access p (dir @ f) F_OK (snd e)))) (connections st) =
      filter (\<lambda>e. \<not> neg_err (err (fst e)) \<and> f \<in> fst ` set (files (fst e))) (connections st)"
    using assms by (intro filter_cong refl) (auto simp: says_listed_def)
  then show ?thesis by (simp add: holders_def filter_map comp_def)
qed

lemma filter_one:
  assumes "distinct xs" and "x \<in> set xs" and "P x"
  shows "(\<exists>y. filter P xs = [y]) \<longleftrightarrow> (\<forall>y \<in> set xs. P y \<longrightarrow> y = x)"
    and "filter P xs = [y] \<Longrightarrow> y = x"
proof -
  have x: "x \<in> set (filter P xs)" using assms(2,3) by simp
  then show one: "y = x" if "filter P xs = [y]" for y using that by simp
  show "(\<exists>y. filter P xs = [y]) \<longleftrightarrow> (\<forall>y \<in> set xs. P y \<longrightarrow> y = x)"
  proof
    assume "\<exists>y. filter P xs = [y]"
    then have "filter P xs = [x]" using one by blast
    then have "set (filter P xs) = {x}" by simp
    then show "\<forall>y \<in> set xs. P y \<longrightarrow> y = x" by auto
  next
    assume "\<forall>y \<in> set xs. P y \<longrightarrow> y = x"
    then have only: "set (filter P xs) = {x}" unfolding set_filter using assms(2,3) by blast
    have "distinct (filter P xs)" using assms(1) by simp
    from distinct_card [OF this] have "length (filter P xs) = 1" unfolding only by simp
    then show "\<exists>y. filter P xs = [y]" by (cases "filter P xs") auto
  qed
qed

text \<open>An entry of a listing that is not a directory is a file of a server.\<close>

lemma merged_dir_mode: "merged_dir files err ks name acc = Some a \<Longrightarrow>
    acc = Some a \<or> S_ISDIR (st_mode a)"
proof (induction ks arbitrary: acc)
  case (Cons k ks)
  let ?acc = "if neg_err (err k) then acc
      else (case listed_dir (files k) name of None \<Rightarrow> acc | Some st' \<Rightarrow> Some st')"
  have "merged_dir files err ks name ?acc = Some a"
    using Cons.prems by (simp add: merged_dir_def)
  from Cons.IH [OF this] show ?case
    by (auto simp: listed_dir_def is_dir_entry_def split: if_splits option.splits dest!: map_of_SomeD)
qed (simp add: merged_dir_def)

section \<open>Opening what has been listed\<close>

lemma listed_opens:
  assumes "(k, a) \<in> set (merged_files files err ks f)" and "ks = map fst (connections st)" and "map_ok (connections st)"
    and "says_listed p dir files err f st" and "clean_name (dir @ f)" and "clean_server k" and "k \<noteq> []"
    and "NUL \<notin> set (dir @ f)" and "NUL \<notin> set k" and "length (dir @ f) + length k + 4 < 2 ^ 64"
    and "alone \<longleftrightarrow> length (merged_files files err ks f) = 1"
    and "name = (if alone then f else f @ ''{:'' @ k @ '':}'')"
  shows "agfs_open p (dir @ name) flags fh st = Some
     (if \<not> alone then open_on p k (dir @ f) flags fh st
      else if \<exists>k' \<in> set ks. k' \<noteq> k \<and> \<not> neg_err (err k') \<and> f \<in> fst ` set (files k')
      then ((- ENOENT, fh), snd (checkExistance p (dir @ f) st))
      else open_on p k (dir @ f) flags fh (snd (checkExistance p (dir @ f) st)))"
proof (cases alone)
  case False
  then have "dir @ name = listed_name (dir @ f) k"
    by (simp add: assms(12) listed_name_def BEGIN_BRACE_def END_BRACE_def)
  then show ?thesis
    using agfs_open_tagged [OF assms(5-10)] False by simp
next
  case True
  let ?P = "\<lambda>k. \<not> neg_err (err k) \<and> f \<in> fst ` set (files k)"
  have k: "k \<in> set ks" "?P k" using assms(1) by (force simp: merged_files_in)+
  have ks: "distinct ks" using smap.entries_distinct [OF assms(3)] by (simp add: assms(2))
  have holders: "holders p (dir @ f) st = filter ?P ks"
    using holders_listed [OF assms(4)] by (simp add: assms(2))
  have plain: "ambiguate (c_string (dir @ f)) = Some ('''', dir @ f)"
    using ambiguate_clean [OF assms(5)] assms(8) by (simp add: c_string_def)
  note one = filter_one [OF ks, of k ?P, OF k]
  have "agfs_open p (dir @ f) flags fh st = Some
     (case filter ?P ks of
        [server] \<Rightarrow> open_on p server (dir @ f) flags fh (snd (checkExistance p (dir @ f) st))
      | _ \<Rightarrow> ((- ENOENT, fh), snd (checkExistance p (dir @ f) st)))"
    using agfs_open_plain [OF plain, of p flags fh st] holders by simp
  moreover have "filter ?P ks = [k]" if "\<not> (\<exists>k' \<in> set ks. k' \<noteq> k \<and> ?P k')"
    using one that by blast
  moreover have "\<nexists>y. filter ?P ks = [y]" if "\<exists>k' \<in> set ks. k' \<noteq> k \<and> ?P k'"
    using one(1) that by blast
  ultimately show ?thesis
    using True assms(12) by (auto split: list.split)
qed

text \<open>The name of a file that only one server has is, on the others, at most that of a directory.\<close>

definition directory_elsewhere ::
  "(string \<Rightarrow> (string \<times> stat) list) \<Rightarrow> (string \<Rightarrow> agerr_t) \<Rightarrow> string list \<Rightarrow> string \<Rightarrow> string \<Rightarrow> bool" where
  "directory_elsewhere files err ks k f \<longleftrightarrow>
     (\<exists>k' \<in> set ks. k' \<noteq> k \<and> \<not> neg_err (err k') \<and> (\<exists>v \<in> set (files k'). fst v = f \<and> is_dir_entry v))"

lemma alone_elsewhere:
  assumes "(k, a) \<in> set (merged_files files err ks f)" and "length (merged_files files err ks f) = 1"
  shows "(\<exists>k' \<in> set ks. k' \<noteq> k \<and> \<not> neg_err (err k') \<and> f \<in> fst ` set (files k')) \<longleftrightarrow>
    directory_elsewhere files err ks k f"
proof
  assume "\<exists>k' \<in> set ks. k' \<noteq> k \<and> \<not> neg_err (err k') \<and> f \<in> fst ` set (files k')"
  then obtain k' a' where k': "k' \<in> set ks" "k' \<noteq> k" "\<not> neg_err (err k')" "(f, a') \<in> set (files k')" by auto
  have "merged_files files err ks f = [(k, a)]" using assms by (auto simp: length_Suc_conv)
  then have "(k', a') \<notin> set (merged_files files err ks f)" using k'(2) by simp
  then have "is_dir_entry (f, a')" using k' by (simp add: merged_files_in is_dir_entry_def)
  then show "directory_elsewhere files err ks k f" using k' by (force simp: directory_elsewhere_def)
qed (auto simp: directory_elsewhere_def)

section \<open>Properties\<close>

text \<open>C4: Opening what has been listed: every name of a listing of the mounted root of a path that is
  not a directory is the name of a file \<open>f\<close> of a server \<open>k\<close>, with the metadata that this server
  has sent; and as long as the servers have what they have listed, \<^verbatim>\<open>open\<close> on that name asks
  this server, no other one, to open \<open>f\<close>. There is one exception: the name of a file that only
  one server has is listed without a tag also when it is the name of a directory on another
  server, and \<^verbatim>\<open>open\<close> is then \<^verbatim>\<open>ENOENT\<close>, since it counts directories.\<close>

theorem listing_opens:
  assumes "map_ok (connections st)" and "ambiguate (c_string path) = Some (server, file)"
    and "map_find (connections st) server = None"
    and "lists p file (connections st) files err" and "ks = map fst (connections st)"
    and "agfs_readdir p path st = Some ((r, entries), st1)" and "(name, Some a) \<in> set entries"
    and "\<not> S_ISDIR (st_mode a)"
    and "\<forall>k \<in> set ks. clean_server k \<and> k \<noteq> [] \<and> NUL \<notin> set k"
    and "map fst (connections st2) = ks"
    and "\<forall>k \<in> set ks. \<forall>v \<in> set (files k). says_listed p dir files err (fst v) st2 \<and>
       clean_name (dir @ fst v) \<and> NUL \<notin> set (dir @ fst v) \<and> length (dir @ fst v) + length k + 4 < 2 ^ 64"
  shows "\<exists>k f. k \<in> set ks \<and> \<not> neg_err (err k) \<and> (f, a) \<in> set (files k) \<and>
    (name = f \<or> name = f @ ''{:'' @ k @ '':}'') \<and>
    agfs_open p (dir @ name) flags fh st2 = Some
      (if name \<noteq> f then open_on p k (dir @ f) flags fh st2
       else if directory_elsewhere files err ks k f
       then ((- ENOENT, fh), snd (checkExistance p (dir @ f) st2))
       else open_on p k (dir @ f) flags fh (snd (checkExistance p (dir @ f) st2)))"
proof -
  have "\<forall>k \<in> fst ` set (connections st). NUL \<notin> set k" using assms(5,9) by auto
  from merged_listing [OF assms(1-4) this assms(5)]
  obtain e entries0 st0 where read: "agfs_readdir p path st = Some ((int_of_err e, entries0), st0)"
    and mem: "\<forall>name s. (name, Some s) \<in> set entries0 \<longleftrightarrow>
      (\<exists>f k. (k, s) \<in> set (merged_files files err ks f) \<and>
         name = (if length (merged_files files err ks f) = 1 then f else f @ ''{:'' @ k @ '':}''))
      \<or> merged_dir files err ks name None = Some s"
    by (elim exE conjE) (rule that)
  have "entries0 = entries" using read assms(6) by simp
  then have "(\<exists>f k. (k, a) \<in> set (merged_files files err ks f) \<and>
         name = (if length (merged_files files err ks f) = 1 then f else f @ ''{:'' @ k @ '':}''))
      \<or> merged_dir files err ks name None = Some a"
    using mem assms(7) by blast
  moreover have "merged_dir files err ks name None \<noteq> Some a"
    using merged_dir_mode assms(8) by fastforce
  ultimately obtain f k where f: "(k, a) \<in> set (merged_files files err ks f)"
    and name: "name = (if length (merged_files files err ks f) = 1 then f else f @ ''{:'' @ k @ '':}'')"
    by blast
  from f have k: "k \<in> set ks" "\<not> neg_err (err k)" "(f, a) \<in> set (files k)"
    by (simp_all add: merged_files_in)
  have ok: "map_ok (connections st2)"
    using assms(1,5,10) map_ok_keys [of "connections st2" "connections st"] by simp
  have v: "says_listed p dir files err f st2" "clean_name (dir @ f)" "NUL \<notin> set (dir @ f)"
    "length (dir @ f) + length k + 4 < 2 ^ 64"
    using bspec [OF bspec [OF assms(11) k(1)] k(3)] by simp_all
  have server: "clean_server k" "k \<noteq> []" "NUL \<notin> set k" using assms(9) k(1) by simp_all
  let ?alone = "length (merged_files files err ks f) = 1"
  have alone: "name = f \<longleftrightarrow> ?alone" using name by simp
  have "agfs_open p (dir @ name) flags fh st2 = Some
     (if \<not> ?alone then open_on p k (dir @ f) flags fh st2
      else if \<exists>k' \<in> set ks. k' \<noteq> k \<and> \<not> neg_err (err k') \<and> f \<in> fst ` set (files k')
      then ((- ENOENT, fh), snd (checkExistance p (dir @ f) st2))
      else open_on p k (dir @ f) flags fh (snd (checkExistance p (dir @ f) st2)))"
    by (rule listed_opens [OF f assms(10) [symmetric] ok v(1,2) server(1,2) v(3) server(3) v(4) refl name])
  also have "\<dots> = Some
      (if name \<noteq> f then open_on p k (dir @ f) flags fh st2
       else if directory_elsewhere files err ks k f
       then ((- ENOENT, fh), snd (checkExistance p (dir @ f) st2))
       else open_on p k (dir @ f) flags fh (snd (checkExistance p (dir @ f) st2)))"
    using alone_elsewhere [OF f] alone by simp
  finally show ?thesis
    using k name by (intro exI [of _ k] exI [of _ f]) (simp split: if_splits)
qed

text \<open>Two servers, one with a file and the other with a directory of the same name.\<close>

definition dir_stat :: stat where
  "dir_stat = zero_stat\<lparr>st_mode := 0x41ED\<rparr>"

definition clash_files :: "string \<Rightarrow> (string \<times> stat) list" where
  "clash_files k = [(''f'', if k = ''h1'' then zero_stat else dir_stat)]"

definition clash_client :: "byte list \<Rightarrow> string \<Rightarrow> server_connection" where
  "clash_client reply host = open_client\<lparr>sc_hostname := host, rx := rx_push reply []\<rparr>"

definition clash_mount :: "(string \<Rightarrow> byte list) \<Rightarrow> fuse" where
  "clash_mount reply = \<lparr>connections = map (\<lambda>k. (k, clash_client (reply k) k)) [''h1'', ''h2''], handles = []\<rparr>"

lemma clash_healthy: "healthy (clash_client reply host)"
  by (simp add: clash_client_def open_client_def idle_client_def healthy_def live_def)

lemma clash_lists:
  "lists x86 ''/'' (connections (clash_mount (\<lambda>k. readdir_reply (clash_files k) 0))) clash_files (\<lambda>k. 0)"
proof -
  have "entry_view (''f'', st) = (''f'', st)" if "st = zero_stat \<or> st = dir_stat" for st
    using that by (auto simp: entry_view_def stat_view_def zero_stat_def dir_stat_def)
  then have "map entry_view (clash_files k) = clash_files k" for k by (simp add: clash_files_def)
  then have "\<exists>c'. readdir x86 ''/'' (clash_client (readdir_reply (clash_files k) 0) k) = Some ((clash_files k, 0), c')" for k
    using readdir_answered [OF clash_healthy [of "readdir_reply (clash_files k) 0" k], of "''/''" "clash_files k" x86 0 "[]" "[]"]
    by (simp add: path_ok_def string_ok_def NUL_def MAX_RW_def clash_files_def clash_client_def)
  moreover have "distinct (map fst (filter (\<lambda>v. \<not> is_dir_entry v) (clash_files k)))" for k
    by (simp add: clash_files_def)
  ultimately show ?thesis by (simp add: lists_def clash_mount_def)
qed

lemma clash_access:
  "access x86 ''/f'' F_OK (clash_client (be_bytes (0 :: agerr_t)) k) =
     (0, (clash_client [] k)\<lparr>tx := access_request ''/f'' F_OK, rx := []\<rparr>)"
  using access_answered [OF clash_healthy [of "be_bytes (0 :: agerr_t)" k], of "''/f''" 0 "[]" "[]" x86 F_OK]
  by (simp add: path_ok_def NUL_def MAX_RW_def clash_client_def open_client_def idle_client_def)

theorem listing_opens_witness:
  "\<exists>r entries st1. agfs_readdir x86 ''/'' (clash_mount (\<lambda>k. readdir_reply (clash_files k) 0)) = Some ((r, entries), st1) \<and>
     (''f'', Some zero_stat) \<in> set entries \<and>
     fst (the (agfs_open x86 ''/f'' 0 7 (clash_mount (\<lambda>k. be_bytes (0 :: agerr_t))))) = (- ENOENT, 7)"
proof -
  let ?st = "clash_mount (\<lambda>k. readdir_reply (clash_files k) 0)" and ?st2 = "clash_mount (\<lambda>k. be_bytes (0 :: agerr_t))"
  let ?ks = "[''h1'', ''h2'']"
  have conns: "map_ok (connections ?st)" "map_find (connections ?st) '''' = None"
    "?ks = map fst (connections ?st)" "map fst (connections ?st2) = ?ks"
    by (simp_all add: clash_mount_def map_ok_def)
  have keys: "\<forall>k \<in> set ?ks. clean_server k \<and> k \<noteq> [] \<and> NUL \<notin> set k"
    by (simp add: clean_server_def END_BRACE_def NUL_def)
  have nul: "\<forall>k \<in> fst ` set (connections ?st). NUL \<notin> set k" by (simp add: clash_mount_def NUL_def)
  have path: "ambiguate (c_string ''/'') = Some ('''', ''/'')"
    by (simp add: c_string_def NUL_def ambiguate_def BEGIN_BRACE_def END_BRACE_def)
  have dir: "S_ISDIR (st_mode dir_stat)" and plain: "\<not> S_ISDIR (st_mode zero_stat)"
    by (simp_all add: S_ISDIR_def dir_stat_def zero_stat_def)
  have merged: "merged_files clash_files (\<lambda>k. 0) ?ks ''f'' = [(''h1'', zero_stat)]"
    using dir plain by (simp add: merged_files_def listed_files_def clash_files_def is_dir_entry_def)
  from merged_listing [OF conns(1) path conns(2) clash_lists nul conns(3)]
  obtain e entries st1 where read: "agfs_readdir x86 ''/'' ?st = Some ((int_of_err e, entries), st1)"
    and mem: "\<And>name s. (name, Some s) \<in> set entries \<longleftrightarrow>
        (\<exists>f k. (k, s) \<in> set (merged_files clash_files (\<lambda>k. 0) ?ks f) \<and>
           name = (if length (merged_files clash_files (\<lambda>k. 0) ?ks f) = 1 then f else f @ ''{:'' @ k @ '':}''))
        \<or> merged_dir clash_files (\<lambda>k. 0) ?ks name None = Some s" by blast
  have listed: "(''f'', Some zero_stat) \<in> set entries"
    by (subst mem, intro disjI1 exI [of _ "''f''"] exI [of _ "''h1''"]) (simp add: merged)
  have says: "\<forall>k \<in> set ?ks. \<forall>v \<in> set (clash_files k). says_listed x86 ''/'' clash_files (\<lambda>k. 0) (fst v) ?st2 \<and>
      clean_name (''/'' @ fst v) \<and> NUL \<notin> set (''/'' @ fst v) \<and> length (''/'' @ fst v) + length k + 4 < 2 ^ 64"
    using clash_access
    by (simp add: says_listed_def clash_mount_def clash_files_def clean_name_def BEGIN_BRACE_def END_BRACE_def NUL_def)
  obtain k f where k: "k \<in> set ?ks" "(f, zero_stat) \<in> set (clash_files k)"
    and o: "agfs_open x86 (''/'' @ ''f'') 0 7 ?st2 = Some
      (if ''f'' \<noteq> f then open_on x86 k (''/'' @ f) 0 7 ?st2
       else if directory_elsewhere clash_files (\<lambda>k. 0) ?ks k f
       then ((- ENOENT, 7), snd (checkExistance x86 (''/'' @ f) ?st2))
       else open_on x86 k (''/'' @ f) 0 7 (snd (checkExistance x86 (''/'' @ f) ?st2)))"
    using listing_opens [OF conns(1) path conns(2) clash_lists conns(3) read listed plain keys conns(4) says] by blast
  have "zero_stat \<noteq> dir_stat" using dir plain by metis
  then have "f = ''f''" "k = ''h1''" using k by (auto simp: clash_files_def split: if_splits)
  moreover have "directory_elsewhere clash_files (\<lambda>k. 0) ?ks ''h1'' ''f''"
    using dir by (simp add: directory_elsewhere_def clash_files_def is_dir_entry_def)
  ultimately show ?thesis using read listed o by simp
qed

end
