(* ===== verification/ManyMounts.thy ===== *)
theory ManyMounts
  imports AggregateSim
begin

text \<open>
  Several mounts of the same servers: every mount has its own connections and handles and, on
  each of its servers, a process of its own; but the processes of one server work on one
  system. The calls of all the mounts, in any order, are calls on one store with a table of
  handles for each mount: what is written through one mount is what is read through another.
\<close>

section \<open>Mounts, their processes and the systems of the servers\<close>

text \<open>
  The processes of the mount \<open>i\<close> are \<open>mo_remote w i\<close>. The state of the system of a server is in
  \<open>mo_system\<close>; the one that a process holds is that of its last turn and is replaced by it.
\<close>

record ('i, 'h) mounts =
  mo_mount :: "'i \<Rightarrow> mount"
  mo_remote :: "'i \<Rightarrow> string \<Rightarrow> 'h remote"
  mo_system :: "string \<Rightarrow> 'h"

definition on_systems :: "(string \<Rightarrow> 'h) \<Rightarrow> (string \<Rightarrow> 'h remote) \<Rightarrow> string \<Rightarrow> 'h remote" where
  "on_systems sys rm k = (rm k)\<lparr>rm_process := (rm_process (rm k))\<lparr>cc_host := sys k\<rparr>\<rparr>"

text \<open>The systems after a call of a mount: those of its servers are as its processes left them.\<close>

definition left_by :: "mount \<Rightarrow> (string \<Rightarrow> 'h remote) \<Rightarrow> (string \<Rightarrow> 'h) \<Rightarrow> string \<Rightarrow> 'h" where
  "left_by st rm sys k = (if k \<in> fst ` set (connections st) then cc_host (rm_process (rm k)) else sys k)"

definition after_call ::
  "'i \<Rightarrow> mount \<Rightarrow> (string \<Rightarrow> 'h remote) \<Rightarrow> ('i, 'h) mounts \<Rightarrow> ('i, 'h) mounts" where
  "after_call i st rm w = w\<lparr>mo_mount := (mo_mount w)(i := st), mo_remote := (mo_remote w)(i := rm),
     mo_system := left_by st rm (mo_system w)\<rparr>"

text \<open>A run: one call after another, each of any of the mounts.\<close>

inductive many_run ::
  "('i \<Rightarrow> plat) \<Rightarrow> network \<Rightarrow> ('i \<times> fs_call) list \<Rightarrow> ('i, 'h) mounts \<Rightarrow> fs_result list \<Rightarrow> ('i, 'h) mounts \<Rightarrow> bool"
  for p net where
  nobody: "many_run p net [] w [] w"
| somebody: "world_call (fs_op (p i) net call) (mo_mount w i) (on_systems (mo_system w) (mo_remote w i)) r st rm \<Longrightarrow>
     many_run p net calls (after_call i st rm w) rs w' \<Longrightarrow> many_run p net ((i, call) # calls) w (r # rs) w'"

inductive_simps many_run_Nil [simp]: "many_run p net [] w rs w'"

section \<open>The shared store\<close>

record 'i shared =
  sh_files :: "string \<Rightarrow> store"
  sh_handles :: "'i \<Rightarrow> file_handle option list"

definition share :: "'i \<Rightarrow> 'i shared \<Rightarrow> aggregate" where
  "share i a = \<lparr>ag_files = sh_files a, ag_handles = sh_handles a i\<rparr>"

lemma share_simps [simp]: "ag_files (share i a) = sh_files a" "ag_handles (share i a) = sh_handles a i"
  by (simp_all add: share_def)

fun shared_do :: "('i \<Rightarrow> string list) \<Rightarrow> 'i \<times> fs_call \<Rightarrow> 'i shared \<Rightarrow> fs_result \<times> 'i shared" where
  "shared_do hosts (i, call) a =
     (let (r, ag) = aggregate_do (hosts i) call (share i a)
      in (r, \<lparr>sh_files = ag_files ag, sh_handles = (sh_handles a)(i := ag_handles ag)\<rparr>))"

fun shared_ok ::
  "('i \<Rightarrow> plat) \<Rightarrow> (string \<Rightarrow> plat) \<Rightarrow> ('i \<Rightarrow> string list) \<Rightarrow> string set \<Rightarrow> 'i set \<Rightarrow> 'i \<times> fs_call \<Rightarrow> 'i shared \<Rightarrow> bool" where
  "shared_ok p q hosts names I (i, call) a \<longleftrightarrow> i \<in> I \<and> fs_ok (p i) q (hosts i) names call (share i a)"

definition all_related ::
  "(string \<Rightarrow> plat) \<Rightarrow> ('i \<Rightarrow> string list) \<Rightarrow> string set \<Rightarrow> (string \<Rightarrow> 'h \<Rightarrow> store) \<Rightarrow> 'i set \<Rightarrow>
     ('i, 'h) mounts \<Rightarrow> 'i shared \<Rightarrow> bool" where
  "all_related q hosts names files I w a \<longleftrightarrow>
     (\<forall>i \<in> I. related q (hosts i) names files (mo_mount w i) (on_systems (mo_system w) (mo_remote w i)) (share i a))"

section \<open>What a call of one mount leaves to the others\<close>

text \<open>No call removes a file, or touches a server that is not in the table of the mount.\<close>

lemma put_content_files:
  "ag_files (put_content h bs ag) k f =
     (if k = fh_server h \<and> f = fh_file h then Some bs else ag_files ag k f)"
  by (simp add: put_content_def)

lemma ag_handle_in: "ag_handle ag fh = Some h \<Longrightarrow> Some h \<in> set (ag_handles ag)"
  by (cases fh) (auto simp: ag_handle_def split: if_splits dest: sym intro: nth_mem)

lemma aggregate_frame:
  assumes "ag_ok q hosts names ag" and "fs_ok p q hosts names call ag" and "aggregate_do hosts call ag = (r, ag')"
  shows "has (ag_files ag) f k \<Longrightarrow> has (ag_files ag') f k"
    and "k \<notin> set hosts \<Longrightarrow> ag_files ag' k = ag_files ag k"
proof -
  have target_in: "fh_server (the (ag_handle ag fh)) \<in> set hosts" if "call = Write_call fh buf off" for fh buf off
    using assms(1,2) that ag_handle_in by (fastforce simp: ag_ok_def)
  show "has (ag_files ag') f k" if "has (ag_files ag) f k"
    using assms(3) that by (cases call) (auto simp: Let_def put_content_files split: option.splits)
  show "ag_files ag' k = ag_files ag k" if "k \<notin> set hosts"
  proof
    fix f
    show "ag_files ag' k f = ag_files ag k f"
      using assms(3) that target_in by (cases call) (auto simp: Let_def put_content_files split: option.splits)
  qed
qed

lemma on_systems_simps [simp]:
  "rm_os (on_systems sys rm k) = rm_os (rm k)" "rm_plat (on_systems sys rm k) = rm_plat (rm k)"
  "rm_process (on_systems sys rm k) = (rm_process (rm k))\<lparr>cc_host := sys k\<rparr>"
  by (simp_all add: on_systems_def)

lemma store_ready_host:
  "store_ready os names files a (s\<lparr>cc_host := h\<rparr>) \<longleftrightarrow>
     healthy s \<and> store_laws os (cc_mountPoint s) names files \<and> files h = a"
  by (simp add: store_ready_def healthy_def live_def)

lemma linked_on_systems:
  "linked q names files (on_systems sys rm) F k c \<longleftrightarrow>
     healthy c \<and> \<not> closed c \<and> rm_plat (rm k) = q k \<and> healthy (rm_process (rm k)) \<and>
     store_laws (rm_os (rm k)) (cc_mountPoint (rm_process (rm k))) names (files k) \<and> files k (sys k) = F k"
  by (auto simp: linked_def store_ready_host)

lemma left_by_table:
  assumes "connections st = table hosts cs"
  shows "left_by st rm sys k = (if k \<in> set hosts then cc_host (rm_process (rm k)) else sys k)"
proof -
  have "fst ` set (connections st) = set hosts" by (force simp: assms table_def)
  then show ?thesis by (simp add: left_by_def)
qed

text \<open>The mount that has made the call finds its processes as it left them.\<close>

lemma own_related:
  assumes "related q hosts names files st rm ag"
  shows "related q hosts names files st (on_systems (left_by st rm sys) rm) ag"
proof -
  from assms obtain cs pcs where rel: "sorted_wrt (<) hosts" "'''' \<notin> set hosts" "handles st = ag_handles ag"
    "ag_ok q hosts names ag" "connections st = table hosts cs" "heartbeatThreads st = table hosts pcs"
    "\<And>k. k \<in> set hosts \<Longrightarrow> linked q names files rm (ag_files ag) k (cs k)"
    "\<And>k. k \<in> set hosts \<Longrightarrow> pcs k = Check \<or> pcs k = Mount.Beat"
    unfolding related_def by blast
  have "linked q names files (on_systems (left_by st rm sys) rm) (ag_files ag) k (cs k)" if k: "k \<in> set hosts" for k
    using rel(7) [OF k] k rel(5)
    by (auto simp: linked_on_systems linked_def store_ready_def left_by_table)
  then show ?thesis
    unfolding related_def using rel by (intro conjI exI [of _ cs] exI [of _ pcs]) simp_all
qed

text \<open>Another mount finds the systems with other contents in the same files.\<close>

lemma others_related:
  assumes "related q hosts names files st (on_systems sys rm) ag"
    and "\<And>f k. has (ag_files ag) f k \<Longrightarrow> has F f k" and "\<And>k. k \<in> set hosts \<Longrightarrow> files k (sys' k) = F k"
  shows "related q hosts names files st (on_systems sys' rm) (ag\<lparr>ag_files := F\<rparr>)"
proof -
  from assms(1) obtain cs pcs where rel: "sorted_wrt (<) hosts" "'''' \<notin> set hosts" "handles st = ag_handles ag"
    "ag_ok q hosts names ag" "connections st = table hosts cs" "heartbeatThreads st = table hosts pcs"
    "\<And>k. k \<in> set hosts \<Longrightarrow> linked q names files (on_systems sys rm) (ag_files ag) k (cs k)"
    "\<And>k. k \<in> set hosts \<Longrightarrow> pcs k = Check \<or> pcs k = Mount.Beat"
    unfolding related_def by blast
  have "linked q names files (on_systems sys' rm) F k (cs k)" if "k \<in> set hosts" for k
    using rel(7) [OF that] assms(3) [OF that] by (simp add: linked_on_systems)
  moreover have "ag_ok q hosts names (ag\<lparr>ag_files := F\<rparr>)"
    using rel(4) assms(2) by (auto simp: ag_ok_def)
  ultimately show ?thesis
    unfolding related_def using rel by (intro conjI exI [of _ cs] exI [of _ pcs]) simp_all
qed

lemma systems_after:
  assumes "related q hosts names files st rm ag" and "k \<in> set hosts"
  shows "files k (left_by st rm sys k) = ag_files ag k"
  using assms by (auto simp: related_def linked_def store_ready_def left_by_table)

lemma systems_kept:
  assumes "related q hosts names files st rm ag" and "k \<notin> set hosts"
  shows "left_by st rm sys k = sys k"
  using assms by (auto simp: related_def left_by_table)

section \<open>Calls in any order\<close>

lemma somebody_simulated:
  assumes "all_related q hosts names files I w a" and "shared_ok p q hosts names I (i, call) a"
    and "shared_do hosts (i, call) a = (r, a')"
  shows "\<exists>st rm. world_call (fs_op (p i) net call) (mo_mount w i) (on_systems (mo_system w) (mo_remote w i)) r st rm \<and>
           all_related q hosts names files I (after_call i st rm w) a'"
proof -
  let ?sys = "mo_system w"
  have i: "i \<in> I" and ok: "fs_ok (p i) q (hosts i) names call (share i a)" using assms(2) by simp_all
  have rel: "related q (hosts j) names files (mo_mount w j) (on_systems ?sys (mo_remote w j)) (share j a)"
    if "j \<in> I" for j
    using assms(1) that by (simp add: all_related_def)
  obtain ag where run: "aggregate_do (hosts i) call (share i a) = (r, ag)"
    and a': "a' = \<lparr>sh_files = ag_files ag, sh_handles = (sh_handles a)(i := ag_handles ag)\<rparr>"
    using assms(3) by (auto split: prod.splits)
  obtain st rm where turn: "world_call (fs_op (p i) net call) (mo_mount w i) (on_systems ?sys (mo_remote w i)) r st rm"
    and own: "related q (hosts i) names files st rm ag"
    using call_simulated [OF rel [OF i] ok run] by blast
  note frame = aggregate_frame [OF relatedD(4) [OF rel [OF i]] ok run]
  let ?sys' = "left_by st rm ?sys"
  have sys': "files k (?sys' k) = ag_files ag k" if "j \<in> I" "k \<in> set (hosts j)" for j k
  proof (cases "k \<in> set (hosts i)")
    case True
    then show ?thesis by (rule systems_after [OF own])
  next
    case False
    have "files k (?sys k) = sh_files a k"
      using rel [OF that(1)] that(2) by (auto simp: related_def linked_on_systems)
    then show ?thesis using systems_kept [OF own False] frame(2) [OF False] by simp
  qed
  have "related q (hosts j) names files (mo_mount (after_call i st rm w) j)
      (on_systems (mo_system (after_call i st rm w)) (mo_remote (after_call i st rm w) j)) (share j a')"
    if j: "j \<in> I" for j
  proof (cases "j = i")
    case True
    have "share i a' = ag" by (cases ag) (simp add: a' share_def)
    then show ?thesis using True own_related [OF own] by (simp add: after_call_def)
  next
    case False
    have "related q (hosts j) names files (mo_mount w j) (on_systems ?sys' (mo_remote w j))
        ((share j a)\<lparr>ag_files := ag_files ag\<rparr>)"
      using frame(1) sys' [OF j] by (intro others_related [OF rel [OF j]]) simp_all
    then show ?thesis using False by (simp add: after_call_def a' share_def)
  qed
  then show ?thesis using turn by (auto simp: all_related_def)
qed

lemma many_simulated:
  assumes "all_related q hosts names files I w a"
    and "all_ok (shared_ok p q hosts names I) (shared_do hosts) calls a"
    and "run_spec (shared_do hosts) calls a = (rs, a')"
  shows "\<exists>w'. many_run p net calls w rs w' \<and> all_related q hosts names files I w' a'"
  using assms
proof (induction calls arbitrary: w a rs)
  case Nil
  then show ?case by simp
next
  case (Cons c calls)
  obtain i call where c: "c = (i, call)" by fastforce
  from Cons.prems(3) obtain r a1 rs' where
    run: "shared_do hosts c a = (r, a1)" "run_spec (shared_do hosts) calls a1 = (rs', a')" "rs = r # rs'"
    by (rule run_spec_Cons)
  have ok: "shared_ok p q hosts names I c a" "all_ok (shared_ok p q hosts names I) (shared_do hosts) calls a1"
    using Cons.prems(2) run(1) by simp_all
  obtain st rm where one: "world_call (fs_op (p i) net call) (mo_mount w i) (on_systems (mo_system w) (mo_remote w i)) r st rm"
    "all_related q hosts names files I (after_call i st rm w) a1"
    using somebody_simulated [OF Cons.prems(1) ok(1) [unfolded c] run(1) [unfolded c]] by blast
  obtain w' where "many_run p net calls (after_call i st rm w) rs' w'" "all_related q hosts names files I w' a'"
    using Cons.IH [OF one(2) ok(2) run(2)] by blast
  then show ?case
    using many_run.somebody [where p = p and i = i and w = w and call = call, OF one(1)] run(3) c by blast
qed

section \<open>What was written is read\<close>

definition writes :: "fs_call \<Rightarrow> bool" where
  "writes call \<longleftrightarrow> (\<exists>fh buf off. call = Write_call fh buf off)"

lemma aggregate_unwritten:
  assumes "\<not> writes call" and "aggregate_do hosts call ag = (r, ag')"
  shows "ag_files ag' = ag_files ag"
  using assms by (cases call) (auto simp: writes_def Let_def split: option.splits)

text \<open>A handle that is still there is the one that was given out under this number.\<close>

lemma aggregate_handles:
  assumes "aggregate_do hosts call ag = (r, ag')"
  shows "ag_handles ag' = ag_handles ag \<or> (\<exists>h. ag_handles ag' = ag_handles ag @ [h]) \<or>
    (\<exists>n. ag_handles ag' = (ag_handles ag)[n := None])"
  using assms by (cases call) (auto simp: put_content_def Let_def split: option.splits if_splits)

lemma removed_nth: "xs[n := None] ! m = Some h \<Longrightarrow> m < length xs \<Longrightarrow> xs ! m = Some h"
  by (cases "n = m") simp_all

lemma aggregate_handle:
  assumes "aggregate_do hosts call ag = (r, ag')" and "fh \<le> length (ag_handles ag)"
  shows "fh \<le> length (ag_handles ag')" and "ag_handle ag' fh = Some h \<Longrightarrow> ag_handle ag fh = Some h"
proof -
  note change = aggregate_handles [OF assms(1)]
  show "fh \<le> length (ag_handles ag')" using change assms(2) by auto
  show "ag_handle ag fh = Some h" if h: "ag_handle ag' fh = Some h"
  proof -
    have "0 < fh" and at: "ag_handles ag' ! (fh - 1) = Some h"
      using h by (auto simp: ag_handle_def split: if_splits)
    then have "fh - 1 < length (ag_handles ag)" using assms(2) by simp
    moreover from this have "ag_handles ag ! (fh - 1) = Some h"
      using change at removed_nth by (auto simp: nth_append)
    ultimately show ?thesis using \<open>0 < fh\<close> by (simp add: ag_handle_def)
  qed
qed

definition can_only_be :: "'i shared \<Rightarrow> 'i \<Rightarrow> nat \<Rightarrow> file_handle \<Rightarrow> bool" where
  "can_only_be a j fh h \<longleftrightarrow> fh \<le> length (sh_handles a j) \<and>
     (\<forall>h'. ag_handle (share j a) fh = Some h' \<longrightarrow> h' = h)"

lemma can_only_beI: "ag_handle (share j a) fh = Some h \<Longrightarrow> can_only_be a j fh h"
  by (auto simp: can_only_be_def ag_handle_def split: if_splits)

lemma can_only_be_kept:
  assumes "can_only_be a j fh h" and "shared_do hosts (i, call) a = (r, a')"
  shows "can_only_be a' j fh h"
proof -
  obtain ag where run: "aggregate_do (hosts i) call (share i a) = (r, ag)"
    and a': "a' = \<lparr>sh_files = ag_files ag, sh_handles = (sh_handles a)(i := ag_handles ag)\<rparr>"
    using assms(2) by (auto split: prod.splits)
  show ?thesis
  proof (cases "j = i")
    case True
    have share: "share i a' = ag" by (cases ag) (simp add: a' share_def)
    have handles: "sh_handles a' i = ag_handles ag" by (simp add: a')
    show ?thesis
      using assms(1) aggregate_handle [OF run, of fh] True by (auto simp: can_only_be_def share handles)
  next
    case False
    then show ?thesis using assms(1) by (simp add: can_only_be_def a' ag_handle_def)
  qed
qed

lemma shared_unwritten:
  "\<not> writes call \<Longrightarrow> shared_do hosts (i, call) a = (r, a') \<Longrightarrow> sh_files a' = sh_files a"
  using aggregate_unwritten by (fastforce split: prod.splits)

lemma read_after:
  assumes "can_only_be a j fh h" and "\<forall>c \<in> set mid. \<not> writes (snd c)"
    and "all_ok (shared_ok p q hosts names I) (shared_do hosts) (mid @ [(j, Read_call fh buf off)]) a"
    and "data = take (length buf) (drop (unat off) (the (sh_files a (fh_server h) (fh_file h))))"
  shows "\<exists>rs a'. run_spec (shared_do hosts) (mid @ [(j, Read_call fh buf off)]) a =
           (rs @ [Got (int (length data)) (data @ drop (length data) buf)], a')"
  using assms
proof (induction mid arbitrary: a)
  case Nil
  then have "ag_handle (share j a) fh = Some h" by (auto simp: can_only_be_def)
  then show ?case using Nil by (simp add: ag_content_def Let_def)
next
  case (Cons c mid)
  obtain i call where c: "c = (i, call)" by fastforce
  obtain r a1 where one: "shared_do hosts (i, call) a = (r, a1)" by fastforce
  have "sh_files a1 = sh_files a" using Cons.prems(2) one c by (intro shared_unwritten) simp_all
  then obtain rs a' where "run_spec (shared_do hosts) (mid @ [(j, Read_call fh buf off)]) a1 =
      (rs @ [Got (int (length data)) (data @ drop (length data) buf)], a')"
    using Cons.IH [OF can_only_be_kept [OF Cons.prems(1) one]] Cons.prems(2-4) one c by auto
  then show ?case
    using one c by (intro exI [of _ "r # rs"] exI [of _ a']) simp
qed

lemma read_put_at: "take (length bs) (drop n (put_at n bs content)) = bs"
  by (simp add: put_at_def)

section \<open>Properties\<close>

text \<open>C2: Mounts that share servers: any sequence of calls of any number of mounts, one call after
  another, each mount with its own table of servers, its own connections and a process of its
  own on each of its servers, returns what the sequence returns on one store with a table of
  handles for each mount. Afterwards the files of every server are those of the store, for
  every mount that has the server: no mount keeps an older copy.\<close>

theorem mounts_share:
  assumes "all_related q hosts names files I w a"
    and "all_ok (shared_ok p q hosts names I) (shared_do hosts) calls a"
    and "run_spec (shared_do hosts) calls a = (rs, a')"
  shows "\<exists>w'. many_run p net calls w rs w' \<and> all_related q hosts names files I w' a' \<and>
    (\<forall>i \<in> I. handles (mo_mount w' i) = sh_handles a' i \<and>
       (\<forall>k \<in> set (hosts i). files k (mo_system w' k) = sh_files a' k))"
proof -
  obtain w' where run: "many_run p net calls w rs w'" and rel: "all_related q hosts names files I w' a'"
    using many_simulated [OF assms] by blast
  have "handles (mo_mount w' i) = sh_handles a' i \<and> (\<forall>k \<in> set (hosts i). files k (mo_system w' k) = sh_files a' k)"
    if "i \<in> I" for i
    using rel that by (fastforce simp: all_related_def related_def linked_on_systems)
  then show ?thesis using run rel by blast
qed

text \<open>Two mounts of the two servers of the example.\<close>

definition example_mounts :: "(nat, store \<times> string \<times> nat) mounts" where
  "example_mounts = \<lparr>mo_mount = (\<lambda>i. two_stores), mo_remote = (\<lambda>i. two_processes),
     mo_system = (\<lambda>k. cc_host (rm_process (two_processes k)))\<rparr>"

definition example_shared :: "nat shared" where
  "example_shared = \<lparr>sh_files = two_files, sh_handles = (\<lambda>i. [])\<rparr>"

lemma example_related:
  "all_related (\<lambda>k. ppc) (\<lambda>i. [''h1'', ''h2'']) names (\<lambda>k. store_files) UNIV example_mounts example_shared"
proof -
  have "on_systems (mo_system example_mounts) (mo_remote example_mounts i) = two_processes" for i
    by (rule ext) (simp add: on_systems_def example_mounts_def two_processes_def store_server_def)
  then show ?thesis
    using two_related by (simp add: all_related_def example_mounts_def example_shared_def share_def)
qed

lemma example_name_ok: "name_ok (\<lambda>k. ppc) [''h1'', ''h2''] {''/b''} (Tagged ''/b'' ''h2'')"
  by (simp add: name_ok.simps clean_name_def clean_server_def BEGIN_BRACE_def END_BRACE_def path_ok_def
        string_ok_def NUL_def MAX_RW_def)

lemma example_b [simp]: "two_files ''h1'' ''/b'' = Some []" "two_files ''h2'' ''/b'' = Some [4, 5]"
  by (simp_all add: two_files_def)

theorem mounts_share_witness:
  "\<exists>w'. many_run (\<lambda>i. x86) (answering cmd_ACCEPT)
     [(0, Open_call (Tagged ''/b'' ''h2'') 2), (1, Open_call (Tagged ''/b'' ''h2'') 0), (0, Write_call 1 [7] 3),
      (0, Release_call 1), (1, Read_call 1 [0, 0, 0, 0] 0)]
     example_mounts [Opened 0 1, Opened 0 1, Result 1, Result 0, Got 4 [4, 5, 0, 7]] w' \<and>
     store_files (mo_system w' ''h2'') ''/b'' = Some [4, 5, 0, 7]"
proof -
  let ?calls = "[(0, Open_call (Tagged ''/b'' ''h2'') 2), (1, Open_call (Tagged ''/b'' ''h2'') 0), (0, Write_call 1 [7] 3),
      (0, Release_call 1), (1, Read_call 1 [0, 0, 0, 0] 0)] :: (nat \<times> fs_call) list"
  let ?rs = "[Opened 0 1, Opened 0 1, Result 1, Result 0, Got 4 [4, 5, 0, 7]]"
  let ?hosts = "\<lambda>i :: nat. [''h1'', ''h2'']"
  let ?h = "\<lparr>fh_server = ''h2'', fh_file = ''/b''\<rparr>"
  let ?F = "two_files(''h2'' := (two_files ''h2'')(''/b'' \<mapsto> [4, 5, 0, 7]))"
  let ?a = "\<lambda>F hs0 hs1. \<lparr>sh_files = F, sh_handles = (\<lambda>i. [])(0 := hs0, Suc 0 := hs1)\<rparr>"
  have runs: "shared_do ?hosts (0, Open_call (Tagged ''/b'' ''h2'') 2) (?a two_files [] []) = (Opened 0 1, ?a two_files [Some ?h] [])"
    "shared_do ?hosts (Suc 0, Open_call (Tagged ''/b'' ''h2'') 0) (?a two_files [Some ?h] []) = (Opened 0 1, ?a two_files [Some ?h] [Some ?h])"
    "shared_do ?hosts (0, Write_call (Suc 0) [7] 3) (?a two_files [Some ?h] [Some ?h]) = (Result 1, ?a ?F [Some ?h] [Some ?h])"
    "shared_do ?hosts (0, Release_call (Suc 0)) (?a ?F [Some ?h] [Some ?h]) = (Result 0, ?a ?F [None] [Some ?h])"
    "shared_do ?hosts (Suc 0, Read_call (Suc 0) [0, 0, 0, 0] 0) (?a ?F [None] [Some ?h]) = (Got 4 [4, 5, 0, 7], ?a ?F [None] [Some ?h])"
    by (simp_all add: Let_def share_def ag_handle_def ag_content_def put_content_def put_at_def fun_upd_twist)
  have start: "example_shared = ?a two_files [] []" by (simp add: example_shared_def fun_eq_iff)
  have ok: "all_ok (shared_ok (\<lambda>i. x86) (\<lambda>k. ppc) ?hosts {''/b''} UNIV) (shared_do ?hosts) ?calls example_shared"
    using example_name_ok
    by (simp add: start runs plain_mode_def O_RDONLY_def ag_handle_def MAX_RW_def del: shared_do.simps)
  obtain a' where run: "run_spec (shared_do ?hosts) ?calls example_shared = (?rs, a')"
    and a': "sh_files a' ''h2'' ''/b'' = Some [4, 5, 0, 7]"
    by (simp add: start runs del: shared_do.simps)
  obtain w' where w': "many_run (\<lambda>i. x86) (answering cmd_ACCEPT) ?calls example_mounts ?rs w'"
    "\<forall>i \<in> UNIV. handles (mo_mount w' i) = sh_handles a' i \<and>
       (\<forall>k \<in> set (?hosts i). store_files (mo_system w' k) = sh_files a' k)"
    using mounts_share [OF example_related ok run] by blast
  have "store_files (mo_system w' ''h2'') ''/b'' = Some [4, 5, 0, 7]" using w'(2) a' by simp
  with w'(1) show ?thesis by (intro exI conjI)
qed

text \<open>C5: A write is seen at once: what a mount has written into a file through one of its handles is
  what any mount reads there through a handle of the same file, whatever calls other than
  writes the mounts make in between.\<close>

theorem written_is_read:
  assumes "all_related q hosts names files I w a"
    and "ag_handle (share i a) fh = Some h" and "ag_handle (share j a) fh' = Some h"
    and "\<forall>c \<in> set mid. \<not> writes (snd c)" and "length buf' = length buf"
    and "calls = (i, Write_call fh buf off) # mid @ [(j, Read_call fh' buf' off)]"
    and "all_ok (shared_ok p q hosts names I) (shared_do hosts) calls a"
  shows "\<exists>rs w'. many_run p net calls w (Result (int (length buf)) # rs @ [Got (int (length buf)) buf]) w'"
proof -
  obtain a1 where one: "shared_do hosts (i, Write_call fh buf off) a = (Result (int (length buf)), a1)"
    and a1: "sh_files a1 (fh_server h) (fh_file h) = Some (put_at (unat off) buf (ag_content (share i a) h))"
    using assms(2) by (simp add: Let_def put_content_files)
  let ?rest = "mid @ [(j, Read_call fh' buf' off)]"
  have "all_ok (shared_ok p q hosts names I) (shared_do hosts) ?rest a1"
    using assms(6,7) one by (auto simp del: shared_do.simps)
  from read_after [OF can_only_be_kept [OF can_only_beI [OF assms(3)] one] assms(4) this refl]
  obtain rs a' where "run_spec (shared_do hosts) ?rest a1 = (rs @ [Got (int (length buf)) buf], a')"
    using a1 assms(5) by (auto simp: read_put_at)
  then have "run_spec (shared_do hosts) calls a = (Result (int (length buf)) # rs @ [Got (int (length buf)) buf], a')"
    using one assms(6) by (simp del: shared_do.simps)
  then show ?thesis using many_simulated [OF assms(1,7)] by blast
qed

text \<open>The same two mounts, when both have opened the file \<^verbatim>\<open>/b\<close> of the second server.\<close>

definition opened_mounts :: "(nat, store \<times> string \<times> nat) mounts" where
  "opened_mounts = example_mounts\<lparr>mo_mount := (\<lambda>i. two_stores\<lparr>handles := [Some \<lparr>fh_server = ''h2'', fh_file = ''/b''\<rparr>]\<rparr>)\<rparr>"

definition opened_shared :: "nat shared" where
  "opened_shared = example_shared\<lparr>sh_handles := (\<lambda>i. [Some \<lparr>fh_server = ''h2'', fh_file = ''/b''\<rparr>])\<rparr>"

lemma opened_related:
  "all_related (\<lambda>k. ppc) (\<lambda>i. [''h1'', ''h2'']) {''/b''} (\<lambda>k. store_files) UNIV opened_mounts opened_shared"
  using example_related [of "{''/b''}"]
  by (auto simp: all_related_def related_def example_mounts_def opened_mounts_def opened_shared_def ag_ok_def example_shared_def
        path_ok_def string_ok_def NUL_def MAX_RW_def)

theorem written_is_read_witness:
  "\<exists>rs w'. many_run (\<lambda>i. x86) (answering cmd_ACCEPT)
     [(0, Write_call 1 [7, 8] 1), (1, Getattr_call (Tagged ''/b'' ''h2'')), (0, Release_call 1), (1, Read_call 1 [0, 0] 1)]
     opened_mounts (Result 2 # rs @ [Got 2 [7, 8]]) w'"
proof -
  let ?mid = "[(1, Getattr_call (Tagged ''/b'' ''h2'')), (0, Release_call 1)] :: (nat \<times> fs_call) list"
  let ?h = "\<lparr>fh_server = ''h2'', fh_file = ''/b''\<rparr>"
  let ?hosts = "\<lambda>i :: nat. [''h1'', ''h2'']"
  have h: "ag_handle (share 0 opened_shared) 1 = Some ?h" "ag_handle (share 1 opened_shared) 1 = Some ?h"
    by (simp_all add: ag_handle_def opened_shared_def)
  have mid: "\<forall>c \<in> set ?mid. \<not> writes (snd c)" by (simp add: writes_def)
  have ok: "all_ok (shared_ok (\<lambda>i. x86) (\<lambda>k. ppc) ?hosts {''/b''} UNIV) (shared_do ?hosts)
      ((0, Write_call 1 [7, 8] 1) # ?mid @ [(1, Read_call 1 [0, 0] 1)]) opened_shared"
    using example_name_ok
    by (simp add: ag_handle_def ag_content_def put_content_def MAX_RW_def opened_shared_def example_shared_def Let_def share_def)
  show ?thesis
    using written_is_read [OF opened_related h mid _ refl ok, of "answering cmd_ACCEPT"] by simp
qed

end
