(* ===== verification/MountSpec.thy ===== *)
theory MountSpec
  imports Mount
begin

text \<open>
  What the mounted file system promises over its life: the table that \<^verbatim>\<open>main\<close> builds, the
  invariant of every reachable state, the links of the servers as an abstract machine with
  two states per host that the program implements, and the end of the heartbeat threads.
\<close>

section \<open>The table that main builds\<close>

text \<open>The connection that a key file leads to, if it leads to one.\<close>

definition keyfile_connection ::
  "plat \<Rightarrow> (string \<Rightarrow> string) \<Rightarrow> dir_entry \<Rightarrow> (string \<times> server_connection) option" where
  "keyfile_connection p extension e = do {
     content \<leftarrow> de_content e;
     let (hostname, port, key) = read_keyfile content;
     let c = new_server_connection p (de_network e) hostname port key;
     if de_regular e \<and> extension (de_path e) = EXTENSION \<and> connected c \<and> \<not> stopped c
       then Some (hostname, c) else None }"

lemma load_keyfiles_Cons:
  "load_keyfiles p extension (e # es) conns =
     load_keyfiles p extension es
       (case keyfile_connection p extension e of Some (k, c) \<Rightarrow> map_insert k c conns | None \<Rightarrow> conns)"
  by (cases "read_keyfile (the (de_content e))")
     (auto simp: keyfile_connection_def Let_def split: option.split)

lemma load_keyfiles_find:
  "map_find (load_keyfiles p extension es conns) host =
     (case map_find conns host of Some c \<Rightarrow> Some c
      | None \<Rightarrow> map_of (List.map_filter (keyfile_connection p extension) es) host)"
proof (induction es arbitrary: conns)
  case Nil
  then show ?case by (simp add: List.map_filter_def split: option.split)
next
  case (Cons e es)
  show ?case
    unfolding load_keyfiles_Cons Cons.IH
    by (auto simp: List.map_filter_def map_find_insert split: option.split)
qed

lemma map_find_keyed [simp]: "map_find (map (\<lambda>(k, c). (k, f c)) m) host = map_option f (map_find m host)"
  by (induction m host rule: map_find.induct) auto

section \<open>Handles\<close>

text \<open>Every handle names a server of the table.\<close>

definition handles_ok :: "'a fuse_scheme \<Rightarrow> bool" where
  "handles_ok st \<longleftrightarrow> (\<forall>h. Some h \<in> set (handles st) \<longrightarrow> fh_server h \<in> fst ` set (connections st))"

lemma handles_keep:
  "agfs_getattr p path st = Some (r1, st') \<Longrightarrow> handles st' = handles st"
  "agfs_access p path a st = Some (r2, st') \<Longrightarrow> handles st' = handles st"
  "agfs_readdir p path st = Some (r3, st') \<Longrightarrow> handles st' = handles st"
  "agfs_read p buf off fh st = Some (r4, st') \<Longrightarrow> handles st' = handles st"
  "agfs_write p buf off fh st = Some (r5, st') \<Longrightarrow> handles st' = handles st"
  by (auto simp: agfs_getattr_def agfs_access_def agfs_readdir_def agfs_read_def agfs_write_def
        bind_eq_Some_conv split_beta Let_def split: option.splits if_splits)

lemma handles_open_on:
  "handles (snd (open_on p server file flags fh st)) = handles st \<or>
   handles (snd (open_on p server file flags fh st)) = handles st @ [Some \<lparr>fh_server = server, fh_file = file\<rparr>] \<and>
     map_find (connections st) server \<noteq> None"
  by (auto simp: open_on_def new_handle_def split_beta Let_def split: option.splits)

lemma handles_open:
  assumes "agfs_open p path flags fh st = Some (r, st')"
  shows "\<forall>h. Some h \<in> set (handles st') \<longrightarrow>
           Some h \<in> set (handles st) \<or> fh_server h \<in> fst ` set (connections st)"
proof -
  let ?st1 = "snd (checkExistance p path st)"
  have 1: "handles ?st1 = handles st" by (simp add: checkExistance_def split_beta)
  have keys: "fst ` set (connections ?st1) = fst ` set (connections st)"
    using served_keys [OF served_check [of st p path]] by (metis set_map)
  obtain server f where a: "ambiguate (c_string path) = Some (server, f)"
    using ambiguate_returns by (metis option.exhaust prod.exhaust)
  have "st' = ?st1 \<or> (\<exists>s. st' = snd (open_on p s f flags fh ?st1)) \<or> st' = snd (open_on p server f flags fh st)"
    using assms a by (auto simp: agfs_open_def split_beta Let_def split: if_splits) (metis snd_conv)+
  moreover have "fh_server h \<in> fst ` set (connections st1)"
    if "Some h \<in> set (handles (snd (open_on p s f flags fh st1)))" "Some h \<notin> set (handles st1)"
    for h s and st1 :: "'a fuse_scheme"
    using handles_open_on [of p s f flags fh st1] that by (auto simp: map_find_None intro: rev_image_eqI)
  ultimately show ?thesis
    using 1 keys by metis
qed

lemma handles_ok_served:
  assumes "handles_ok st" and "served (connections st) (connections st')"
    and "\<forall>h. Some h \<in> set (handles st') \<longrightarrow> Some h \<in> set (handles st) \<or> fh_server h \<in> fst ` set (connections st)"
  shows "handles_ok st'"
proof -
  have "fst ` set (connections st') = fst ` set (connections st)"
    using served_keys [OF assms(2)] by (metis set_map)
  then show ?thesis using assms(1,3) by (auto simp: handles_ok_def)
qed

lemma handles_release:
  "agfs_release fh st = Some (r, st') \<Longrightarrow> Some h \<in> set (handles st') \<Longrightarrow> Some h \<in> set (handles st)"
  by (auto simp: agfs_release_def bind_eq_Some_conv split: if_splits dest: set_update_subset_insert [THEN subsetD])

lemma step_handles_ok:
  assumes "mount_step p st st'" and "mount_ok st" and "handles_ok st"
  shows "handles_ok st'"
proof -
  have ok: "map_ok (connections st)" using assms(2) by (simp add: mount_ok_def table_ok_def)
  note keep = handles_ok_served [OF assms(3)]
  show ?thesis
    using assms(1)
  proof (cases rule: mount_step.cases)
    case (openop path flags fh r)
    show ?thesis
      by (rule keep [OF served_ops(6) [OF openop(2) ok] handles_open [OF openop(2)]])
  next
    case (releaseop fh r)
    show ?thesis
      using keep [of st'] releaseop(2) handles_release [OF releaseop(2)] served_agfs_release [OF releaseop(2)] by auto
  next
    case destroy
    have "fst ` set (connections (agfs_destroy p st)) = fst ` set (connections st)"
      by (force simp: agfs_destroy_def)
    then show ?thesis
      using assms(3) destroy by (auto simp: handles_ok_def agfs_destroy_def)
  next
    case (thread net host pc c pc' c')
    then have "fst ` set (map_put host c' (connections st)) = fst ` set (connections st)"
      by (auto simp: map_keys_put dest!: map_find_in intro: rev_image_eqI)
    then show ?thesis
      using assms(3) thread(1) by (auto simp: handles_ok_def)
  qed (rule keep, erule served_ops [OF _ ok], simp add: handles_keep)+
qed

lemma mounted_handles:
  assumes "mounted p st0 st" and "mount_ok st0" and "handles_ok st0"
  shows "handles_ok st"
  using assms by induction (blast intro: step_handles_ok mounted_ok)+

lemma main_handles: "handles_ok (agfs_main p extension keydir)"
  by (simp add: handles_ok_def agfs_main_def Let_def)

section \<open>The links\<close>

text \<open>
  The abstract machine: a host of the table has its link up or down. A link goes down when a
  heartbeat fails and comes up when a thread connects again; once the file system is
  unmounted all links are down, and no other link falls.
\<close>

type_synonym links = "(string \<Rightarrow> bool option) \<times> bool"

inductive link_step :: "links \<Rightarrow> links \<Rightarrow> bool" where
  stay: "link_step (up, u) (up, u)"
| drop_link: "up host = Some True \<Longrightarrow> link_step (up, u) (up(host \<mapsto> False), u)"
| dial_link: "up host = Some False \<Longrightarrow> link_step (up, u) (up(host \<mapsto> True), u)"
| unmount: "link_step (up, False) (map_option (\<lambda>b. False) \<circ> up, True)"

definition links_of :: "mount \<Rightarrow> links" where
  "links_of st = (\<lambda>host. map_option connected (map_find (connections st) host), unmounted st)"

lemma links_served:
  assumes "served (connections st) (connections st')" and "fuse.more st' = fuse.more st"
  shows "links_of st' = links_of st"
proof -
  have "unmounted st' = unmounted st" using assms(2) by (cases st; cases st'; simp)
  then show ?thesis using served_connected(1) [OF assms(1)] by (simp add: links_of_def)
qed

lemma links_put:
  assumes "map_find (connections st) host = Some c"
  shows "link_step (links_of st)
           (links_of (st\<lparr>connections := map_put host c' (connections st), heartbeatThreads := ts\<rparr>))"
proof -
  define up where "up = (\<lambda>host. map_option connected (map_find (connections st) host))"
  have up: "up host = Some (connected c)" using assms by (simp add: up_def)
  have 1: "links_of st = (up, unmounted st)" by (simp add: links_of_def up_def)
  have 2: "links_of (st\<lparr>connections := map_put host c' (connections st), heartbeatThreads := ts\<rparr>) =
      (up(host \<mapsto> connected c'), unmounted st)"
    by (auto simp: links_of_def up_def map_find_put)
  have "up(host \<mapsto> connected c) = up" using up by (simp add: fun_upd_idem)
  then show ?thesis
    unfolding 1 2 using up by (cases "connected c"; cases "connected c'") (auto intro: link_step.intros)
qed

lemma mount_step_links:
  assumes "mount_step p st st'" and "mount_ok st"
  shows "link_step (links_of st) (links_of st')"
proof -
  have ok: "map_ok (connections st)" using assms(2) by (simp add: mount_ok_def table_ok_def)
  have same: "link_step (links_of st) (links_of st')"
    if "served (connections st) (connections st')" "fuse.more st' = fuse.more st"
    using links_served [OF that] by (cases "links_of st") (simp add: stay)
  show ?thesis
    using assms(1)
  proof (cases rule: mount_step.cases)
    case (releaseop fh r)
    then show ?thesis using same served_agfs_release [of fh st r st'] more_ops(6) [of fh st r st'] by simp
  next
    case destroy
    have "\<not> connected (snd (stop p c))" if "map_find (connections st) host = Some c" for host c
      using that assms(2) stop_closed(2) [of c p] by (auto simp: mount_ok_def table_ok_def dest!: map_find_in)
    then have "map_option connected (map_find (connections st') host) =
        map_option (\<lambda>b. False) (map_option connected (map_find (connections st) host))" for host
      using destroy
      by (cases "map_find (connections st) host") (simp_all add: destroy_find)
    then have "links_of st' = (map_option (\<lambda>b. False) \<circ> fst (links_of st), True)"
      using destroy by (auto simp: links_of_def comp_def)
    then show ?thesis
      using destroy by (simp add: links_of_def unmount)
  next
    case thread
    then show ?thesis by (simp add: links_put)
  qed (rule same, erule served_ops [OF _ ok], erule more_ops more_open)+
qed

section \<open>The end of the threads\<close>

text \<open>The steps that a thread still makes at most when its connection is closed.\<close>

fun steps_left :: "thread_pc \<Rightarrow> nat" where
  "steps_left Finished = 0"
| "steps_left Check = 1"
| "steps_left Reconnect = 2"
| "steps_left Beat = 2"

definition work_left :: "mount \<Rightarrow> nat" where
  "work_left st = sum_list (map (steps_left \<circ> snd) (heartbeatThreads st))"

lemma work_put:
  assumes "map_ok ts" and "map_find ts host = Some pc"
  shows "sum_list (map (steps_left \<circ> snd) (map_put host pc' ts)) + steps_left pc =
         sum_list (map (steps_left \<circ> snd) ts) + steps_left pc'"
  using assms
  by (induction host pc' ts rule: map_put.induct) (force simp: map_ok_Cons dest: map_find_in)+

lemma closed_thread_step:
  assumes "closed c" and "thread_step p net pc c = (pc', c')"
  shows "pc = Finished \<and> pc' = Finished \<and> c' = c \<or> steps_left pc' < steps_left pc"
  using assms by (cases pc) auto

lemma unmounted_step:
  assumes "mount_step p st st'" and "mount_ok st" and "unmounted st"
  shows "unmounted st'" and "st' = st \<or> work_left st' < work_left st"
proof -
  obtain net host pc c pc' c' where t: "network_ok net" "map_find (heartbeatThreads st) host = Some pc"
      "map_find (connections st) host = Some c" "thread_step p net pc c = (pc', c')"
    and st': "st' = st\<lparr>connections := map_put host c' (connections st),
       heartbeatThreads := map_put host pc' (heartbeatThreads st)\<rparr>"
    using assms(1,3) by (auto elim: mount_step.cases)
  have ok: "map_ok (connections st)" "map_ok (heartbeatThreads st)"
    using assms(2) map_ok_keys [of "heartbeatThreads st" "connections st"]
    by (simp_all add: mount_ok_def table_ok_def)
  have "closed c" using assms(2,3) t(3) by (simp add: mount_ok_def)
  from closed_thread_step [OF this t(4)] show "st' = st \<or> work_left st' < work_left st"
  proof
    assume "pc = Finished \<and> pc' = Finished \<and> c' = c"
    then have "map_put host c' (connections st) = connections st"
      "map_put host pc' (heartbeatThreads st) = heartbeatThreads st"
      using smap.put_same [OF ok(1) t(3)] smap.put_same [OF ok(2) t(2)] by simp_all
    then show ?thesis by (simp add: st')
  next
    assume "steps_left pc' < steps_left pc"
    then show ?thesis
      using work_put [OF ok(2) t(2), of pc'] by (simp add: st' work_left_def)
  qed
  show "unmounted st'" using assms(3) by (simp add: st')
qed

lemma steps_left_zero: "steps_left pc = 0 \<longleftrightarrow> pc = Finished"
  by (cases pc) simp_all

lemma steps_left_le: "steps_left pc \<le> 2"
  by (cases pc) simp_all

lemma work_left_le: "mount_ok st \<Longrightarrow> work_left st \<le> 2 * length (connections st)"
proof -
  assume "mount_ok st"
  then have "length (connections st) = length (heartbeatThreads st)"
    by (metis mount_ok_def length_map)
  moreover have "sum_list (map (steps_left \<circ> snd) ts) \<le> 2 * length ts" for ts :: "(string \<times> thread_pc) list"
  proof (induction ts)
    case (Cons t ts)
    then show ?case using steps_left_le [of "snd t"] by simp
  qed simp
  ultimately show ?thesis by (simp add: work_left_def)
qed

lemma unmounted_progress:
  assumes "mount_ok st" and "unmounted st" and "(host, pc) \<in> set (heartbeatThreads st)" and "pc \<noteq> Finished"
    and "network_ok net"
  shows "\<exists>st'. mount_step p st st' \<and> work_left st' < work_left st"
proof -
  have ok: "map_ok (heartbeatThreads st)" "map fst (heartbeatThreads st) = map fst (connections st)"
    using assms(1) map_ok_keys [of "heartbeatThreads st" "connections st"]
    by (simp_all add: mount_ok_def table_ok_def)
  have f: "map_find (heartbeatThreads st) host = Some pc"
    using assms(3) ok(1) by (simp add: map_find_sorted)
  have "host \<in> fst ` set (connections st)"
    using assms(3) ok(2) by (metis fst_conv image_eqI set_map)
  then obtain c where c: "map_find (connections st) host = Some c"
    using map_find_None by (metis option.exhaust)
  obtain pc' c' where t: "thread_step p net pc c = (pc', c')" by fastforce
  have "closed c" using assms(1,2) c by (simp add: mount_ok_def)
  then have "steps_left pc' < steps_left pc"
    using closed_thread_step [OF _ t] assms(4) by blast
  then show ?thesis
    using mount_step.thread [OF assms(5) f c t] work_put [OF ok(1) f, of pc']
    by (intro exI conjI) (assumption, simp add: work_left_def)
qed

section \<open>Properties\<close>

text \<open>A key directory with one key file, for a server that accepts the key.\<close>

definition one_keyfile :: "dir_entry list" where
  "one_keyfile = [\<lparr>de_path = ''/k/h.agkey'', de_regular = True, de_content = Some ''h1 80 K'',
     de_network = answering cmd_ACCEPT\<rparr>]"

definition one_server :: mount where
  "one_server = agfs_main x86 (\<lambda>path. ''.agkey'') one_keyfile"

lemma one_keyfile_ok: "\<forall>e \<in> set one_keyfile. network_ok (de_network e)"
  by (simp add: one_keyfile_def)

lemma one_keyfile_read: "read_keyfile ''h1 80 K'' = (''h1'', ''80'', ''K'')"
  by (simp add: read_keyfile_def open_istream_def stream_get_def is_space_def Let_def)

lemma one_keyfile_table:
  "\<exists>c. map_of (List.map_filter (keyfile_connection x86 (\<lambda>path. ''.agkey'')) one_keyfile) ''h1'' = Some c \<and>
     connected c"
proof -
  let ?c = "new_server_connection x86 (answering cmd_ACCEPT) ''h1'' ''80'' ''K''"
  have push: "[Seg (be_bytes cmd_ACCEPT)] = rx_push (be_bytes cmd_ACCEPT) []"
    using be_bytes_nonempty [of cmd_ACCEPT] by (simp add: rx_push_def)
  have "\<not> stopped ?c"
    by (simp add: new_server_connection_def stopped_def connect_members)
  moreover have "connected ?c"
    unfolding new_server_connection_def
    by (subst connect_answered(1) [where d = "answering cmd_ACCEPT ''h1'' ''80''" and resp = cmd_ACCEPT and evs = "[]"])
       (simp_all add: answering_def push MAX_RW_def)
  ultimately show ?thesis
    by (simp add: keyfile_connection_def one_keyfile_def one_keyfile_read EXTENSION_def List.map_filter_def)
qed

text \<open>C27: The table at the start: the program mounts exactly if its key directory exists; then under
  every host name stands the connection of the first key file,
  in the order of the directory, that has the extension, can be read, names this host and
  leads to an accepted key; no other host is in the table, and each host has its heartbeat
  thread, at the start of its loop.\<close>

theorem startup_table:
  "agfs_start p extension None = Inl 1 \<and>
   (\<exists>st. agfs_start p extension (Some keydir) = Inr st \<and> st = agfs_main p extension keydir \<and>
     map_find (connections st) host =
       map_of (List.map_filter (keyfile_connection p extension) keydir) host \<and>
     map_find (heartbeatThreads st) host =
       map_option (\<lambda>c. Check) (map_of (List.map_filter (keyfile_connection p extension) keydir) host))"
  by (simp add: agfs_start_def agfs_main_def Let_def load_keyfiles_find)

theorem startup_table_witness:
  "\<exists>c. map_find (connections one_server) ''h1'' = Some c \<and> connected c"
  using startup_table [of x86 "\<lambda>path. ''.agkey''" one_keyfile "''h1''"] one_keyfile_table
  by (simp add: one_server_def)





text \<open>C17: The end of the threads: after \<^verbatim>\<open>destroy\<close> every step of the program either changes
  nothing or brings a heartbeat thread nearer to its end, at most two steps per connection in
  all; and as long as a thread has not ended, such a step is possible.\<close>

theorem threads_end:
  assumes "\<forall>e \<in> set keydir. network_ok (de_network e)"
    and "mounted p (agfs_main p extension keydir) st" and "unmounted st"
  shows "work_left st \<le> 2 * length (connections st) \<and>
         (\<forall>st'. mount_step p st st' \<longrightarrow> unmounted st' \<and> (st' = st \<or> work_left st' < work_left st)) \<and>
         ((\<exists>(host, pc) \<in> set (heartbeatThreads st). pc \<noteq> Finished) \<longrightarrow>
            (\<exists>st'. mount_step p st st' \<and> work_left st' < work_left st))"
proof -
  have ok: "mount_ok st" using mounted_ok [OF assms(2) main_ok [OF assms(1)]] .
  have "network_ok (answering cmd_ACCEPT)" by simp
  then show ?thesis
    using work_left_le [OF ok] unmounted_step [OF _ ok assms(3)] unmounted_progress [OF ok assms(3)] by blast
qed

theorem threads_end_witness:
  "\<exists>st'. mount_step x86 ((agfs_destroy x86 one_server)\<lparr>unmounted := True\<rparr>) st' \<and>
     work_left st' < work_left ((agfs_destroy x86 one_server)\<lparr>unmounted := True\<rparr>)"
proof -
  let ?st = "(agfs_destroy x86 one_server)\<lparr>unmounted := True\<rparr>"
  have "mount_step x86 one_server ?st"
    by (rule mount_step.destroy) (simp add: one_server_def agfs_main_def Let_def)
  then have m: "mounted x86 (agfs_main x86 (\<lambda>path. ''.agkey'') one_keyfile) ?st"
    unfolding one_server_def by (rule mounted.more [OF mounted.start])
  obtain c where
    "map_of (List.map_filter (keyfile_connection x86 (\<lambda>path. ''.agkey'')) one_keyfile) ''h1'' = Some c"
    using one_keyfile_table by blast
  then have "map_find (heartbeatThreads one_server) ''h1'' = Some Check"
    by (simp add: one_server_def agfs_main_def Let_def load_keyfiles_find)
  then have "(''h1'', Check) \<in> set (heartbeatThreads ?st)"
    by (simp add: agfs_destroy_def map_find_in)
  then show ?thesis
    using threads_end [OF one_keyfile_ok m] by auto
qed

end
