(* ===== verification/SampleClient.thy ===== *)
theory SampleClient
  imports Prelude
begin

text \<open>
  \<^verbatim>\<open>agfs-client.cpp\<close>: a stand-alone client for an encrypted echo server, which no target of
  the Makefile builds. It is a chain of asynchronous operations of \<^verbatim>\<open>boost::asio\<close>: each
  handler starts the next one. The library is a parameter: the list of what it reports when
  it completes the operation that is pending.
\<close>

section \<open>State\<close>

definition max_length :: nat where
  "max_length = 1024"

datatype async_op = Async_connect | Async_handshake | Async_write string | Async_read nat

text \<open>A completion: a failure with its message, or the bytes transferred and, of a read, the data.\<close>

datatype completion = Failure string | Transferred nat string

record client =
  request :: string
  reply :: string
  pending :: "async_op option"
  printed :: "string list"

text \<open>The constructor starts to connect.\<close>

definition new_client :: client where
  "new_client = \<lparr>request = [], reply = [], pending = Some Async_connect, printed = []\<rparr>"

section \<open>The handlers\<close>

text \<open>What goes to \<^verbatim>\<open>cout\<close> and \<^verbatim>\<open>cerr\<close>, in order; \<open>say_line\<close> is a report that ends its line.\<close>

definition say :: "string \<Rightarrow> client \<Rightarrow> client" where
  "say msg c = c\<lparr>printed := printed c @ [msg]\<rparr>"

definition say_line :: "string \<Rightarrow> client \<Rightarrow> client" where
  "say_line msg c = say (msg @ [CHR 0x0A]) c"

text \<open>\<open>subject\<close> is what \<^verbatim>\<open>X509_NAME_oneline\<close> has put into the buffer of 256 characters.\<close>

definition verify_certificate :: "string \<Rightarrow> bool \<Rightarrow> client \<Rightarrow> client \<times> bool" where
  "verify_certificate subject preverified c = (say_line (''Verifying '' @ subject) c, preverified)"

text \<open>\<^verbatim>\<open>cin.getline(request_, max_length)\<close> on the input \<open>input\<close>.\<close>

definition cin_getline :: "string \<Rightarrow> string" where
  "cin_getline input = take (max_length - 1) (takeWhile (\<lambda>c. c \<noteq> CHR 0x0A) input)"

definition c_strlen :: "string \<Rightarrow> nat" where
  "c_strlen s = length (takeWhile (\<lambda>c. c \<noteq> NUL) s)"

definition handle_connect :: "completion \<Rightarrow> client \<Rightarrow> client" where
  "handle_connect r c =
     (case r of
        Transferred n bs \<Rightarrow> c\<lparr>pending := Some Async_handshake\<rparr>
      | Failure msg \<Rightarrow> say_line (''Connect failed: '' @ msg) c)"

definition handle_handshake :: "string \<Rightarrow> completion \<Rightarrow> client \<Rightarrow> client" where
  "handle_handshake input r c =
     (case r of
        Transferred n bs \<Rightarrow>
          (let c = say ''Enter message: '' c;
               c = c\<lparr>request := cin_getline input\<rparr>;
               request_length = c_strlen (request c)
           in c\<lparr>pending := Some (Async_write (take request_length (request c)))\<rparr>)
      | Failure msg \<Rightarrow> say_line (''Handshake failed: '' @ msg) c)"

definition handle_write :: "completion \<Rightarrow> client \<Rightarrow> client" where
  "handle_write r c =
     (case r of
        Transferred bytes_transferred bs \<Rightarrow> c\<lparr>pending := Some (Async_read bytes_transferred)\<rparr>
      | Failure msg \<Rightarrow> say_line (''Write failed: '' @ msg) c)"

text \<open>The data of a read are at the start of \<^verbatim>\<open>reply_\<close> when its handler runs.\<close>

definition handle_read :: "completion \<Rightarrow> client \<Rightarrow> client" where
  "handle_read r c =
     (case r of
        Transferred bytes_transferred bs \<Rightarrow>
          (let c = c\<lparr>reply := bs\<rparr> in say_line (''Reply: '' @ take bytes_transferred (reply c)) c)
      | Failure msg \<Rightarrow> say_line (''Read failed: '' @ msg) c)"

fun handle :: "string \<Rightarrow> async_op \<Rightarrow> completion \<Rightarrow> client \<Rightarrow> client" where
  "handle input Async_connect r c = handle_connect r c"
| "handle input Async_handshake r c = handle_handshake input r c"
| "handle input (Async_write m) r c = handle_write r c"
| "handle input (Async_read n) r c = handle_read r c"

text \<open>\<^verbatim>\<open>io_service.run()\<close>: it returns when nothing is pending.\<close>

fun io_run :: "string \<Rightarrow> completion list \<Rightarrow> client \<Rightarrow> client" where
  "io_run input [] c = c"
| "io_run input (r # rs) c =
     (case pending c of
        None \<Rightarrow> c
      | Some oper \<Rightarrow> io_run input rs (handle input oper r (c\<lparr>pending := None\<rparr>)))"

text \<open>
  \<open>setup\<close> is what resolving the host and loading the certificate come to: an exception with its
  message, or success.
\<close>

definition sample_main ::
  "string list \<Rightarrow> string + unit \<Rightarrow> string \<Rightarrow> completion list \<Rightarrow> int \<times> client" where
  "sample_main argv setup input rs =
     (if length argv \<noteq> 3 then (1, say_line ''Usage: client <host> <port>'' (new_client\<lparr>pending := None\<rparr>))
      else (case setup of
          Inl what \<Rightarrow> (0, say_line (''Exception: '' @ what) (new_client\<lparr>pending := None\<rparr>))
        | Inr _ \<Rightarrow> (0, io_run input rs new_client)))"

section \<open>The chain\<close>

fun stage :: "async_op option \<Rightarrow> nat" where
  "stage (Some Async_connect) = 4"
| "stage (Some Async_handshake) = 3"
| "stage (Some (Async_write m)) = 2"
| "stage (Some (Async_read n)) = 1"
| "stage None = 0"

lemma handle_stage: "stage (pending (handle input oper r (c\<lparr>pending := None\<rparr>))) < stage (Some oper)"
  by (cases oper; cases r)
     (simp_all add: handle_connect_def handle_handshake_def handle_write_def handle_read_def say_def
       say_line_def Let_def)

lemma io_run_done: "stage (pending c) \<le> length rs \<Longrightarrow> pending (io_run input rs c) = None"
proof (induction rs arbitrary: c)
  case Nil
  then show ?case by (cases "pending c" rule: stage.cases) simp_all
next
  case (Cons r rs)
  show ?case
  proof (cases "pending c")
    case (Some oper)
    then show ?thesis
      using Cons handle_stage [of input oper r c] by simp
  qed simp
qed

text \<open>What the library documents: a write or read that reports success has transferred its whole
  buffer.\<close>

fun transfer_ok :: "async_op \<Rightarrow> completion \<Rightarrow> bool" where
  "transfer_ok (Async_write m) (Transferred n bs) \<longleftrightarrow> n = length m"
| "transfer_ok (Async_read k) (Transferred n bs) \<longleftrightarrow> n = k \<and> length bs = n"
| "transfer_ok _ _ \<longleftrightarrow> True"

fun transfers_ok :: "string \<Rightarrow> completion list \<Rightarrow> client \<Rightarrow> bool" where
  "transfers_ok input [] c \<longleftrightarrow> True"
| "transfers_ok input (r # rs) c \<longleftrightarrow>
     (case pending c of
        None \<Rightarrow> True
      | Some oper \<Rightarrow> transfer_ok oper r \<and> transfers_ok input rs (handle input oper r (c\<lparr>pending := None\<rparr>)))"

definition fits :: "client \<Rightarrow> bool" where
  "fits c \<longleftrightarrow> length (request c) < max_length \<and> length (reply c) < max_length \<and>
     (case pending c of
        Some (Async_write m) \<Rightarrow> length m < max_length
      | Some (Async_read n) \<Rightarrow> n < max_length
      | _ \<Rightarrow> True)"

lemma getline_fits: "length (cin_getline input) < max_length"
  by (simp add: cin_getline_def max_length_def)

lemma handle_fits:
  assumes "fits c" and "pending c = Some oper" and "transfer_ok oper r"
  shows "fits (handle input oper r (c\<lparr>pending := None\<rparr>))"
  using assms getline_fits [of input] min.strict_coboundedI2 [OF getline_fits [of input]]
  by (cases oper; cases r)
     (auto simp: fits_def handle_connect_def handle_handshake_def handle_write_def handle_read_def say_def
      say_line_def
        Let_def min.commute)

lemma io_run_fits: "fits c \<Longrightarrow> transfers_ok input rs c \<Longrightarrow> fits (io_run input rs c)"
proof (induction rs arbitrary: c)
  case (Cons r rs)
  then show ?case
    using handle_fits [OF Cons.prems(1), of _ r input] by (auto split: option.splits)
qed simp

section \<open>Properties\<close>

text \<open>C21: The sample client ends and stays within its buffers: after four completions, or the first
  failure, nothing is pending, so that \<^verbatim>\<open>io_service.run\<close> returns; and neither the request,
  cut to 1023 characters, nor the reply, asked for in the length of the request, is ever
  longer than its buffer of 1024, as long as the library transfers what it was asked to.\<close>

theorem sample_client_ends:
  assumes "transfers_ok input rs new_client" and "sample_main [prog, host, port] (Inr ()) input rs = (status, c)"
  shows "status = 0 \<and> length (request c) < 1024 \<and> length (reply c) < 1024 \<and>
         (4 \<le> length rs \<longrightarrow> pending c = None)"
proof -
  have c: "status = 0" "c = io_run input rs new_client"
    using assms(2) by (simp_all add: sample_main_def)
  have "fits new_client" by (simp add: fits_def new_client_def max_length_def)
  then have "fits c" using io_run_fits assms(1) c(2) by blast
  moreover have "4 \<le> length rs \<longrightarrow> pending c = None"
    using io_run_done [of new_client rs input] c(2) by (simp add: new_client_def)
  ultimately show ?thesis
    using c(1) by (simp add: fits_def max_length_def)
qed

theorem sample_client_ends_witness:
  "\<exists>c. sample_main [''client'', ''h'', ''80''] (Inr ()) ''hi''
      [Transferred 0 '''', Transferred 0 '''', Transferred 2 '''', Transferred 2 ''ho''] = (0, c) \<and>
    printed c = [''Enter message: '', ''Reply: ho'' @ [CHR 0x0A]] \<and> pending c = None"
proof -
  let ?rs = "[Transferred 0 '''', Transferred 0 '''', Transferred 2 '''', Transferred 2 ''ho'']"
  let ?c = "io_run ''hi'' ?rs new_client"
  note defs = new_client_def handle_connect_def handle_handshake_def handle_write_def handle_read_def say_def
      say_line_def
    cin_getline_def c_strlen_def max_length_def NUL_def
  have ok: "transfers_ok ''hi'' ?rs new_client" by (simp add: defs)
  have run: "sample_main [''client'', ''h'', ''80''] (Inr ()) ''hi'' ?rs = (0, ?c)"
    by (simp add: sample_main_def)
  have "printed ?c = [''Enter message: '', ''Reply: ho'' @ [CHR 0x0A]]" by (simp add: defs)
  moreover have "pending ?c = None" using sample_client_ends [OF ok run] by simp
  ultimately show ?thesis using run by blast
qed

end
