(* ===== verification/WholeSystem.thy ===== *)
theory WholeSystem
  imports AggregateSim MountSpec
begin

text \<open>
  The whole system from its start: the mount reads its key files and connects, every server
  forks a process for it, the keys are found, and then the mounted file system and these
  processes together are the aggregate of the servers' stores (\<open>Aggregate\<close>).
\<close>

section \<open>The servers before the start\<close>

text \<open>
  A server that has accepted the connection of the mount: the process that it has forked for
  the descriptor, the mount point of the line of the key list that will be found, and the state
  of the system when it has been.
\<close>

record 'h host =
  ho_os :: "'h os"
  ho_plat :: plat
  ho_connfd :: int
  ho_process :: "'h client_connection"
  ho_mount :: string
  ho_state :: 'h

text \<open>
  A key file: a regular file with the right extension, for a server that can be reached, whose
  key list has the key, and whose files under the mount point are the store \<open>F k\<close>.
\<close>

definition key_works ::
  "(string \<Rightarrow> string) \<Rightarrow> string set \<Rightarrow> (string \<Rightarrow> 'h \<Rightarrow> store) \<Rightarrow> (string \<Rightarrow> 'h host) \<Rightarrow> (string \<Rightarrow> store) \<Rightarrow>
     dir_entry \<Rightarrow> bool" where
  "key_works extension names files host F e \<longleftrightarrow>
     de_regular e \<and> extension (de_path e) = EXTENSION \<and>
     (\<exists>content k port key net.
        de_content e = Some content \<and> read_keyfile content = (k, port, key) \<and>
        reaches net k port \<and> de_network e = delivering net [be_bytes cmd_ACCEPT] \<and>
        login (ho_os (host k)) (ho_plat (host k)) key (ho_connfd (host k)) (ho_process (host k))
          (ho_mount (host k)) (ho_state (host k)) \<and>
        store_laws (ho_os (host k)) (ho_mount (host k)) names (files k) \<and> files k (ho_state (host k)) = F k)"

text \<open>
  What becomes of the process: it is given what the connection of the mount has sent, logs the
  client in, sends \<^verbatim>\<open>ACCEPT\<close>, and is then in its command loop, with nothing left to read.
\<close>

definition serving :: "'h host \<Rightarrow> server_connection \<Rightarrow> 'h remote \<Rightarrow> bool" where
  "serving h c r \<longleftrightarrow>
     rm_os r = ho_os h \<and> rm_plat r = ho_plat h \<and>
     (\<exists>s1. new_client_connection (ho_os h) (ho_plat h) (ho_connfd h)
             ((ho_process h)\<lparr>rx := rx_push (tx c) []\<rparr>) = Some s1 \<and>
           processCommands (ho_os h) (ho_plat h) s1 = serve_loop (ho_os h) (ho_plat h) (rm_process r)) \<and>
     tx (rm_process r) = tx (ho_process h) @ be_bytes cmd_ACCEPT \<and> rx (rm_process r) = []"

lemma key_connects:
  assumes "key_works extension names files host F e" and "keyfile_connection p extension e = Some (k, c)"
  shows "healthy c \<and> \<not> closed c \<and> rx c = [] \<and>
    (\<exists>s2. serving (host k) c \<lparr>rm_os = ho_os (host k), rm_plat = ho_plat (host k), rm_process = s2\<rparr> \<and>
       store_ready (ho_os (host k)) names (files k) (F k) s2)"
proof -
  obtain content k' port key net where e: "de_content e = Some content" "read_keyfile content = (k', port, key)"
    "reaches net k' port" "de_network e = delivering net [be_bytes cmd_ACCEPT]"
    and there: "login (ho_os (host k')) (ho_plat (host k')) key (ho_connfd (host k')) (ho_process (host k'))
          (ho_mount (host k')) (ho_state (host k'))"
      "store_laws (ho_os (host k')) (ho_mount (host k')) names (files k')" "files k' (ho_state (host k')) = F k'"
    using assms(1) unfolding key_works_def by blast
  have k: "k' = k" and c: "c = new_server_connection p (de_network e) k port key"
    using assms(2) e(1,2) by (auto simp: keyfile_connection_def Let_def split: if_splits)
  note e = e [unfolded k] and login = there(1) [unfolded k] and laws = there(2,3) [unfolded k]
  have key: "length key \<le> MAX_RW" using login by (simp add: login_def string_ok_def)
  have conn: "healthy c" "tx c = string_enc key" "rx c = []"
    using reaches_accepted [OF e(3) key, of p "[]"] by (simp_all add: c e(4))
  have "\<not> closed c" by (simp add: c new_server_connection_def closed_def connect_members)
  obtain s1 where s1: "new_client_connection (ho_os (host k)) (ho_plat (host k)) (ho_connfd (host k))
      ((ho_process (host k))\<lparr>rx := rx_push (string_enc key) []\<rparr>) = Some s1"
    "healthy s1" "rx s1 = []" "tx s1 = tx (ho_process (host k))" "cc_mountPoint s1 = ho_mount (host k)"
    "cc_host s1 = ho_state (host k)"
    using login_accepted [OF login, of "[]"] by blast
  let ?s2 = "s1\<lparr>tx := tx s1 @ be_bytes cmd_ACCEPT\<rparr>"
  have "agfs_write_cmd (ho_plat (host k)) (socket s1) cmd_ACCEPT s1 = (2, ?s2)"
    using s1(2) by (simp add: healthy_def io_simps)
  then have "processCommands (ho_os (host k)) (ho_plat (host k)) s1 = serve_loop (ho_os (host k)) (ho_plat (host k)) ?s2"
    by (simp add: processCommands_def)
  then have "serving (host k) c \<lparr>rm_os = ho_os (host k), rm_plat = ho_plat (host k), rm_process = ?s2\<rparr>"
    using s1 conn(2) by (auto simp: serving_def)
  moreover have "store_ready (ho_os (host k)) names (files k) (F k) ?s2"
    using s1 laws by (simp add: store_ready_def)
  ultimately show ?thesis
    using conn(1,3) \<open>\<not> closed c\<close> by blast
qed

lemma reaches_network_ok: "reaches net host port \<Longrightarrow> network_ok (delivering net ms)"
  by (simp add: reaches_def network_ok_def delivering_def)

lemma map_of_filter: "map_of (List.map_filter f es) k = Some c \<Longrightarrow> \<exists>e \<in> set es. f e = Some (k, c)"
  by (induction es) (auto simp: List.map_filter_def split: option.splits if_splits)

text \<open>The start of the system.\<close>

lemma system_started:
  assumes "\<forall>e \<in> set keydir. key_works extension names files host F e"
    and "st = agfs_main p extension keydir" and "hosts = map fst (connections st)" and "'''' \<notin> set hosts"
  shows "\<exists>rm. (\<forall>(k, c) \<in> set (connections st). serving (host k) c (rm k) \<and> rx c = []) \<and>
    related (\<lambda>k. ho_plat (host k)) hosts names files st rm \<lparr>ag_files = F, ag_handles = []\<rparr>"
proof -
  have net: "\<forall>e \<in> set keydir. network_ok (de_network e)"
    using assms(1) reaches_network_ok by (fastforce simp: key_works_def)
  have good: "\<exists>s2. healthy c \<and> \<not> closed c \<and> rx c = [] \<and>
      serving (host k) c \<lparr>rm_os = ho_os (host k), rm_plat = ho_plat (host k), rm_process = s2\<rparr> \<and>
      store_ready (ho_os (host k)) names (files k) (F k) s2" if c: "map_find (connections st) k = Some c" for k c
  proof -
    have "map_of (List.map_filter (keyfile_connection p extension) keydir) k = Some c"
      using c by (simp add: assms(2) agfs_main_def Let_def load_keyfiles_find)
    from map_of_filter [OF this] obtain e where e: "e \<in> set keydir" "keyfile_connection p extension e = Some (k, c)"
      by blast
    show ?thesis using key_connects [OF bspec [OF assms(1) e(1)] e(2)] by blast
  qed
  define ready where "ready k c s2 \<longleftrightarrow>
      serving (host k) c \<lparr>rm_os = ho_os (host k), rm_plat = ho_plat (host k), rm_process = s2\<rparr> \<and>
      store_ready (ho_os (host k)) names (files k) (F k) s2" for k c s2
  have "\<exists>s2. \<forall>c. map_find (connections st) k = Some c \<longrightarrow> ready k c s2" for k
  proof (cases "map_find (connections st) k")
    case (Some c)
    then obtain s2 where "ready k c s2" using good unfolding ready_def by blast
    then show ?thesis using Some by auto
  qed simp
  then obtain s2 where "\<And>k c. map_find (connections st) k = Some c \<Longrightarrow> ready k c (s2 k)" by metis
  note s2 = this [unfolded ready_def]
  let ?rm = "\<lambda>k. \<lparr>rm_os = ho_os (host k), rm_plat = ho_plat (host k), rm_process = s2 k\<rparr>"
  have "linked (\<lambda>k. ho_plat (host k)) names files ?rm F k c" if "map_find (connections st) k = Some c" for k c
    using good [OF that] s2 [OF that] by (auto simp: linked_def)
  then have "related (\<lambda>k. ho_plat (host k)) hosts names files st ?rm \<lparr>ag_files = F, ag_handles = []\<rparr>"
    by (rule main_related [OF net assms(2-4)])
  moreover have "map_ok (connections st)"
    using main_ok [OF net, of p extension] by (simp add: assms(2) mount_ok_def table_ok_def)
  then have "serving (host k) c (?rm k) \<and> rx c = []" if "(k, c) \<in> set (connections st)" for k c
    using that s2 good by (fastforce simp: map_find_sorted)
  then have "\<forall>(k, c) \<in> set (connections st). serving (host k) c (?rm k) \<and> rx c = []" by blast
  ultimately show ?thesis by (intro exI [of _ ?rm] conjI)
qed

section \<open>The end\<close>

text \<open>
  \<^verbatim>\<open>destroy\<close> sends a stop on a connection and closes it; the process at the other end, given
  the stop, leaves its loop in the state \<open>s'\<close>, with its socket closed.
\<close>

definition ended ::
  "server_connection \<Rightarrow> server_connection \<Rightarrow> 'h remote \<Rightarrow> 'h client_connection \<Rightarrow> bool" where
  "ended c c' r s' \<longleftrightarrow>
     tx c' = tx c @ be_bytes cmd_STOP \<and> closed c' \<and> \<not> connected c' \<and> \<not> sock_open c' \<and>
     serve_loop (rm_os r) (rm_plat r) ((rm_process r)\<lparr>rx := rx_push (be_bytes cmd_STOP) []\<rparr>) = Some s' \<and>
     \<not> connected s' \<and> \<not> sock_open s'"

abbreviation connection_to :: "mount \<Rightarrow> string \<Rightarrow> server_connection" where
  "connection_to st k \<equiv> the (map_find (connections st) k)"

lemma system_ended:
  assumes "related q hosts names files st rm ag" and "k \<in> set hosts"
  shows "files k (cc_host (rm_process (rm k))) = ag_files ag k"
    and "\<exists>s'. ended (connection_to st k) (connection_to (agfs_destroy p st) k) (rm k) s' \<and>
           files k (cc_host s') = ag_files ag k"
proof -
  from assms obtain cs where conns: "connections st = table hosts cs"
    and link: "linked q names files rm (ag_files ag) k (cs k)"
    unfolding related_def by blast
  define c where "c = connection_to st k"
  have k: "c = cs k" using conns assms(2) by (simp add: c_def map_find_table)
  note link = link [folded k]
  have after: "map_find (connections (agfs_destroy p st)) k = Some (snd (stop p c))"
    using conns assms(2) k by (simp add: agfs_destroy_def map_find_table)
  have c: "healthy c" and s: "healthy (rm_process (rm k))" "files k (cc_host (rm_process (rm k))) = ag_files ag k"
    using link by (simp_all add: linked_def store_ready_def)
  have "conn_ok c" using c by (simp add: healthy_def conn_ok_def live_def connected_def)
  then have "closed (snd (stop p c))" by (rule stop_closed(1))
  let ?s = "(rm_process (rm k))\<lparr>rx := rx_push (be_bytes cmd_STOP) []\<rparr>"
  let ?s' = "?s\<lparr>rx := [], sock_open := False, socket := -1\<rparr>"
  have "serve_loop (rm_os (rm k)) (rm_plat (rm k)) ?s = Some ?s'"
    using s(1) by (intro serve_loop_turn(2) serve_step_stop) simp_all
  then have "ended c (snd (stop p c)) (rm k) ?s'"
    using stop_sent(1) [OF c] healthy_stop [OF c] \<open>closed (snd (stop p c))\<close> by (simp add: ended_def connected_def)
  moreover have "files k (cc_host ?s') = ag_files ag k" using s(2) by simp
  ultimately show "\<exists>s'. ended (connection_to st k) (connection_to (agfs_destroy p st) k) (rm k) s' \<and>
      files k (cc_host s') = ag_files ag k"
    using after unfolding c_def by auto
  show "files k (cc_host (rm_process (rm k))) = ag_files ag k" by (rule s(2))
qed

section \<open>Properties\<close>

text \<open>C1: The system from its start: when every key file is for a server that can be reached and has
  the key on its list, the mount that \<^verbatim>\<open>main\<close> makes is connected to a process of each
  server, which has logged it in and is in its command loop; and from then on any sequence of
  \<^verbatim>\<open>open\<close>, \<^verbatim>\<open>read\<close>, \<^verbatim>\<open>write\<close>, \<^verbatim>\<open>release\<close>, \<^verbatim>\<open>getattr\<close>, \<^verbatim>\<open>access\<close> and steps of the
  threads returns what it returns on the aggregate of the servers' stores. \<^verbatim>\<open>destroy\<close> then
  stops every connection, and every process ends with its socket closed, its system with the
  files that the aggregate has.\<close>

theorem system_serves:
  assumes "\<forall>e \<in> set keydir. key_works extension names files host F e"
    and "st = agfs_main p extension keydir" and "hosts = map fst (connections st)" and "'''' \<notin> set hosts"
    and "all_ok (fs_ok p (\<lambda>k. ho_plat (host k)) hosts names) (aggregate_do hosts) calls \<lparr>ag_files = F, ag_handles = []\<rparr>"
    and "run_spec (aggregate_do hosts) calls \<lparr>ag_files = F, ag_handles = []\<rparr> = (rs, ag')"
  shows "\<exists>rm st' rm'.
    (\<forall>(k, c) \<in> set (connections st). connected c \<and> rx c = [] \<and> serving (host k) c (rm k)) \<and>
    world_run p net calls st rm rs st' rm' \<and>
    handles st' = ag_handles ag' \<and> map fst (connections st') = hosts \<and>
    (\<forall>k \<in> set hosts. files k (cc_host (rm_process (rm' k))) = ag_files ag' k \<and>
       (\<exists>s'. ended (connection_to st' k) (connection_to (agfs_destroy p st') k) (rm' k) s' \<and>
             files k (cc_host s') = ag_files ag' k))"
proof -
  obtain rm where rm: "\<forall>(k, c) \<in> set (connections st). serving (host k) c (rm k) \<and> rx c = []"
    and rel: "related (\<lambda>k. ho_plat (host k)) hosts names files st rm \<lparr>ag_files = F, ag_handles = []\<rparr>"
    using system_started [OF assms(1-4)] by blast
  have up: "connected c" if "(k, c) \<in> set (connections st)" for k c
    using rel that by (auto simp: related_def linked_def set_table intro: healthy_live)
  obtain st' rm' where run: "world_run p net calls st rm rs st' rm'"
    and rel': "related (\<lambda>k. ho_plat (host k)) hosts names files st' rm' ag'"
    using run_simulated [OF rel assms(5,6)] by blast
  from rel' have "handles st' = ag_handles ag'" "map fst (connections st') = hosts"
    by (auto simp: related_def)
  then show ?thesis using rm up run system_ended [OF rel'] by blast
qed

text \<open>Two key files, for the two servers of the example.\<close>

definition two_keyfiles :: "dir_entry list" where
  "two_keyfiles = map (\<lambda>content. \<lparr>de_path = ''/k/h.agkey'', de_regular = True, de_content = Some content,
     de_network = delivering (answering cmd_ACCEPT) [be_bytes cmd_ACCEPT]\<rparr>) [''h1 80 K'', ''h2 80 K'']"

definition example_host :: "string \<Rightarrow> (store \<times> string \<times> nat) host" where
  "example_host k = (let table = (if k = ''h1'' then example_table else second_table)
     in \<lparr>ho_os = store_os, ho_plat = ppc, ho_connfd = 3, ho_process = store_forked table,
         ho_mount = ''/m'', ho_state = (table, '''', 0)\<rparr>)"

lemma two_keyfiles_read: "read_keyfile ''h1 80 K'' = (''h1'', ''80'', ''K'')" "read_keyfile ''h2 80 K'' = (''h2'', ''80'', ''K'')"
  by (simp_all add: read_keyfile_def open_istream_def stream_get_def is_space_def Let_def)

lemma answering_reaches_any: "reaches (answering cmd_ACCEPT) host port"
  by (simp add: reaches_def answering_def)

lemma two_keyfiles_work:
  "\<forall>e \<in> set two_keyfiles. key_works (\<lambda>path. ''.agkey'') names (\<lambda>k. store_files) example_host two_files e"
proof -
  have "login (ho_os (example_host k)) (ho_plat (example_host k)) ''K'' (ho_connfd (example_host k))
      (ho_process (example_host k)) (ho_mount (example_host k)) (ho_state (example_host k)) \<and>
      store_laws (ho_os (example_host k)) (ho_mount (example_host k)) names store_files \<and>
      store_files (ho_state (example_host k)) = two_files k" for k
    using store_login store_os_laws [of names] by (simp add: example_host_def store_files_def two_files_def)
  then show ?thesis
    using two_keyfiles_read answering_reaches_any
    by (auto simp: two_keyfiles_def key_works_def EXTENSION_def)
qed

lemma two_keyfiles_hosts: "map fst (connections (agfs_main p (\<lambda>path. ''.agkey'') two_keyfiles)) = [''h1'', ''h2'']"
proof -
  let ?net = "delivering (answering cmd_ACCEPT) [be_bytes cmd_ACCEPT]"
  have "connected (new_server_connection p ?net k ''80'' ''K'')" for k
    using reaches_accepted(1) [OF answering_reaches_any, of "''K''" p "[]" k "''80''"] healthy_live by (simp add: MAX_RW_def)
  moreover have "\<not> stopped (new_server_connection p ?net k ''80'' ''K'')" for k
    by (simp add: new_server_connection_def stopped_def connect_members)
  ultimately show ?thesis
    using two_keyfiles_read
    by (simp add: agfs_main_def two_keyfiles_def EXTENSION_def Let_def map_insert_def)
qed

theorem system_serves_witness:
  "\<exists>rm st' rm'. world_run x86 (answering cmd_ACCEPT) [Open_call (Plain ''/a'') 0, Write_call 1 [7] 1, Read_call 1 [0, 0] 1, Access_call (Plain ''/b'')]
     (agfs_main x86 (\<lambda>path. ''.agkey'') two_keyfiles) rm [Opened 0 1, Result 1, Got 2 [7, 3], Result 0] st' rm' \<and>
     store_files (cc_host (rm_process (rm' ''h1''))) ''/a'' = Some [1, 7, 3]"
proof -
  let ?calls = "[Open_call (Plain ''/a'') 0, Write_call 1 [7] 1, Read_call 1 [0, 0] 1, Access_call (Plain ''/b'')]"
  let ?rs = "[Opened 0 1, Result 1, Got 2 [7, 3], Result 0]"
  let ?hosts = "[''h1'', ''h2'']" and ?names = "{''/a'', ''/b''}" and ?ag = "\<lparr>ag_files = two_files, ag_handles = []\<rparr>"
  let ?q = "\<lambda>k. ho_plat (example_host k)"
  have files: "two_files ''h1'' ''/a'' = Some [1, 2, 3]" "two_files ''h1'' ''/b'' = Some []"
    "two_files ''h2'' ''/a'' = None" "two_files ''h2'' ''/b'' = Some [4, 5]"
    by (simp_all add: two_files_def)
  have q: "?q = (\<lambda>k. ppc)" by (simp add: example_host_def Let_def)
  have names: "name_ok ?q ?hosts ?names (Plain ''/a'')" "name_ok ?q ?hosts ?names (Plain ''/b'')"
    by (simp_all add: q name_ok.simps clean_name_def BEGIN_BRACE_def END_BRACE_def path_ok_def string_ok_def
          NUL_def MAX_RW_def)
  have ok: "all_ok (fs_ok x86 ?q ?hosts ?names) (aggregate_do ?hosts) ?calls ?ag"
    using names files
    by (simp add: q plain_mode_def O_RDONLY_def ag_handle_def ag_content_def put_content_def MAX_RW_def)
  obtain ag' where run: "run_spec (aggregate_do ?hosts) ?calls ?ag = (?rs, ag')"
    and ag': "ag_files ag' ''h1'' ''/a'' = Some [1, 7, 3]"
    using files by (simp add: ag_handle_def ag_content_def put_content_def put_at_def)
  have "'''' \<notin> set ?hosts" by simp
  from system_serves [OF two_keyfiles_work refl two_keyfiles_hosts [symmetric] this ok run]
  obtain rm st' rm' where r: "world_run x86 (answering cmd_ACCEPT) ?calls (agfs_main x86 (\<lambda>path. ''.agkey'') two_keyfiles) rm ?rs st' rm'"
    "\<forall>k \<in> set ?hosts. store_files (cc_host (rm_process (rm' k))) = ag_files ag' k" by blast
  then have "store_files (cc_host (rm_process (rm' ''h1''))) ''/a'' = Some [1, 7, 3]" using ag' by simp
  with r(1) show ?thesis by (intro exI conjI)
qed

end
