(* ===== verification/Spec2Isabelle.thy ===== *)
theory Spec2Isabelle
  imports Aggregate AggregateSim AgfsFuse AgfsIO Agfsd ClientConnection ClientLife Connection Constants Conversation DisamSpec Disambiguater DownServers FileHistory
    FuseOps Isolation Keygen ListedNames LocalFs ManyMounts MergedView Mount MountSpec Platform Prelude Protocol QueryHistory SampleClient
    ServerConnection Serving Session StdMap StdStream StoreHistory WholeSystem
begin

text \<open>
  AgFS, an aggregating network file system: \<^verbatim>\<open>agfs\<close> mounts, through FUSE, the directories
  of many servers as one tree, in which a file that several servers have appears once per
  server as \<^verbatim>\<open>name{:server:}\<close>; \<^verbatim>\<open>agfsd\<close> runs on each server and answers; and
  \<^verbatim>\<open>agfs-keygen\<close> makes the keys that a client logs in with. This development models the
  three programs and proves what makes them correct, and where they are not.

  Parts and theories (the sources are under \<^verbatim>\<open>src/src\<close>).

  \<^item> \<open>Prelude\<close>: the integer types of \<^verbatim>\<open>constants.hpp\<close> as words, the bytes of a word in
    memory on a host of either byte order, C++ strings as bytes. \<open>StdMap\<close>: \<^verbatim>\<open>std::map\<close> as a
    sorted list, with its contract as the locale \<open>std_map\<close>. \<open>StdStream\<close>: \<^verbatim>\<open>std::fstream\<close> and
    \<^verbatim>\<open>operator>>\<close>. \<open>Platform\<close>: the socket as one process sees it (what its reads will bring,
    what its writes will do, what it has written), errno, \<^verbatim>\<open>struct stat\<close>. \<open>Constants\<close>: the
    commands and the paths.
  \<^item> \<open>AgfsIO\<close>: \<^verbatim>\<open>agfsio.cpp\<close>, every value that crosses the network. The locale \<open>wire_item\<close> is
    the contract of a writer and its reader; it is interpreted for the six pairs of the file.
  \<^item> \<open>Disambiguater\<close>: \<^verbatim>\<open>disambiguater.cpp\<close>, the merge of listings and the tagged names.
    \<open>DisamSpec\<close>: the abstract catalogue that it implements.
  \<^item> \<open>Connection\<close>, \<open>Protocol\<close>: what both ends of a connection share, and the bytes of each
    request and answer. \<open>ServerConnection\<close>: \<^verbatim>\<open>serverconnection.cpp\<close>, the client's end, one
    definition per method. \<open>ClientLife\<close>: what its methods keep (locale \<open>rpc\<close>, interpreted for
    the six file operations), connecting, heartbeats and stopping.
  \<^item> \<open>ClientConnection\<close>: \<^verbatim>\<open>agfs-server.cpp\<close>, the server's end: constructor, handlers and
    command loop, over a record \<open>os\<close> of the calls on the operating system. \<open>Serving\<close>: the life of
    a server process. \<open>Session\<close>: both ends against each other, call by call. \<open>Conversation\<close>: a
    connection from the key to the stop, each end run on all the bytes of the other (locale
    \<open>conversation\<close>: what a set of calls has to fulfil for that). \<open>FileHistory\<close> interprets it for
    reads, writes and heartbeats, which refine a list of bytes, \<open>QueryHistory\<close> for the calls that
    ask for metadata, \<open>StoreHistory\<close> for all of them on all files of a server. \<open>MergedView\<close>: a listing of the mount from the directories of its servers.
  \<^item> \<open>AgfsFuse\<close>: the operations of \<^verbatim>\<open>agfs.cpp\<close> that ask servers or keep handles. \<open>LocalFs\<close>: those
    that go to the local machine. \<open>Mount\<close>: \<^verbatim>\<open>main\<close> and the heartbeat threads, and the step
    relation \<open>mount_step\<close> that lets file operations, threads and \<^verbatim>\<open>destroy\<close> act in any order.
    \<open>MountSpec\<close>: the invariant of all reachable states, the machine with two states per host that
    the program refines, and the end of the threads. \<open>FuseOps\<close>: the table of operations that FUSE
    is given.
  \<^item> \<open>Agfsd\<close>: \<^verbatim>\<open>agfsd.cpp\<close>. \<open>Keygen\<close>: \<^verbatim>\<open>agfs-keygen.cpp\<close>. \<open>SampleClient\<close>:
    \<^verbatim>\<open>agfs-client.cpp\<close>, a client of an echo server that shares nothing with the rest.
  \<^item> \<open>Aggregate\<close>: the mount with the processes of all servers, and the abstract store that
    aggregates theirs. \<open>AggregateSim\<close>: the one implements the other. \<open>WholeSystem\<close>: the same from the key files and the logins on.
    \<open>ManyMounts\<close>: several mounts of the same servers, on one store. \<open>ListedNames\<close>: what opening a
    name of a listing does. \<open>DownServers\<close>: the mount while servers are down.
    \<open>Isolation\<close>: servers do not interfere with each other (locale \<open>isolated\<close>, the unwinding
    conditions of one call).
  \<^item> This theory: the parts together, from a generated key to an accepted client, and from a
    read or write of a mounted file to the file on the server.

  How the code is rendered. Each function of the source is a definition of the same name (\<open>open\<close>
  of the client is \<open>open_file\<close>; a constructor is \<open>new_\<close> with its class), in the order of its
  statements, with the object or the global state passed through. An integer has its width; an
  error of type \<^verbatim>\<open>agerr_t\<close> is a 64-bit word that is negative when its sign bit is set. An
  operation that may end the process (an allocation whose size came from the network fails, a
  Boost call throws) or whose behaviour is undefined (a stale handle, a copy beyond a buffer)
  returns an option. A failing call of the system sets errno in the state.

  Parameters. \<open>plat\<close>: byte order, which allocations succeed, what uninitialised memory holds.
  \<open>rx\<close> and \<open>wx\<close> of a socket: any finite sequence of segments, errors and short writes; a theorem
  for all of them is a theorem for every behaviour of the network. \<open>network\<close>: what an attempt to
  connect meets. \<open>os\<close> and \<open>local_fs\<close>: the calls of the operating system, on a state that other
  processes may change between two calls. \<open>seek_law\<close>, \<open>read_law\<close> and \<open>write_law\<close> state what POSIX
  says of an open file; \<open>file_laws\<close> adds that the file can be opened, \<open>store_laws\<close> that files with
  different names are different files. The example systems \<open>file_os\<close> and \<open>store_os\<close> satisfy
  them. A real system does as long as it has descriptors left: \<^verbatim>\<open>processRead\<close> never gives its
  one back.

  Loops. All are total: the write loop of the client and the two file loops by the bytes that
  are left, the command loop by the events that are left and the beats that may still be missed.
  Only the loop over the key list may run for ever; it is a partial function, shown to return for
  every content of a file that could be opened. No fuel is used.

  What the lemmas show. Each writer and its reader make a round trip between hosts of any byte
  order; each request of a client is answered by the server's handler as the call on the
  server's file says (\<open>Session\<close>), and composed with the mount for reading and writing; the merged
  listing holds exactly what is in the servers' directories, and its names lead back to them;
  a whole connection, with any history of requests, is the same history on a list of bytes (one
  file) or on a table of files (all calls), and the mount with all its servers is one store
  that aggregates theirs, from the reading of the key files on, also when several mounts use the
  same servers: then a write is read at once by every mount; what one server sends does not change what is
  read from another; no descriptor
  is leaked or used after it was closed, in any interleaving; a process is connected only with
  a key of the list; processes and threads end.

  Where the code falls short of its intent, the theorem says what it does: a heartbeat that
  times out is noticed on big-endian hosts only, an operation without connection reports
  success (so a server that is down makes every listing succeed, and may count as having any file), the group of a user is not taken, missed beats are never forgotten, an unreadable key
  list makes the constructor loop, what removes, makes or renames files acts on the local
  machine, and a file with the name of another server's directory is listed under a name that
  cannot be opened.

  Not modelled. The commented-out option
  processing of \<^verbatim>\<open>agfs.cpp\<close>; messages on the standard streams;
  socket options (their time-outs are events of the socket); \<^verbatim>\<open>SIGPIPE\<close> and other signals;
  the descriptor and the address list that \<^verbatim>\<open>dnsLookup\<close> leaves behind when it fails; the
  empty \<^verbatim>\<open>processRelease\<close>. Each method of \<^verbatim>\<open>ServerConnection\<close> is one step of the mount, as
  its mutex makes it; \<^verbatim>\<open>connect\<close>, which does not take the mutex, is one step too. The calls of
  several mounts come one after another: two processes of a server in the middle of a turn at the
  same time are not modelled.
\<close>

section \<open>From the key generator to an accepted client\<close>

lemma find_key_last:
  assumes "\<forall>e \<in> set entries. \<not> has_key key e" and "has_key key e"
  shows "find (has_key key) (entries @ [e]) = Some e"
  using assms by (induction entries) auto

lemma key_string_ok:
  "alloc_ok q 513 \<Longrightarrow> string_ok q (key_str_loop p KEY_LEN rnd '''')"
  using length_key [of p KEY_LEN rnd "''''"] key_word_ok(2) [of p rnd]
  by (simp add: string_ok_def KEY_LEN_def MAX_RW_def del: key_str_loop.simps)

text \<open>C14: A key works: when \<^verbatim>\<open>agfs-keygen\<close> has run, on any host, and its key file and its line of
  the list are in place, a client that is made from the key file sends the key that the server
  finds; the server's process serves the mount point of the line as the user of the line, and
  its \<^verbatim>\<open>ACCEPT\<close> is what the client waits for to be connected.\<close>

theorem keygen_login:
  assumes "argv = [prog, host, port, user, mnt, name]"
    and "kg_dir_exists env \<or> kg_create_directory env"
    and "kg_list env = Some (concat (map key_line entries))"
    and "kg_opens env (KEY_NAME_PATH @ name @ KEY_EXTENSION)"
    and "word_ok host" and "word_ok port" and "word_ok user" and "word_ok mnt"
    and "\<forall>e \<in> set entries. entry_ok e \<and> \<not> has_key (key_str_loop p0 KEY_LEN (kg_random env) '''') e"
    and "kg_keyfile (agfs_keygen p0 env argv) = Some (path, content)"
    and "read_keyfile content = (h', port', key)"
    and "network_ok net" and "d = net host port" and "dial_getaddrinfo d = 0" and "dial_socket d \<noteq> - 1"
    and "dial_connect d \<noteq> - 1" and "dial_wx d = []" and "dial_rx d = rx_push (be_bytes cmd_ACCEPT) evs"
    and "client = new_server_connection p net h' port' key"
    and "live connfd s" and "wx s = []" and "cc_uid s = 0" and "alloc_ok q 513"
    and "os_read_file os KEY_LIST_PATH (cc_host s) = (kg_list_after (agfs_keygen p0 env argv), hs)"
    and "os_getpwnam os user hs = (Some (uid, gid), hs1)" and "os_exists os mnt hs1 = (Some True, hs2)"
  shows "connected client \<and> sc_hostname client = host \<and>
    (\<exists>s'. new_client_connection os q connfd (s\<lparr>rx := rx_push (tx client) []\<rparr>) = Some s' \<and> connected s' \<and>
       cc_mountPoint s' = mnt \<and> cc_uid s' = uid \<and>
       tx (snd (agfs_write_cmd q (socket s') cmd_ACCEPT s')) = tx s @ be_bytes cmd_ACCEPT)"
proof -
  define K where "K = key_str_loop p0 KEY_LEN (kg_random env) ''''"
  note run = keygen_written [OF assms(1-6) K_def]
  have kf: "h' = host" "port' = port" "key = K"
    using run assms(10,11) by auto
  have list: "kg_list_after (agfs_keygen p0 env argv) =
      Some (concat (map key_line (entries @ [(mnt, user, K)])))"
    using run by auto
  have entries: "\<forall>e \<in> set (entries @ [(mnt, user, K)]). entry_ok e"
    using assms(7-9) key_word_ok(1) [of p0 "kg_random env"] by (auto simp: K_def)
  have K: "string_ok q K" using key_string_ok [OF assms(23)] by (simp add: K_def)
  let ?c0 = "\<lparr>rx = [], wx = [], tx = [], sock_open = False, errno = 0, socket = -1,
       sc_failedCommand = False, sc_connectionStopped = False, sc_hostname = host,
       sc_port = port, sc_key = K, sc_closed = False\<rparr> :: server_connection"
  have client: "client = connect p net ?c0"
    using assms(19) kf by (simp add: new_server_connection_def)
  have "connected client" and sent: "tx client = string_enc K"
    unfolding client using connect_answered(1,2) [OF assms(12), of d ?c0 cmd_ACCEPT evs p] assms(13-18) K
    by (simp_all add: string_ok_def)
  moreover have "sc_hostname client = host" by (simp add: client connect_members)
  moreover have g: "greeted connfd K [] (s\<lparr>rx := rx_push (tx client) []\<rparr>)"
    using assms(20,21) sent by (simp add: greeted_def live_def)
  moreover have "find (has_key K) (entries @ [(mnt, user, K)]) = Some (mnt, user, K)"
    using assms(9) by (intro find_key_last) (simp_all add: K_def)
  then obtain e where "new_client_connection os q connfd (s\<lparr>rx := rx_push (tx client) []\<rparr>) =
      Some (s\<lparr>rx := [], errno := e, socket := connfd, cc_mountPoint := mnt, cc_beatsMissed := 0,
        cc_host := hs2, cc_uid := uid, cc_gid := gid_after uid gid (s\<lparr>rx := rx_push (tx client) []\<rparr>)\<rparr>)"
    using constructor_accepted [OF g K _ entries, of os hs mnt user K uid gid hs1 hs2] assms(22,24-26) list
    by auto
  moreover have "live connfd s" "wx s = []" "0 \<le> connfd" using assms(20,21) by (simp_all add: live_def)
  ultimately show ?thesis
    by (simp add: connected_def io_simps live_def)
qed

theorem keygen_login_witness:
  "\<exists>key s'. key = key_str_loop x86 KEY_LEN (kg_random keygen_example) '''' \<and>
     connected (new_server_connection ppc (answering cmd_ACCEPT) ''h1'' ''80'' key) \<and>
     new_client_connection (file_os\<lparr>os_read_file := (\<lambda>path h. (Some (key_line (''/m'', ''u'', key)), h))\<rparr>) x86 3
       ((forked key)\<lparr>rx := rx_push (tx (new_server_connection ppc (answering cmd_ACCEPT) ''h1'' ''80'' key)) []\<rparr>) =
         Some s' \<and> connected s' \<and> cc_mountPoint s' = ''/m'' \<and> cc_uid s' = 1000"
proof -
  let ?key = "key_str_loop x86 KEY_LEN (kg_random keygen_example) ''''"
  let ?argv = "[''agfs-keygen'', ''h1'', ''80'', ''u'', ''/m'', ''k'']"
  let ?os = "file_os\<lparr>os_read_file := (\<lambda>path h. (Some (key_line (''/m'', ''u'', ?key)), h))\<rparr>"
  let ?s = "forked ?key"
  have w: "word_ok ''h1''" "word_ok ''80''" "word_ok ''u''" "word_ok ''/m''"
    by (simp_all add: word_ok_def is_space_def)
  have e: "kg_dir_exists keygen_example \<or> kg_create_directory keygen_example"
    "kg_list keygen_example = Some (concat (map key_line []))" "kg_opens keygen_example path" for path
    by (simp_all add: keygen_example_def)
  obtain content where run: "agfs_keygen x86 keygen_example ?argv =
      \<lparr>kg_status = 0, kg_list_after = Some (key_line (''/m'', ''u'', ?key)),
       kg_keyfile = Some (KEY_NAME_PATH @ ''k'' @ KEY_EXTENSION, content)\<rparr>"
    and content: "read_keyfile content = (''h1'', ''80'', ?key)"
    using keygen_written [OF refl e(1) e(2) e(3) w(1,2) refl, of x86 "''agfs-keygen''" "''u''" "''/m''" "''k''"]
    by auto
  have none: "\<forall>x \<in> set []. entry_ok x \<and> \<not> has_key ?key x" by simp
  have kf: "kg_keyfile (agfs_keygen x86 keygen_example ?argv) = Some (KEY_NAME_PATH @ ''k'' @ KEY_EXTENSION, content)"
    and rf: "os_read_file ?os KEY_LIST_PATH (cc_host ?s) =
      (kg_list_after (agfs_keygen x86 keygen_example ?argv), cc_host ?s)"
    unfolding run by simp_all
  have net: "network_ok (answering cmd_ACCEPT)" "dial_getaddrinfo (answering cmd_ACCEPT ''h1'' ''80'') = 0"
    "dial_socket (answering cmd_ACCEPT ''h1'' ''80'') \<noteq> - 1" "dial_connect (answering cmd_ACCEPT ''h1'' ''80'') \<noteq> - 1"
    "dial_wx (answering cmd_ACCEPT ''h1'' ''80'') = []"
    "dial_rx (answering cmd_ACCEPT ''h1'' ''80'') = rx_push (be_bytes cmd_ACCEPT) []"
    using be_bytes_nonempty [of cmd_ACCEPT] by (simp_all add: answering_def rx_push_def)
  have s: "live 3 ?s" "wx ?s = []" "cc_uid ?s = 0" "alloc_ok x86 513"
    "os_getpwnam ?os ''u'' (cc_host ?s) = (Some (1000, 100), cc_host ?s)"
    "os_exists ?os ''/m'' (cc_host ?s) = (Some True, cc_host ?s)"
    by (simp_all add: forked_def file_server_def live_def)
  show ?thesis
    using keygen_login [OF refl e(1,2) e(3) w none kf content net(1) refl net(2-6) refl s(1-4) rf s(5,6), of ppc] by blast
qed

section \<open>From the mounted file system to the file of a server\<close>

lemma healthy_connected: "healthy c \<Longrightarrow> connected (c\<lparr>rx := evs\<rparr>)"
  by (simp add: healthy_def live_def connected_def)

lemma handle_at_connections [simp]: "handle_at (st\<lparr>connections := m\<rparr>) fh = handle_at st fh"
  by (simp add: handle_at_def)

lemma length_data_err:
  assumes "n \<le> MAX_RW"
  shows "\<not> neg_err (word_of_nat n)" and "int_of_err (word_of_nat n) = int n"
  using assms int_of_err_nat [of n] by (simp_all add: sint_length_u64 MAX_RW_def)

text \<open>Reading a mounted file: when the host of an open handle answers in one turn of its loop,
  whatever the byte orders of the two hosts, \<^verbatim>\<open>read\<close> puts the bytes of the server's file from
  the offset on, as many as the buffer takes or as there are, at the start of the buffer,
  leaves the rest of the buffer alone and returns their number; neither side has bytes left
  over.\<close>

theorem mount_reads_file:
  assumes "handle_at st fh = Some hnd" and "map_find (connections st) (fh_server hnd) = Some c"
    and "healthy c" and "healthy s" and "path_ok (fh_file hnd)" and "string_ok q (fh_file hnd)"
    and "length buf \<le> MAX_RW" and "alloc_ok q (length buf)" and "unat off < 2 ^ 63"
    and "os_open os (path_append os (cc_mountPoint s) (fh_file hnd)) O_RDONLY (cc_host s) = (Inr fd, h)"
    and "0 \<le> fd" and "view h = Some (content, pos)"
    and "seek_law os fd view" and "read_law os fd view"
    and "data = take (length buf) (drop (unat off) content)" and "alloc_ok p (length data)"
  shows "\<exists>request reply c' s'.
    agfs_read p buf off fh
      (st\<lparr>connections := map_put (fh_server hnd) (c\<lparr>rx := rx_push reply (rx c)\<rparr>) (connections st)\<rparr>) =
      Some ((int (length data), data @ drop (length data) buf),
            st\<lparr>connections := map_put (fh_server hnd) c' (connections st)\<rparr>) \<and>
    tx c' = tx c @ request \<and> rx c' = rx c \<and>
    serve_step os q (s\<lparr>rx := rx_push request (rx s)\<rparr>) = Some (True, s') \<and>
    tx s' = tx s @ reply \<and> rx s' = rx s \<and>
    view (cc_host s') = Some (content, unat off + length data)"
proof -
  have sz: "unat (word_of_nat (length buf) :: agsize_t) = length buf"
    using assms(7) by (simp add: unat_of_nat MAX_RW_def)
  have len: "length data \<le> length buf" "length data \<le> MAX_RW" using assms(7,15) by simp_all
  obtain c' s' where "session (readFile p (fh_file hnd) (word_of_nat (length buf)) off) (serve_step os q) c s
      (data, word_of_nat (length data)) c' s'" and view: "view (cc_host s') = Some (content, unat off + length data)"
    using read_session [OF assms(3-6), of "word_of_nat (length buf)" off os fd h view content pos data p]
      assms(8-16) sz len by auto
  then obtain request reply where
    call: "readFile p (fh_file hnd) (word_of_nat (length buf)) off (c\<lparr>rx := rx_push reply (rx c)\<rparr>) =
      Some ((data, word_of_nat (length data)), c')"
    and io: "tx c' = tx c @ request" "rx c' = rx c"
      "serve_step os q (s\<lparr>rx := rx_push request (rx s)\<rparr>) = Some (True, s')" "tx s' = tx s @ reply" "rx s' = rx s"
    unfolding session_def by blast
  let ?st = "st\<lparr>connections := map_put (fh_server hnd) (c\<lparr>rx := rx_push reply (rx c)\<rparr>) (connections st)\<rparr>"
  have "handle_at ?st fh = Some hnd" using assms(1) by simp
  then have "agfs_read p buf off fh ?st = Some ((int (length data), data @ drop (length data) buf),
      st\<lparr>connections := map_put (fh_server hnd) c' (connections st)\<rparr>)"
    using call len healthy_connected [OF assms(3)] length_data_err [OF len(2)]
    by (simp add: agfs_read_def map_find_put overlay_def)
  then show ?thesis using io view by blast
qed

text \<open>A mounted file system with one open file of the example server.\<close>

definition mounted_example :: fuse where
  "mounted_example = \<lparr>connections = [(''h1'', open_client)],
     handles = [Some \<lparr>fh_server = ''h1'', fh_file = ''/f''\<rparr>]\<rparr>"

lemma mounted_example_handle:
  "handle_at mounted_example 1 = Some \<lparr>fh_server = ''h1'', fh_file = ''/f''\<rparr>"
  "map_find (connections mounted_example) (fh_server \<lparr>fh_server = ''h1'', fh_file = ''/f''\<rparr>) = Some open_client"
  by (simp_all add: mounted_example_def handle_at_def)

theorem mount_reads_file_witness:
  "\<exists>reply st'. agfs_read x86 [0, 0, 0] 2 1
     (mounted_example\<lparr>connections := map_put ''h1'' (open_client\<lparr>rx := rx_push reply []\<rparr>) (connections mounted_example)\<rparr>) =
     Some ((2, [30, 40, 0]), st')"
  using mount_reads_file [OF mounted_example_handle, where p = x86 and q = ppc and s = file_server and os = file_os
      and fd = 5 and view = Some and content = "[10, 20, 30, 40]" and pos = 0 and h = "([10, 20, 30, 40], 0)"
      and data = "[30, 40]" and buf = "[0, 0, 0]" and off = 2] file_os_laws [of 5]
  by (simp add: MAX_RW_def) blast

text \<open>C9: Writing a mounted file: when the host of an open handle answers in one turn of its loop,
  \<^verbatim>\<open>write\<close> puts the buffer into the server's file at the offset and returns its length; the
  bytes of the file before and after stay, a gap is filled with zeros, the server has closed
  the file again, and neither side has bytes left over.\<close>

theorem mount_writes_file:
  assumes "handle_at st fh = Some hnd" and "map_find (connections st) (fh_server hnd) = Some c"
    and "healthy c" and "healthy s" and "path_ok (fh_file hnd)" and "string_ok q (fh_file hnd)"
    and "length buf < 2 ^ 31" and "alloc_ok q (length buf)" and "unat off < 2 ^ 63"
    and "os_open os (path_append os (cc_mountPoint s) (fh_file hnd)) O_WRONLY (cc_host s) = (Inr fd, h)"
    and "0 \<le> fd" and "view h = Some (content, pos)"
    and "seek_law os fd view" and "write_law os fd view" and "buf \<noteq> []"
  shows "\<exists>request reply c' s' h'.
    agfs_write p buf off fh
      (st\<lparr>connections := map_put (fh_server hnd) (c\<lparr>rx := rx_push reply (rx c)\<rparr>) (connections st)\<rparr>) =
      Some (int (length buf), st\<lparr>connections := map_put (fh_server hnd) c' (connections st)\<rparr>) \<and>
    tx c' = tx c @ request \<and> rx c' = rx c \<and>
    serve_step os q (s\<lparr>rx := rx_push request (rx s)\<rparr>) = Some (True, s') \<and>
    tx s' = tx s @ reply \<and> rx s' = rx s \<and>
    view h' = Some (put_at (unat off) buf content, unat off + length buf) \<and>
    cc_host s' = snd (os_close os fd h')"
proof -
  have len: "length buf < 2 ^ 63" using assms(7) by simp
  obtain c' s' h' err where "session (\<lambda>c. Some (writeFile p (fh_file hnd) off buf c)) (serve_step os q) c s
      (word_of_nat (length buf), err) c' s'" and err: "\<not> neg_err err"
    and written: "view h' = Some (put_at (unat off) buf content, unat off + length buf)"
      "cc_host s' = snd (os_close os fd h')"
    using write_session [OF assms(3-6) len assms(8-15), of p] by blast
  then obtain request reply where
    call: "writeFile p (fh_file hnd) off buf (c\<lparr>rx := rx_push reply (rx c)\<rparr>) = ((word_of_nat (length buf), err), c')"
    and io: "tx c' = tx c @ request" "rx c' = rx c"
      "serve_step os q (s\<lparr>rx := rx_push request (rx s)\<rparr>) = Some (True, s')" "tx s' = tx s @ reply" "rx s' = rx s"
    unfolding session_def option.inject by blast
  let ?st = "st\<lparr>connections := map_put (fh_server hnd) (c\<lparr>rx := rx_push reply (rx c)\<rparr>) (connections st)\<rparr>"
  have "handle_at ?st fh = Some hnd" using assms(1) by simp
  then have "agfs_write p buf off fh ?st =
      Some (int (length buf), st\<lparr>connections := map_put (fh_server hnd) c' (connections st)\<rparr>)"
    using call healthy_connected [OF assms(3)] err int_of_err_nat [OF assms(7)]
    by (simp add: agfs_write_def map_find_put)
  then show ?thesis using io written by blast
qed

theorem mount_writes_file_witness:
  "\<exists>reply st' request s'. agfs_write ppc [7, 8] 3 1
     (mounted_example\<lparr>connections := map_put ''h1'' (open_client\<lparr>rx := rx_push reply []\<rparr>) (connections mounted_example)\<rparr>) =
     Some (2, st') \<and>
   serve_step file_os x86 (file_server\<lparr>rx := rx_push request []\<rparr>) = Some (True, s') \<and>
   cc_host s' = ([10, 20, 30, 7, 8], 5)"
proof -
  have len: "length [7, 8 :: byte] < 2 ^ 31" "alloc_ok x86 (length [7, 8 :: byte])" "unat (3 :: agsize_t) < 2 ^ 63"
    by simp_all
  have os: "os_open file_os (path_append file_os (cc_mountPoint file_server)
      (fh_file \<lparr>fh_server = ''h1'', fh_file = ''/f''\<rparr>)) O_WRONLY (cc_host file_server) = (Inr 5, ([10, 20, 30, 40], 0))"
    by simp
  have path: "path_ok (fh_file \<lparr>fh_server = ''h1'', fh_file = ''/f''\<rparr>)"
    "string_ok x86 (fh_file \<lparr>fh_server = ''h1'', fh_file = ''/f''\<rparr>)" by simp_all
  show ?thesis
    using mount_writes_file [OF mounted_example_handle, of file_server x86 "[7, 8]" 3 file_os 5
        "([10, 20, 30, 40], 0)" Some "[10, 20, 30, 40]" 0 ppc] len os path file_os_laws [of 5]
    by (simp add: put_at_def) blast
qed

end
